(* ===== verification/Prelude.thy ===== *)
theory Prelude
  imports Main "HOL-Library.Word"
begin

text \<open>
  Shared vocabulary of the development: the Go types the program uses (fixed-width
  integers as words, byte slices, strings), the exact-integer reading of \<open>int64\<close>,
  the outcome of iterating over a Go map, and the generic list and option lemmas the component
  theories rest on.
\<close>

unbundle bit_operations_syntax

named_theorems int64_simps \<open>facts that move between int64 words and exact integers\<close>
named_theorems codec_simps \<open>round-trip facts of the byte encodings\<close>

section \<open>Go types\<close>

type_synonym byte = "8 word"
type_synonym bytes = "8 word list"
type_synonym int64 = "64 word"
type_synonym uint64 = "64 word"
type_synonym int32 = "32 word"

text \<open>\<open>[]byte(s)\<close>: a Go string is a sequence of bytes, as a HOL \<^typ>\<open>string\<close> is.\<close>

definition bytes_of_string :: "string \<Rightarrow> bytes" where
  "bytes_of_string s = map of_char s"

lemma of_char_byte_inj: "(of_char c :: 8 word) = of_char d \<Longrightarrow> c = d"
proof -
  assume eq: "(of_char c :: 8 word) = of_char d"
  have "unat (of_char c :: 8 word) = of_char c" for c
  proof -
    have "unat (of_nat (of_char c) :: 8 word) = of_char c mod 256"
      by (simp add: unat_of_nat del: of_char_mod_256)
    then show ?thesis by (simp add: of_nat_of_char)
  qed
  with eq have "(of_char c :: nat) = of_char d" by metis
  then show "c = d" by simp
qed

lemma bytes_of_string_inj [simp]: "bytes_of_string s = bytes_of_string t \<longleftrightarrow> s = t"
  unfolding bytes_of_string_def by (auto intro: of_char_byte_inj map_injective injI)

lemma length_bytes_of_string [simp]: "length (bytes_of_string s) = length s"
  by (simp add: bytes_of_string_def)

section \<open>int64 as exact integers\<close>

definition in_int64 :: "int \<Rightarrow> bool" where
  "in_int64 x \<longleftrightarrow> - (2 ^ 63) \<le> x \<and> x < 2 ^ 63"

lemma sint_in_int64 [simp]: "in_int64 (sint (w :: int64))"
  using sint_ge [of w] sint_lt [of w] by (simp add: in_int64_def)

lemma sint_bounds64:
  "- 9223372036854775808 \<le> sint (w :: int64)" "sint (w :: int64) \<le> 9223372036854775807"
  using sint_in_int64 [of w] by (simp_all add: in_int64_def)

lemma sint_inj64 [simp]: "sint (a :: int64) = sint b \<longleftrightarrow> a = b"
  by (auto intro: signed_word_eqI)

lemma sint_of_int64 [int64_simps]: "in_int64 x \<Longrightarrow> sint (word_of_int x :: int64) = x"
  by (simp add: in_int64_def sint_sbintrunc' signed_take_bit_int_eq_self)

text \<open>
  Two's complement addition in full: exact when the sum fits, off by \<open>2\<^sup>6\<^sup>4\<close> otherwise.
\<close>

lemma int_mod_shift: "0 \<le> y + k * m \<Longrightarrow> y + k * m < m \<Longrightarrow> y mod m = y + k * m" for y :: int
  using mod_mult_self1 [of y k m] mod_pos_pos_trivial [of "y + k * m" m] by simp

lemma sint_add64_cases:
  "sint (a + b :: int64) =
     (if sint a + sint b < - (2 ^ 63) then sint a + sint b + 2 ^ 64
      else if 2 ^ 63 \<le> sint a + sint b then sint a + sint b - 2 ^ 64
      else sint a + sint b)"
proof -
  have "sint (a + b) = (sint a + sint b + 2 ^ 63) mod 2 ^ 64 - 2 ^ 63"
    by (simp add: sint_word_add signed_take_bit_eq_take_bit_shift take_bit_eq_mod)
  moreover have "- (2 ^ 64) \<le> sint a + sint b" "sint a + sint b < 2 ^ 64"
    using sint_bounds64 [of a] sint_bounds64 [of b] by simp_all
  ultimately show ?thesis
    using int_mod_shift [of "sint a + sint b + 2 ^ 63" 1 "2 ^ 64"]
      int_mod_shift [of "sint a + sint b + 2 ^ 63" "- 1" "2 ^ 64"]
      int_mod_shift [of "sint a + sint b + 2 ^ 63" 0 "2 ^ 64"]
    by auto
qed

lemma sint_add64 [int64_simps]:
  "in_int64 (sint a + sint b) \<Longrightarrow> sint (a + b :: int64) = sint a + sint b"
  by (simp add: sint_add64_cases in_int64_def)

lemma sint_neg64 [int64_simps]:
  "sint a \<noteq> - (2 ^ 63) \<Longrightarrow> sint (- a :: int64) = - sint a"
  using sint_bounds64 [of a]
  by (simp add: sint_word_minus signed_take_bit_int_eq_self)

lemmas word_sless_iff [int64_simps] = word_sless_alt word_sle_eq

section \<open>Iterating over a Go map\<close>

text \<open>
  Go leaves the order of \<open>for k := range m\<close> unspecified. A definition that ranges over a
  map takes the order as an argument: a function that rearranges the list of keys.
\<close>

definition is_range_order :: "('k list \<Rightarrow> 'k list) \<Rightarrow> bool" where
  "is_range_order f \<longleftrightarrow> (\<forall>ks. distinct ks \<longrightarrow> distinct (f ks) \<and> set (f ks) = set ks)"

lemma is_range_orderD [dest]:
  "is_range_order f \<Longrightarrow> distinct ks \<Longrightarrow> distinct (f ks)"
  "is_range_order f \<Longrightarrow> distinct ks \<Longrightarrow> set (f ks) = set ks"
  by (auto simp: is_range_order_def)

lemma is_range_order_id [simp, intro]: "is_range_order id" "is_range_order (\<lambda>ks. ks)"
  by (simp_all add: is_range_order_def)

lemma is_range_order_rev [simp, intro]: "is_range_order rev"
  by (simp add: is_range_order_def)

text \<open>
  A Go map from keys to slices, kept as an association list with distinct keys;
  \<open>appendAt k x m\<close> is \<open>m[k] = append(m[k], x)\<close>.
\<close>

fun appendAt :: "'k \<Rightarrow> 'a \<Rightarrow> ('k \<times> 'a list) list \<Rightarrow> ('k \<times> 'a list) list" where
  "appendAt k x [] = [(k, [x])]"
| "appendAt k x ((k', xs) # m) =
     (if k = k' then (k', xs @ [x]) # m else (k', xs) # appendAt k x m)"

definition sliceAt :: "('k \<times> 'a list) list \<Rightarrow> 'k \<Rightarrow> 'a list" where
  "sliceAt m k = (case map_of m k of None \<Rightarrow> [] | Some xs \<Rightarrow> xs)"

lemma sliceAt_Nil [simp]: "sliceAt [] k = []"
  by (simp add: sliceAt_def)

lemma sliceAt_Cons [simp]: "sliceAt ((k', xs) # m) k = (if k = k' then xs else sliceAt m k)"
  by (simp add: sliceAt_def)

lemma keys_appendAt: "set (map fst (appendAt k x m)) = insert k (set (map fst m))"
  by (induction k x m rule: appendAt.induct) auto

lemma distinct_appendAt [simp]:
  "distinct (map fst m) \<Longrightarrow> distinct (map fst (appendAt k x m))"
proof (induction k x m rule: appendAt.induct)
  case (2 k x k' xs m)
  then show ?case using keys_appendAt [of k x m] by auto
qed simp

lemma sliceAt_appendAt [simp]:
  "sliceAt (appendAt k x m) k' = (if k' = k then sliceAt m k @ [x] else sliceAt m k')"
  by (induction k x m rule: appendAt.induct) auto

end
