(* ===== verification/Go_Std.thy ===== *)
theory Go_Std
  imports Prelude
begin

text \<open>
  The parts of Go's standard library the program calls: \<open>encoding/binary\<close>'s big-endian
  64-bit codec, \<open>encoding/base64\<close>'s \<open>RawURLEncoding\<close>, and \<open>strconv\<close>'s decimal
  \<open>ParseInt\<close>/\<open>FormatInt\<close>, with the round trips the components rely on.
\<close>

section \<open>binary.BigEndian\<close>

definition PutUint64 :: "uint64 \<Rightarrow> bytes" where
  "PutUint64 v =
     [ucast (drop_bit 56 v), ucast (drop_bit 48 v), ucast (drop_bit 40 v), ucast (drop_bit 32 v),
      ucast (drop_bit 24 v), ucast (drop_bit 16 v), ucast (drop_bit 8 v), ucast v]"

text \<open>\<open>Uint64\<close> reads \<open>b[0..7]\<close>; every caller has checked the length before.\<close>

definition Uint64 :: "bytes \<Rightarrow> uint64" where
  "Uint64 b =
     ucast (b ! 7) OR push_bit 8 (ucast (b ! 6)) OR push_bit 16 (ucast (b ! 5)) OR
     push_bit 24 (ucast (b ! 4)) OR push_bit 32 (ucast (b ! 3)) OR push_bit 40 (ucast (b ! 2)) OR
     push_bit 48 (ucast (b ! 1)) OR push_bit 56 (ucast (b ! 0))"

lemma length_PutUint64 [simp]: "length (PutUint64 v) = 8"
  by (simp add: PutUint64_def)

lemma bit_byte_less: "bit (w :: byte) n \<Longrightarrow> n < 8"
  using bit_imp_le_length [of w n] by simp

lemma Uint64_PutUint64 [simp, codec_simps]: "Uint64 (PutUint64 v) = v"
proof (rule bit_word_eqI)
  fix n assume "n < LENGTH(64)"
  then have n: "n < 64" by simp
  then consider "n < 8" | "8 \<le> n" "n < 16" | "16 \<le> n" "n < 24" | "24 \<le> n" "n < 32"
    | "32 \<le> n" "n < 40" | "40 \<le> n" "n < 48" | "48 \<le> n" "n < 56" | "56 \<le> n" "n < 64"
    by linarith
  then show "bit (Uint64 (PutUint64 v)) n \<longleftrightarrow> bit v n"
    by cases (auto simp: Uint64_def PutUint64_def bit_simps)
qed

lemma list8_cases:
  assumes "length b = 8"
  obtains x0 x1 x2 x3 x4 x5 x6 x7 where "b = [x0, x1, x2, x3, x4, x5, x6, x7]"
  using assms by (auto simp: numeral_eq_Suc length_Suc_conv)

lemma PutUint64_Uint64 [simp, codec_simps]: "length b = 8 \<Longrightarrow> PutUint64 (Uint64 b) = b"
proof (erule list8_cases)
  fix x0 x1 x2 x3 x4 x5 x6 x7 :: byte
  assume b: "b = [x0, x1, x2, x3, x4, x5, x6, x7]"
  have "ucast (drop_bit 56 (Uint64 b)) = x0" "ucast (drop_bit 48 (Uint64 b)) = x1"
    "ucast (drop_bit 40 (Uint64 b)) = x2" "ucast (drop_bit 32 (Uint64 b)) = x3"
    "ucast (drop_bit 24 (Uint64 b)) = x4" "ucast (drop_bit 16 (Uint64 b)) = x5"
    "ucast (drop_bit 8 (Uint64 b)) = x6" "ucast (Uint64 b) = x7"
    by (rule bit_word_eqI, auto simp: Uint64_def b bit_simps dest: bit_byte_less)+
  then show ?thesis by (simp add: PutUint64_def b)
qed

lemma PutUint64_inj [simp]: "PutUint64 a = PutUint64 b \<longleftrightarrow> a = b"
  by (metis Uint64_PutUint64)

section \<open>base64.RawURLEncoding\<close>

text \<open>
  \<open>EncodeToString\<close>: three bytes make a 24-bit group of four 6-bit digits; a rest of one or two
  bytes makes two or three digits and no padding. The digits index the URL-safe alphabet.
\<close>

fun b64_digits :: "nat list \<Rightarrow> nat list" where
  "b64_digits [] = []"
| "b64_digits [a] = (let v = a * 65536 in [v div 262144 mod 64, v div 4096 mod 64])"
| "b64_digits [a, b] =
     (let v = a * 65536 + b * 256 in [v div 262144 mod 64, v div 4096 mod 64, v div 64 mod 64])"
| "b64_digits (a # b # c # r) =
     (let v = a * 65536 + b * 256 + c
      in v div 262144 mod 64 # v div 4096 mod 64 # v div 64 mod 64 # v mod 64 # b64_digits r)"

definition encodeURL :: string where
  "encodeURL = ''ABCDEFGHIJKLMNOPQRSTUVWXYZabcdefghijklmnopqrstuvwxyz0123456789-_''"

definition RawURLEncodeToString :: "bytes \<Rightarrow> string" where
  "RawURLEncodeToString b = map (\<lambda>d. encodeURL ! d) (b64_digits (map unat b))"

text \<open>The inverse of the digit grouping, used to show that no information is lost.\<close>

fun b64_undigits :: "nat list \<Rightarrow> nat list" where
  "b64_undigits (p # q # r # s # ds) =
     (let v = p * 262144 + q * 4096 + r * 64 + s
      in v div 65536 # v div 256 mod 256 # v mod 256 # b64_undigits ds)"
| "b64_undigits [p, q, r] =
     (let v = p * 262144 + q * 4096 + r * 64 in [v div 65536, v div 256 mod 256])"
| "b64_undigits [p, q] = (let v = p * 262144 + q * 4096 in [v div 65536])"
| "b64_undigits _ = []"

lemma horner64: "s + 64 * (r + 64 * (q + 64 * p)) = v \<Longrightarrow> p * 262144 + q * 4096 + r * 64 + s = v"
  for p q r s v :: nat
  by simp

lemma sextets_value:
  fixes v :: nat
  assumes "v < 16777216"
  shows "v div 262144 mod 64 * 262144 + v div 4096 mod 64 * 4096 + v div 64 mod 64 * 64 + v mod 64 = v"
proof -
  have "v div 4096 = v div 64 div 64" "v div 262144 = v div 64 div 64 div 64"
    by (simp_all add: div_mult2_eq [symmetric])
  moreover have "v div 262144 mod 64 = v div 262144" using assms by (simp add: less_mult_imp_div_less)
  moreover have "v mod 64 + 64 * (v div 64 mod 64 +
      64 * (v div 64 div 64 mod 64 + 64 * (v div 64 div 64 div 64))) = v"
    by (simp only: mod_mult_div_eq)
  ultimately show ?thesis by (simp only:) (rule horner64)
qed

lemma octets_value:
  fixes a b c :: nat
  assumes "b < 256" "c < 256"
  shows "(a * 65536 + b * 256 + c) div 65536 = a" "(a * 65536 + b * 256 + c) div 256 mod 256 = b"
    "(a * 65536 + b * 256 + c) mod 256 = c"
proof -
  have "a * 65536 + b * 256 + c = (a * 256 + b) * 256 + c" by simp
  moreover have "((a * 256 + b) * 256 + c) div 256 = a * 256 + b" using assms by simp
  moreover have "n div 65536 = n div 256 div 256" for n :: nat by (simp add: div_mult2_eq [symmetric])
  ultimately have d: "(a * 65536 + b * 256 + c) div 256 = a * 256 + b"
    and e: "(a * 65536 + b * 256 + c) div 65536 = (a * 256 + b) div 256" by simp_all
  show "(a * 65536 + b * 256 + c) div 65536 = a" using assms e by simp
  show "(a * 65536 + b * 256 + c) div 256 mod 256 = b" using assms d by simp
  have "a * 65536 + b * 256 + c = (a * 256 + b) * 256 + c" by simp
  then show "(a * 65536 + b * 256 + c) mod 256 = c" using assms by (simp only: mod_mult_self3) simp
qed

lemma b64_undigits_digits: "\<forall>x \<in> set ns. x < 256 \<Longrightarrow> b64_undigits (b64_digits ns) = ns"
proof (induction ns rule: b64_digits.induct)
  case (2 a)
  have "a * 65536 div 64 mod 64 = 0" "a * 65536 mod 64 = 0"
    using div_mult_self_is_m [of 64 "a * 1024"] by (simp_all add: ac_simps)
  with 2 have v: "a * 65536 div 262144 mod 64 * 262144 + a * 65536 div 4096 mod 64 * 4096 = a * 65536"
    using sextets_value [of "a * 65536"] by (simp del: mod_div_trivial)
  show ?case by (simp only: b64_digits.simps b64_undigits.simps Let_def v) simp
next
  case (3 a b)
  let ?v = "a * 65536 + b * 256"
  have "?v mod 64 = 0" by presburger
  with 3 have v: "?v div 262144 mod 64 * 262144 + ?v div 4096 mod 64 * 4096 + ?v div 64 mod 64 * 64 = ?v"
    using sextets_value [of ?v] by (simp only: list.set ball_simps) linarith
  show ?case using 3 octets_value [of b 0 a]
    by (simp only: b64_digits.simps b64_undigits.simps Let_def v) simp
next
  case (4 a b c r)
  let ?v = "a * 65536 + b * 256 + c"
  have v: "?v div 262144 mod 64 * 262144 + ?v div 4096 mod 64 * 4096 + ?v div 64 mod 64 * 64 + ?v mod 64 = ?v"
    using 4 by (intro sextets_value) simp
  show ?case using 4 octets_value [of b c a]
    by (simp only: b64_digits.simps b64_undigits.simps Let_def v) simp
qed simp

lemma b64_digits_less: "d \<in> set (b64_digits ns) \<Longrightarrow> d < 64"
  by (induction ns rule: b64_digits.induct) (auto simp: Let_def)

lemma b64_digits_length: "length ns \<le> length (b64_digits ns)"
  by (induction ns rule: b64_digits.induct) (auto simp: Let_def)

lemma encodeURL_facts: "distinct encodeURL" "length encodeURL = 64"
  by (simp_all add: encodeURL_def)

lemma map_encodeURL_inj:
  assumes "\<forall>d \<in> set ds. d < 64" "\<forall>d \<in> set es. d < 64"
    and "map (\<lambda>d. encodeURL ! d) ds = map (\<lambda>d. encodeURL ! d) es"
  shows "ds = es"
  using assms
  by (intro map_inj_on [where f = "\<lambda>d. encodeURL ! d" and xs = ds and ys = es])
     (auto simp: inj_on_def encodeURL_facts nth_eq_iff_index_eq)

lemma unat_lt_256: "unat (w :: byte) < 256"
  using unsigned_less [of w] by simp

lemma RawURLEncodeToString_inj [simp]:
  "RawURLEncodeToString a = RawURLEncodeToString b \<longleftrightarrow> a = b"
proof
  have lt: "\<forall>x \<in> set (map unat (c :: bytes)). x < 256" for c
    using unat_lt_256 by auto
  assume "RawURLEncodeToString a = RawURLEncodeToString b"
  then have "b64_digits (map unat a) = b64_digits (map unat b)"
    unfolding RawURLEncodeToString_def by (intro map_encodeURL_inj) (auto dest: b64_digits_less)
  then have "map unat a = map unat b" using b64_undigits_digits [OF lt] by metis
  then show "a = b" by (rule map_injective) (simp add: inj_unsigned)
qed simp

section \<open>strconv: decimal integers\<close>

definition digitVal :: "char \<Rightarrow> nat option" where
  "digitVal c = (let n = of_char c in if 48 \<le> n \<and> n \<le> 57 then Some (n - 48) else None)"

fun parseDigits :: "nat \<Rightarrow> string \<Rightarrow> nat option" where
  "parseDigits acc [] = Some acc"
| "parseDigits acc (c # s) =
     (case digitVal c of None \<Rightarrow> None | Some d \<Rightarrow> parseDigits (acc * 10 + d) s)"

definition ParseUint :: "string \<Rightarrow> nat option" where
  "ParseUint s = (if s = [] then None else parseDigits 0 s)"

text \<open>
  \<open>strconv.ParseInt(s, 10, 64)\<close>; \<open>None\<close> is a non-nil error. The callers never tell a syntax
  error from a range error, and a digit sequence outside the range is an error either way.
\<close>

definition ParseInt :: "string \<Rightarrow> int64 option" where
  "ParseInt s =
     (case s of
        [] \<Rightarrow> None
      | c # r \<Rightarrow>
          let neg = (c = CHR ''-''); t = (if c = CHR ''+'' \<or> c = CHR ''-'' then r else s)
          in (case ParseUint t of
                None \<Rightarrow> None
              | Some un \<Rightarrow>
                  if \<not> neg \<and> un \<ge> 2 ^ 63 then None
                  else if neg \<and> un > 2 ^ 63 then None
                  else Some (if neg then - of_nat un else of_nat un)))"

definition digitChar :: "nat \<Rightarrow> char" where
  "digitChar d = char_of (48 + d)"

fun natString :: "nat \<Rightarrow> string" where
  "natString n = (if n < 10 then [digitChar n] else natString (n div 10) @ [digitChar (n mod 10)])"

declare natString.simps [simp del]

text \<open>\<open>strconv.FormatInt(n, 10)\<close>, also what \<open>fmt\<close>'s \<open>%d\<close> prints for an \<open>int64\<close>.\<close>

definition FormatInt :: "int64 \<Rightarrow> string" where
  "FormatInt n =
     (if sint n < 0 then CHR ''-'' # natString (nat (- sint n)) else natString (nat (sint n)))"

lemma digitVal_digitChar [simp]: "d < 10 \<Longrightarrow> digitVal (digitChar d) = Some d"
  by (simp add: digitVal_def digitChar_def Let_def)

lemma parseDigits_append:
  "parseDigits acc (s @ t) = (case parseDigits acc s of None \<Rightarrow> None | Some a \<Rightarrow> parseDigits a t)"
  by (induction acc s rule: parseDigits.induct) (auto split: option.splits)

lemma parseDigits_natString [simp]: "parseDigits 0 (natString n) = Some n"
proof (induction n rule: natString.induct)
  case (1 n)
  then show ?case
    by (subst natString.simps) (simp add: parseDigits_append)
qed

lemma natString_first: "\<exists>c r. natString n = c # r \<and> c \<noteq> CHR ''+'' \<and> c \<noteq> CHR ''-''"
proof (induction n rule: natString.induct)
  case (1 n)
  have "digitChar n \<noteq> CHR ''+''" "digitChar n \<noteq> CHR ''-''" if "n < 10"
    using that digitVal_digitChar [of n] by (auto simp: digitVal_def Let_def)
  with 1 show ?case by (subst natString.simps) auto
qed

lemma ParseInt_FormatInt [simp, codec_simps]: "ParseInt (FormatInt n) = Some n"
proof (cases "sint n < 0")
  case True
  have "natString (nat (- sint n)) \<noteq> []" using natString_first [of "nat (- sint n)"] by auto
  then show ?thesis using True sint_bounds64 [of n]
    by (simp add: FormatInt_def ParseInt_def ParseUint_def Let_def nat_le_eq_zle of_nat_nat)
next
  case False
  obtain c r where cr: "natString (nat (sint n)) = c # r" "c \<noteq> CHR ''+''" "c \<noteq> CHR ''-''"
    using natString_first by blast
  then have "parseDigits 0 (c # r) = Some (nat (sint n))" by (metis parseDigits_natString)
  with False cr sint_bounds64 [of n] show ?thesis
    by (simp add: FormatInt_def ParseInt_def ParseUint_def Let_def del: parseDigits.simps)
qed

section \<open>strings\<close>

definition HasPrefix :: "string \<Rightarrow> string \<Rightarrow> bool" where
  "HasPrefix s p \<longleftrightarrow> length p \<le> length s \<and> take (length p) s = p"

lemma HasPrefix_append [simp]: "HasPrefix (p @ s) p"
  by (simp add: HasPrefix_def)

lemma HasPrefix_iff: "HasPrefix s p \<longleftrightarrow> (\<exists>r. s = p @ r)"
  unfolding HasPrefix_def by (metis append_take_drop_id append_eq_conv_conj length_append le_add1)

end
