(* ===== verification/Go_Monad.thy ===== *)
theory Go_Monad
  imports Go_Std
begin

text \<open>
  Stateful Go code that may panic. A computation takes the state to an outcome (a returned value or
  a panic) and the state at that moment, so that a caller which recovers, or a deferred function,
  continues from the right state. Go's \<open>(value, error)\<close> pairs are values of type \<open>string + 'a\<close>.
\<close>

datatype 'a go = Panic string | Return 'a

type_synonym ('s, 'a) goM = "'s \<Rightarrow> 'a go \<times> 's"

definition gret :: "'a \<Rightarrow> ('s, 'a) goM" where
  "gret a s = (Return a, s)"

definition gpanic :: "string \<Rightarrow> ('s, 'a) goM" where
  "gpanic p s = (Panic p, s)"

definition gbind :: "('s, 'a) goM \<Rightarrow> ('a \<Rightarrow> ('s, 'b) goM) \<Rightarrow> ('s, 'b) goM" where
  "gbind m f s = (case m s of (Return a, s') \<Rightarrow> f a s' | (Panic p, s') \<Rightarrow> (Panic p, s'))"

text \<open>\<open>defer d()\<close> followed by \<open>m\<close>: \<open>d\<close> runs on return and on panic.\<close>

definition gdefer :: "('s \<Rightarrow> 's) \<Rightarrow> ('s, 'a) goM \<Rightarrow> ('s, 'a) goM" where
  "gdefer d m s = (case m s of (r, s') \<Rightarrow> (r, d s'))"

definition gmodify :: "('s \<Rightarrow> 's) \<Rightarrow> ('s, unit) goM" where
  "gmodify f s = (Return (), f s)"

text \<open>\<open>if err != nil { return ..., err }\<close>\<close>

definition gtry :: "('s, string + 'a) goM \<Rightarrow> ('a \<Rightarrow> ('s, string + 'b) goM) \<Rightarrow> ('s, string + 'b) goM" where
  "gtry m f = gbind m (\<lambda>r. case r of Inl err \<Rightarrow> gret (Inl err) | Inr a \<Rightarrow> f a)"

text \<open>Relations between the state before and after that every outcome of a computation respects.\<close>

definition keeps :: "('s \<Rightarrow> 's \<Rightarrow> bool) \<Rightarrow> ('s, 'a) goM \<Rightarrow> bool" where
  "keeps R m \<longleftrightarrow> (\<forall>s. R s (snd (m s)))"

lemma keepsD: "keeps R m \<Longrightarrow> m s = (r, s') \<Longrightarrow> R s s'"
  by (metis keeps_def snd_conv)

lemma keepsI: "(\<And>s r s'. m s = (r, s') \<Longrightarrow> R s s') \<Longrightarrow> keeps R m"
  unfolding keeps_def by (metis prod.collapse)

named_theorems keeps_intros \<open>composition rules for relations kept by computations\<close>

lemma keeps_gret [keeps_intros]: "reflp R \<Longrightarrow> keeps R (gret a)"
  by (auto simp: keeps_def gret_def reflp_def)

lemma keeps_gpanic [keeps_intros]: "reflp R \<Longrightarrow> keeps R (gpanic p)"
  by (auto simp: keeps_def gpanic_def reflp_def)

lemma keeps_gmodify: "(\<And>s. R s (f s)) \<Longrightarrow> keeps R (gmodify f)"
  by (simp add: keeps_def gmodify_def)

lemma keeps_gbind [keeps_intros]:
  "transp R \<Longrightarrow> keeps R m \<Longrightarrow> (\<And>a. keeps R (f a)) \<Longrightarrow> keeps R (gbind m f)"
proof (unfold keeps_def, rule allI)
  fix s
  assume R: "transp R" and m: "\<forall>s. R s (snd (m s))" and f: "\<And>a. \<forall>s. R s (snd (f a s))"
  obtain r s' where ms: "m s = (r, s')" by fastforce
  then have "R s s'" using m by (metis snd_conv)
  then show "R s (snd (gbind m f s))"
    using R f ms by (cases r) (auto simp: gbind_def elim: transpE)
qed

lemma keeps_gtry [keeps_intros]:
  "reflp R \<Longrightarrow> transp R \<Longrightarrow> keeps R m \<Longrightarrow> (\<And>a. keeps R (f a)) \<Longrightarrow> keeps R (gtry m f)"
  unfolding gtry_def by (intro keeps_gbind) (auto split: sum.splits intro: keeps_gret)

lemmas go_defs = gret_def gpanic_def gbind_def gdefer_def gmodify_def gtry_def

text \<open>\<open>string(b)\<close> for a byte slice.\<close>

definition string_of_bytes :: "bytes \<Rightarrow> string" where
  "string_of_bytes b = map (\<lambda>x. char_of (unat x)) b"

lemma string_of_bytes_of_string [simp]: "string_of_bytes (bytes_of_string s) = s"
proof -
  have "char_of (unat (of_char c :: byte)) = c" for c
  proof -
    have "unat (of_nat (of_char c) :: byte) = of_char c mod 256"
      by (simp add: unat_of_nat del: of_char_mod_256)
    then show ?thesis by (simp add: of_nat_of_char)
  qed
  then show ?thesis by (simp add: string_of_bytes_def bytes_of_string_def comp_def)
qed

lemma length_string_of_bytes [simp]: "length (string_of_bytes b) = length b"
  by (simp add: string_of_bytes_def)

end
