(* ===== verification/Interfaces.thy ===== *)
theory Interfaces
  imports Go_Std
begin

text \<open>
  The contracts several components share, stated once: an overflow-reporting adder and an
  8-byte codec for \<open>int64\<close>. Each is interpreted on the code's own operations in the theory
  of the component that provides them.
\<close>

section \<open>Overflow-checked addition\<close>

locale checked_adder =
  fixes add :: "int64 \<Rightarrow> int64 \<Rightarrow> int64 \<times> bool"
  assumes add_fits: "in_int64 (sint a + sint b) \<Longrightarrow> add a b = (a + b, True)"
    and add_overflows: "\<not> in_int64 (sint a + sint b) \<Longrightarrow> \<not> snd (add a b)"
begin

lemma reports_iff: "snd (add a b) \<longleftrightarrow> in_int64 (sint a + sint b)"
  using add_fits add_overflows by (metis snd_conv)

lemma result_exact: "add a b = (s, True) \<Longrightarrow> sint s = sint a + sint b"
  using add_fits reports_iff [of a b] sint_add64 [of a b] by auto

lemma result_iff: "add a b = (s, True) \<longleftrightarrow> in_int64 (sint a + sint b) \<and> s = a + b"
  using add_fits [of a b] reports_iff [of a b] by auto

lemma add_case:
  "(case add a b of (s, ok) \<Rightarrow> if ok then f s else g) =
   (if in_int64 (sint a + sint b) then f (a + b) else g)"
  using add_fits [of a b] reports_iff [of a b] by (auto split: prod.splits)

end

section \<open>8-byte encodings of int64\<close>

locale int64_codec =
  fixes enc :: "int64 \<Rightarrow> bytes"
    and dec :: "bytes \<Rightarrow> 'e + int64"
  assumes dec_enc [simp]: "dec (enc v) = Inr v"
    and enc_dec: "dec b = Inr v \<Longrightarrow> enc v = b"
    and length_enc [simp]: "length (enc v) = 8"
    and dec_total: "length b = 8 \<Longrightarrow> \<exists>v. dec b = Inr v"
begin

lemma enc_inj [simp]: "enc a = enc b \<longleftrightarrow> a = b"
  by (metis dec_enc sum.inject(2))

lemma dec_ok_iff: "(\<exists>v. dec b = Inr v) \<longleftrightarrow> length b = 8"
  using dec_total enc_dec length_enc by metis

lemma dec_Inr_iff: "dec b = Inr v \<longleftrightarrow> b = enc v"
  using enc_dec by auto

lemma dec_inj: "dec b = Inr v \<Longrightarrow> dec c = Inr v \<Longrightarrow> b = c"
  by (metis enc_dec)

end

end
