(* ===== verification/TypedDelta.thy ===== *)
theory TypedDelta
  imports Interfaces "HOL-Library.Multiset"
begin

text \<open>
  \<open>fabric-core/typeddelta.go\<close>: the delta algebra (operations, signed amounts, the net fold and
  its application), the invariants a schema can declare, and the canonical 8-byte encoding.
  The exact-integer reading (\<open>exactAmount\<close>, \<open>exactSum\<close>) is the abstract specification the
  \<open>int64\<close> code is shown to implement.
\<close>

section \<open>Operations and deltas\<close>

text \<open>\<open>type Op uint8\<close> and its constants.\<close>

type_synonym Op = "8 word"

definition OpUnspecified :: Op where
  "OpUnspecified = 0"

definition OpAdd :: Op where
  "OpAdd = 1"

definition OpSub :: Op where
  "OpSub = 2"

lemma Op_distinct [simp]: "OpAdd \<noteq> OpSub" "OpSub \<noteq> OpAdd" "OpUnspecified \<noteq> OpAdd"
  "OpUnspecified \<noteq> OpSub" "OpAdd \<noteq> OpUnspecified" "OpSub \<noteq> OpUnspecified"
  by (simp_all add: OpAdd_def OpSub_def OpUnspecified_def)

definition Op_String :: "Op \<Rightarrow> string" where
  "Op_String o' = (if o' = OpAdd then ''ADD'' else if o' = OpSub then ''SUB'' else ''UNSPECIFIED'')"

record Delta =
  d_Op :: Op
  d_Arg :: int64

text \<open>The sentinel errors of the package (the last three are declared in \<open>endorse.go\<close>).\<close>

datatype td_error = ErrNegativeArg | ErrUnknownOp | ErrOverflow | ErrBadCanonical | ErrEmptyDeltaSet
  | ErrReadBeforeDelta | ErrPlainAndDelta | ErrOpNotAllowed

definition signedAmount :: "Delta \<Rightarrow> td_error + int64" where
  "signedAmount d =
     (if d_Arg d <s 0 then Inl ErrNegativeArg
      else if d_Op d = OpAdd then Inr (d_Arg d)
      else if d_Op d = OpSub then Inr (- d_Arg d)
      else Inl ErrUnknownOp)"

definition addChecked :: "int64 \<Rightarrow> int64 \<Rightarrow> int64 \<times> bool" where
  "addChecked a b =
     (let s = a + b
      in if (0 <s b \<and> s <s a) \<or> (b <s 0 \<and> a <s s) then (0, False) else (s, True))"

section \<open>Folding and applying\<close>

text \<open>The loop of \<open>FoldNet\<close>, with \<open>net\<close> as its accumulator.\<close>

fun FoldNet_loop :: "int64 \<Rightarrow> Delta list \<Rightarrow> td_error + int64" where
  "FoldNet_loop net [] = Inr net"
| "FoldNet_loop net (d # ds) =
     (case signedAmount d of
        Inl e \<Rightarrow> Inl e
      | Inr s \<Rightarrow>
          (case addChecked net s of
             (net', ok) \<Rightarrow> if ok then FoldNet_loop net' ds else Inl ErrOverflow))"

definition FoldNet :: "Delta list \<Rightarrow> td_error + int64" where
  "FoldNet deltas = (if deltas = [] then Inl ErrEmptyDeltaSet else FoldNet_loop 0 deltas)"

definition ApplyNet :: "int64 \<Rightarrow> int64 \<Rightarrow> td_error + int64" where
  "ApplyNet cur net =
     (case addChecked cur net of (res, ok) \<Rightarrow> if ok then Inr res else Inl ErrOverflow)"

definition Apply :: "int64 \<Rightarrow> Delta list \<Rightarrow> td_error + int64" where
  "Apply cur deltas = (case FoldNet deltas of Inl e \<Rightarrow> Inl e | Inr net \<Rightarrow> ApplyNet cur net)"

section \<open>Invariants\<close>

text \<open>The implementations of the \<open>Invariant\<close> interface.\<close>

datatype Invariant = NonNeg | Range (Lo: int64) (Hi: int64)

fun Holds :: "Invariant \<Rightarrow> int64 \<Rightarrow> bool" where
  "Holds NonNeg v \<longleftrightarrow> 0 \<le>s v"
| "Holds (Range lo hi) v \<longleftrightarrow> lo \<le>s v \<and> v \<le>s hi"

fun Invariant_String :: "Invariant \<Rightarrow> string" where
  "Invariant_String NonNeg = ''NONNEG''"
| "Invariant_String (Range lo hi) = ''RANGE('' @ FormatInt lo @ '','' @ FormatInt hi @ '')''"

section \<open>The canonical encoding\<close>

definition Int64Width :: nat where
  "Int64Width = 8"

definition MarshalInt64 :: "int64 \<Rightarrow> bytes" where
  "MarshalInt64 v = PutUint64 v"

definition UnmarshalInt64 :: "bytes \<Rightarrow> td_error + int64" where
  "UnmarshalInt64 b = (if length b \<noteq> Int64Width then Inl ErrBadCanonical else Inr (Uint64 b))"

interpretation td_codec: int64_codec MarshalInt64 UnmarshalInt64
  by unfold_locales
     (auto simp: MarshalInt64_def UnmarshalInt64_def Int64Width_def split: if_splits)

lemma addChecked_cases:
  "addChecked a b = (if in_int64 (sint a + sint b) then (a + b, True) else (0, False))"
  using sint_bounds64 [of a] sint_bounds64 [of b]
  by (auto simp: addChecked_def Let_def word_sless_iff sint_add64_cases in_int64_def)

interpretation td_adder: checked_adder addChecked
  by unfold_locales (simp_all add: addChecked_cases)

section \<open>The exact-integer specification\<close>

definition validDelta :: "Delta \<Rightarrow> bool" where
  "validDelta d \<longleftrightarrow> 0 \<le> sint (d_Arg d) \<and> (d_Op d = OpAdd \<or> d_Op d = OpSub)"

definition exactAmount :: "Delta \<Rightarrow> int" where
  "exactAmount d = (if d_Op d = OpSub then - sint (d_Arg d) else sint (d_Arg d))"

definition exactSum :: "Delta list \<Rightarrow> int" where
  "exactSum ds = (\<Sum>d \<leftarrow> ds. exactAmount d)"

lemma exactSum_simps [simp]:
  "exactSum [] = 0" "exactSum (d # ds) = exactAmount d + exactSum ds"
  "exactSum (ds @ es) = exactSum ds + exactSum es"
  by (simp_all add: exactSum_def)

lemma exactSum_mset: "mset ds = mset es \<Longrightarrow> exactSum ds = exactSum es"
  unfolding exactSum_def by (metis mset_map sum_mset_sum_list)

text \<open>Every running total of the fold fits \<open>int64\<close>.\<close>

fun runningFits :: "int \<Rightarrow> Delta list \<Rightarrow> bool" where
  "runningFits x [] \<longleftrightarrow> True"
| "runningFits x (d # ds) \<longleftrightarrow> in_int64 (x + exactAmount d) \<and> runningFits (x + exactAmount d) ds"

lemma runningFits_append:
  "runningFits x (ds @ es) \<longleftrightarrow> runningFits x ds \<and> runningFits (x + exactSum ds) es"
  by (induction x ds rule: runningFits.induct) (auto simp: add.assoc)

lemma runningFits_total: "runningFits x ds \<Longrightarrow> ds \<noteq> [] \<Longrightarrow> in_int64 (x + exactSum ds)"
proof (induction x ds rule: runningFits.induct)
  case (2 x d ds)
  then show ?case by (cases ds) (auto simp: add.assoc)
qed simp

lemma signedAmount_cases:
  "signedAmount d =
     (if sint (d_Arg d) < 0 then Inl ErrNegativeArg
      else if validDelta d then Inr (word_of_int (exactAmount d)) else Inl ErrUnknownOp)"
  by (auto simp: signedAmount_def validDelta_def exactAmount_def word_sless_iff)

lemma exactAmount_fits: "validDelta d \<Longrightarrow> in_int64 (exactAmount d)"
  using sint_bounds64 [of "d_Arg d"] by (auto simp: validDelta_def exactAmount_def in_int64_def)

lemma signedAmount_Inr:
  "signedAmount d = Inr s \<longleftrightarrow> validDelta d \<and> sint s = exactAmount d"
proof -
  have "s = word_of_int (exactAmount d) \<longleftrightarrow> sint s = exactAmount d" if "validDelta d"
    using sint_of_int64 [OF exactAmount_fits [OF that]] by (metis sint_inj64)
  then show ?thesis by (auto simp: signedAmount_cases validDelta_def)
qed

lemma FoldNet_loop_Inr:
  "FoldNet_loop net ds = Inr n \<longleftrightarrow>
     list_all validDelta ds \<and> runningFits (sint net) ds \<and> sint n = sint net + exactSum ds"
proof (induction ds arbitrary: net)
  case Nil
  then show ?case by auto
next
  case (Cons d ds)
  show ?case
  proof (cases "signedAmount d")
    case (Inl e)
    then have "\<not> validDelta d" by (auto simp: signedAmount_cases validDelta_def split: if_splits)
    with Inl show ?thesis by simp
  next
    case (Inr s)
    then have "validDelta d" and s: "sint s = exactAmount d" by (auto simp: signedAmount_Inr)
    with Inr Cons show ?thesis
      by (auto simp: td_adder.add_case int64_simps)
  qed
qed

lemma FoldNet_Inr:
  "FoldNet ds = Inr n \<longleftrightarrow>
     ds \<noteq> [] \<and> list_all validDelta ds \<and> runningFits 0 ds \<and> sint n = exactSum ds"
  by (simp add: FoldNet_def FoldNet_loop_Inr)

lemma ApplyNet_Inr:
  "ApplyNet cur net = Inr v \<longleftrightarrow> in_int64 (sint cur + sint net) \<and> v = cur + net"
  by (auto simp: ApplyNet_def td_adder.add_case)

lemma Apply_Inr:
  "Apply cur ds = Inr v \<longleftrightarrow>
     ds \<noteq> [] \<and> list_all validDelta ds \<and> runningFits 0 ds \<and>
     in_int64 (sint cur + exactSum ds) \<and> sint v = sint cur + exactSum ds"
proof -
  have "Apply cur ds = Inr v \<longleftrightarrow> (\<exists>n. FoldNet ds = Inr n \<and> ApplyNet cur n = Inr v)"
    by (auto simp: Apply_def split: sum.splits)
  also have "\<dots> \<longleftrightarrow> (\<exists>n. FoldNet ds = Inr n \<and> in_int64 (sint cur + exactSum ds) \<and> sint v = sint cur + exactSum ds)"
    by (auto simp: ApplyNet_Inr FoldNet_Inr sint_add64) (metis sint_add64 sint_inj64)
  finally have eq: "Apply cur ds = Inr v \<longleftrightarrow>
      (\<exists>n. FoldNet ds = Inr n) \<and> in_int64 (sint cur + exactSum ds) \<and> sint v = sint cur + exactSum ds"
    by blast
  have "(\<exists>n. FoldNet ds = Inr n) \<longleftrightarrow> ds \<noteq> [] \<and> list_all validDelta ds \<and> runningFits 0 ds"
    using runningFits_total [of 0 ds] sint_of_int64 [of "exactSum ds"]
    by (auto simp: FoldNet_Inr)
  with eq show ?thesis by auto
qed

text \<open>The errors are exactly the failures of the specification, with the first one reported.\<close>

lemma FoldNet_loop_Inl:
  "FoldNet_loop net ds = Inl e \<Longrightarrow>
     \<exists>pre d post. ds = pre @ d # post \<and> list_all validDelta pre \<and> runningFits (sint net) pre \<and>
       (e = ErrNegativeArg \<and> sint (d_Arg d) < 0 \<or>
        e = ErrUnknownOp \<and> 0 \<le> sint (d_Arg d) \<and> \<not> validDelta d \<or>
        e = ErrOverflow \<and> validDelta d \<and> \<not> in_int64 (sint net + exactSum pre + exactAmount d))"
proof (induction ds arbitrary: net)
  case Nil
  then show ?case by simp
next
  case (Cons d ds)
  let ?bad = "\<lambda>net pre d. e = ErrNegativeArg \<and> sint (d_Arg d) < 0 \<or>
        e = ErrUnknownOp \<and> 0 \<le> sint (d_Arg d) \<and> \<not> validDelta d \<or>
        e = ErrOverflow \<and> validDelta d \<and> \<not> in_int64 (net + exactSum pre + exactAmount d)"
  show ?case
  proof (cases "validDelta d \<and> in_int64 (sint net + exactAmount d)")
    case True
    then obtain s where s: "signedAmount d = Inr s" "sint s = exactAmount d"
      by (metis signedAmount_Inr sint_of_int64 exactAmount_fits)
    with Cons.prems True have "FoldNet_loop (net + s) ds = Inl e" by (simp add: td_adder.add_case)
    with Cons.IH obtain pre d' post where "ds = pre @ d' # post" "list_all validDelta pre"
      "runningFits (sint (net + s)) pre" "?bad (sint (net + s)) pre d'" by blast
    moreover have "sint (net + s) = sint net + exactAmount d" using True s by (simp add: sint_add64)
    ultimately show ?thesis using True
      by (intro exI [of _ "d # pre"] exI [of _ d'] exI [of _ post]) (auto simp: add.assoc)
  next
    case False
    with Cons.prems have "?bad (sint net) [] d"
      by (auto simp: signedAmount_cases td_adder.add_case sint_of_int64 exactAmount_fits
          split: if_splits)
    then show ?thesis by (intro exI [of _ "[]"] exI [of _ d] exI [of _ ds]) auto
  qed
qed

lemma runningFits_small:
  assumes "list_all validDelta ds" "\<bar>x\<bar> + (\<Sum>d \<leftarrow> ds. sint (d_Arg d)) < 2 ^ 63"
  shows "runningFits x ds"
  using assms
proof (induction ds arbitrary: x)
  case Nil
  then show ?case by simp
next
  case (Cons d ds)
  have nonneg: "0 \<le> (\<Sum>d \<leftarrow> ds. sint (d_Arg d))"
    using Cons.prems(1) by (auto intro!: sum_list_nonneg simp: validDelta_def list_all_iff)
  have "\<bar>x + exactAmount d\<bar> \<le> \<bar>x\<bar> + sint (d_Arg d)"
    using Cons.prems(1) by (auto simp: validDelta_def exactAmount_def)
  with Cons.prems nonneg have "in_int64 (x + exactAmount d)"
    "\<bar>x + exactAmount d\<bar> + (\<Sum>d \<leftarrow> ds. sint (d_Arg d)) < 2 ^ 63"
    by (auto simp: in_int64_def)
  with Cons show ?case by simp
qed

section \<open>Properties of the algebra\<close>

text \<open>
  C15 (overflow detection). \<open>addChecked\<close> reports success exactly when the mathematical sum of the
  two \<open>int64\<close> values fits \<open>int64\<close>, and then returns that sum; otherwise it returns
  \<open>(0, false)\<close>. No pair of inputs wraps silently.
\<close>

theorem addChecked_correct:
  "(snd (addChecked a b) \<longleftrightarrow> in_int64 (sint a + sint b)) \<and>
   sint (fst (addChecked a b)) = (if in_int64 (sint a + sint b) then sint a + sint b else 0)"
  by (simp add: addChecked_cases sint_add64)

text \<open>
  C5 (the fold computes the net amount). \<open>Apply(cur, deltas)\<close> succeeds with \<open>v\<close> exactly when
  the delta set is not empty, every delta is an ADD or a SUB of a non-negative magnitude, no
  running total of the fold leaves \<open>int64\<close> and neither does the final value; \<open>v\<close> is then
  the exact integer \<open>cur\<close> plus all additions minus all subtractions.
\<close>

theorem Apply_exact:
  "Apply cur ds = Inr v \<longleftrightarrow>
     ds \<noteq> [] \<and> (\<forall>d \<in> set ds. 0 \<le> sint (d_Arg d) \<and> (d_Op d = OpAdd \<or> d_Op d = OpSub)) \<and>
     runningFits 0 ds \<and> in_int64 (sint cur + exactSum ds) \<and> sint v = sint cur + exactSum ds"
  by (auto simp: Apply_Inr list_all_iff validDelta_def)

theorem Apply_exact_witness:
  "Apply 5 [\<lparr>d_Op = OpSub, d_Arg = 10\<rparr>, \<lparr>d_Op = OpAdd, d_Arg = 8\<rparr>] = Inr 3"
  by (subst Apply_exact) (simp add: exactAmount_def OpAdd_def OpSub_def in_int64_def)

text \<open>
  Error classification: When \<open>FoldNet\<close> fails on a non-empty delta set, the error names
  what is wrong with the first offending delta: a negative magnitude, an operation that is neither
  ADD nor SUB, or a running total that leaves \<open>int64\<close>; everything before it folds cleanly.
\<close>

theorem FoldNet_first_error:
  assumes "FoldNet ds = Inl e" and "ds \<noteq> []"
  shows "\<exists>pre d post. ds = pre @ d # post \<and> list_all validDelta pre \<and> runningFits 0 pre \<and>
       (e = ErrNegativeArg \<and> sint (d_Arg d) < 0 \<or>
        e = ErrUnknownOp \<and> 0 \<le> sint (d_Arg d) \<and> d_Op d \<noteq> OpAdd \<and> d_Op d \<noteq> OpSub \<or>
        e = ErrOverflow \<and> validDelta d \<and> \<not> in_int64 (exactSum pre + exactAmount d))"
proof -
  have "FoldNet_loop 0 ds = Inl e" using assms by (simp add: FoldNet_def)
  from FoldNet_loop_Inl [OF this] show ?thesis by (simp add: validDelta_def) blast
qed

theorem FoldNet_first_error_witness:
  "FoldNet [\<lparr>d_Op = OpAdd, d_Arg = 1\<rparr>, \<lparr>d_Op = OpUnspecified, d_Arg = 1\<rparr>] = Inl ErrUnknownOp \<and>
   (\<exists>pre d post. [\<lparr>d_Op = OpAdd, d_Arg = 1\<rparr>, \<lparr>d_Op = OpUnspecified, d_Arg = 1\<rparr>] = pre @ d # post \<and>
      list_all validDelta pre)"
proof -
  have e: "FoldNet [\<lparr>d_Op = OpAdd, d_Arg = 1\<rparr>, \<lparr>d_Op = OpUnspecified, d_Arg = 1\<rparr>] = Inl ErrUnknownOp"
    by code_simp
  from FoldNet_first_error [OF e] e show ?thesis by blast
qed

text \<open>
  C19 (commutativity). Two delta sets with the same deltas in any order never fold to different
  net amounts, and whenever the magnitudes together stay below \<open>2\<^sup>6\<^sup>3\<close> every order of a
  well-formed set folds, to the same net.
\<close>

theorem FoldNet_commutes:
  assumes "mset ds = mset es"
  shows "(\<forall>m n. FoldNet ds = Inr m \<longrightarrow> FoldNet es = Inr n \<longrightarrow> m = n) \<and>
    (list_all validDelta ds \<and> (\<Sum>d \<leftarrow> ds. sint (d_Arg d)) < 2 ^ 63 \<longrightarrow> FoldNet ds = FoldNet es)"
proof (intro conjI allI impI; (elim conjE)?)
  show "FoldNet ds = Inr m \<Longrightarrow> FoldNet es = Inr n \<Longrightarrow> m = n" for m n
    using exactSum_mset [OF assms] by (metis FoldNet_Inr sint_inj64)
  assume valid: "list_all validDelta ds" and small: "(\<Sum>d \<leftarrow> ds. sint (d_Arg d)) < 2 ^ 63"
  have "list_all validDelta es" using valid mset_eq_setD [OF assms] by (simp add: list_all_iff)
  moreover have "(\<Sum>d \<leftarrow> es. sint (d_Arg d)) < 2 ^ 63"
    using small assms by (metis mset_map sum_mset_sum_list)
  ultimately have fits: "runningFits 0 ds" "runningFits 0 es"
    using valid small by (auto intro: runningFits_small)
  show "FoldNet ds = FoldNet es"
  proof (cases "ds = []")
    case False
    let ?n = "word_of_int (exactSum ds) :: int64"
    have "sint ?n = exactSum ds" using runningFits_total [OF fits(1) False] by (simp add: int64_simps)
    moreover have "es \<noteq> []" using False assms by auto
    ultimately have "FoldNet ds = Inr ?n" "FoldNet es = Inr ?n"
      using False valid fits \<open>list_all validDelta es\<close> exactSum_mset [OF assms] by (auto simp: FoldNet_Inr)
    then show ?thesis by simp
  qed (use assms in simp)
qed

theorem FoldNet_commutes_witness:
  "FoldNet [\<lparr>d_Op = OpAdd, d_Arg = 10\<rparr>, \<lparr>d_Op = OpSub, d_Arg = 3\<rparr>, \<lparr>d_Op = OpAdd, d_Arg = 5\<rparr>] =
   FoldNet [\<lparr>d_Op = OpSub, d_Arg = 3\<rparr>, \<lparr>d_Op = OpAdd, d_Arg = 5\<rparr>, \<lparr>d_Op = OpAdd, d_Arg = 10\<rparr>]"
proof -
  let ?ds = "[\<lparr>d_Op = OpAdd, d_Arg = 10\<rparr>, \<lparr>d_Op = OpSub, d_Arg = 3\<rparr>, \<lparr>d_Op = OpAdd, d_Arg = 5\<rparr>]"
  let ?es = "[\<lparr>d_Op = OpSub, d_Arg = 3\<rparr>, \<lparr>d_Op = OpAdd, d_Arg = 5\<rparr>, \<lparr>d_Op = OpAdd, d_Arg = 10\<rparr>]"
  have "mset ?ds = mset ?es" by simp
  from FoldNet_commutes [OF this] show ?thesis by (simp add: validDelta_def)
qed

text \<open>
  The order still decides overflow: Folding is not order-independent at the edge of
  \<open>int64\<close>: the same three deltas fold in one order and overflow in another, because every
  running total is checked and not only the net.
\<close>

theorem FoldNet_order_decides_overflow:
  "\<exists>ds es n. mset ds = mset es \<and> FoldNet ds = Inr n \<and> FoldNet es = Inl ErrOverflow"
proof -
  let ?m = "\<lparr>d_Op = OpAdd, d_Arg = 9223372036854775807\<rparr>"
  let ?s = "\<lparr>d_Op = OpSub, d_Arg = 1\<rparr>" let ?a = "\<lparr>d_Op = OpAdd, d_Arg = 1\<rparr>"
  have "FoldNet [?m, ?s, ?a] = Inr 9223372036854775807" "FoldNet [?m, ?a, ?s] = Inl ErrOverflow"
    by code_simp+
  moreover have "mset [?m, ?s, ?a] = mset [?m, ?a, ?s]" by simp
  ultimately show ?thesis by blast
qed

text \<open>
  C18 (canonical encoding). \<open>MarshalInt64\<close> and \<open>UnmarshalInt64\<close> are inverse bijections between
  the \<open>int64\<close> values and the byte strings of length 8, and decoding refuses every other length
  with \<open>ErrBadCanonical\<close>: a value has exactly one encoding.
\<close>

theorem canonical_encoding:
  "UnmarshalInt64 (MarshalInt64 v) = Inr v \<and>
   (UnmarshalInt64 b = Inr v \<longleftrightarrow> b = MarshalInt64 v) \<and>
   (UnmarshalInt64 b = Inl e \<longleftrightarrow> length b \<noteq> Int64Width \<and> e = ErrBadCanonical)"
proof -
  have "UnmarshalInt64 b = Inl e \<longleftrightarrow> length b \<noteq> Int64Width \<and> e = ErrBadCanonical"
    by (auto simp: UnmarshalInt64_def)
  then show ?thesis using td_codec.dec_Inr_iff td_codec.dec_enc by blast
qed

end
