(* ===== verification/Rwset.thy ===== *)
theory Rwset
  imports TypedDelta
begin

text \<open>
  The read-write-set messages the components exchange, as far as the code under
  \<open>src/\<close> uses their fields: \<open>kvrwset.DeltaDescriptor\<close>, \<open>kvrwset.KVWrite\<close>,
  \<open>rwsetutil.NsRwSet\<close> and \<open>rwsetutil.TxRwSet\<close>. The types come from
  Fabric's protobuf packages; only their shape is fixed here.
\<close>

text \<open>
  The enum \<open>DeltaDescriptor_Op\<close>: the code names \<open>ADD\<close> and \<open>SUB\<close>; every other
  number (among them \<open>SETMAX\<close>) is treated alike.
\<close>

datatype DeltaDescriptor_Op = DeltaDescriptor_ADD | DeltaDescriptor_SUB | DeltaDescriptor_OTHER int

record DeltaDescriptor =
  dd_TypeId :: string
  dd_SchemaVersion :: bytes
  dd_Op :: DeltaDescriptor_Op
  dd_Arg :: bytes

record KVWrite =
  w_Key :: string
  w_IsDelete :: bool
  w_Value :: bytes
  w_Delta :: "DeltaDescriptor option"

record KVRWSet =
  Writes :: "KVWrite list"

text \<open>
  The type of the \<open>KvRwSet\<close> field says whether the pointer may be nil: the commit-time hooks and
  the history fold dereference it without a test (\<open>KVRWSet NsRwSet\<close>), the analyzer tests it
  first (\<open>KVRWSet option NsRwSet\<close>).
\<close>

record 'kv NsRwSet =
  NameSpace :: string
  KvRwSet :: 'kv

record 'kv TxRwSet =
  NsRwSets :: "'kv NsRwSet list"

text \<open>The writes of a transaction in the order the nested loops visit them.\<close>

definition allWrites :: "KVRWSet TxRwSet \<Rightarrow> (string \<times> KVWrite) list" where
  "allWrites tx =
     concat (map (\<lambda>ns. map (\<lambda>w. (NameSpace ns, w)) (Writes (KvRwSet ns))) (NsRwSets tx))"

lemma allWrites_iff:
  "(n, w) \<in> set (allWrites tx) \<longleftrightarrow>
     (\<exists>ns \<in> set (NsRwSets tx). NameSpace ns = n \<and> w \<in> set (Writes (KvRwSet ns)))"
  by (auto simp: allWrites_def)

end
