(* ===== verification/Shim_Handler.thy ===== *)
theory Shim_Handler
  imports Go_Monad Rwset
begin

text \<open>
  \<open>shim/handler.go\<close>, the requests a chaincode makes of its peer: response channels, the
  send-and-wait exchange and one operation per request type.

  The protobuf codec and the stream to the peer are code outside \<open>src/\<close>: the fields of
  \<open>shim_env\<close>. \<open>'w\<close> is the state of the stream and of the peer behind it; \<open>env_Await\<close> is the message that
  the receiving goroutine puts on the response channel of a context identifier.
\<close>

section \<open>Messages\<close>

datatype ChaincodeMessage_Type =
    ChaincodeMessage_REGISTERED | ChaincodeMessage_READY | ChaincodeMessage_INIT
  | ChaincodeMessage_TRANSACTION | ChaincodeMessage_COMPLETED | ChaincodeMessage_ERROR
  | ChaincodeMessage_RESPONSE | ChaincodeMessage_KEEPALIVE
  | ChaincodeMessage_GET_STATE | ChaincodeMessage_GET_PRIVATE_DATA_HASH
  | ChaincodeMessage_GET_STATE_METADATA | ChaincodeMessage_PUT_STATE
  | ChaincodeMessage_PUT_STATE_METADATA | ChaincodeMessage_DEL_STATE
  | ChaincodeMessage_PURGE_PRIVATE_DATA | ChaincodeMessage_GET_STATE_BY_RANGE
  | ChaincodeMessage_QUERY_STATE_NEXT | ChaincodeMessage_QUERY_STATE_CLOSE
  | ChaincodeMessage_GET_QUERY_RESULT | ChaincodeMessage_GET_HISTORY_FOR_KEY
  | ChaincodeMessage_INVOKE_CHAINCODE
  | ChaincodeMessage_OTHER string

text \<open>The printed name of a message type; the code names no other type than those above.\<close>

fun msgType_String :: "ChaincodeMessage_Type \<Rightarrow> string" where
  "msgType_String ChaincodeMessage_REGISTERED = ''REGISTERED''"
| "msgType_String ChaincodeMessage_READY = ''READY''"
| "msgType_String ChaincodeMessage_INIT = ''INIT''"
| "msgType_String ChaincodeMessage_TRANSACTION = ''TRANSACTION''"
| "msgType_String ChaincodeMessage_COMPLETED = ''COMPLETED''"
| "msgType_String ChaincodeMessage_ERROR = ''ERROR''"
| "msgType_String ChaincodeMessage_RESPONSE = ''RESPONSE''"
| "msgType_String ChaincodeMessage_KEEPALIVE = ''KEEPALIVE''"
| "msgType_String ChaincodeMessage_GET_STATE = ''GET_STATE''"
| "msgType_String ChaincodeMessage_GET_PRIVATE_DATA_HASH = ''GET_PRIVATE_DATA_HASH''"
| "msgType_String ChaincodeMessage_GET_STATE_METADATA = ''GET_STATE_METADATA''"
| "msgType_String ChaincodeMessage_PUT_STATE = ''PUT_STATE''"
| "msgType_String ChaincodeMessage_PUT_STATE_METADATA = ''PUT_STATE_METADATA''"
| "msgType_String ChaincodeMessage_DEL_STATE = ''DEL_STATE''"
| "msgType_String ChaincodeMessage_PURGE_PRIVATE_DATA = ''PURGE_PRIVATE_DATA''"
| "msgType_String ChaincodeMessage_GET_STATE_BY_RANGE = ''GET_STATE_BY_RANGE''"
| "msgType_String ChaincodeMessage_QUERY_STATE_NEXT = ''QUERY_STATE_NEXT''"
| "msgType_String ChaincodeMessage_QUERY_STATE_CLOSE = ''QUERY_STATE_CLOSE''"
| "msgType_String ChaincodeMessage_GET_QUERY_RESULT = ''GET_QUERY_RESULT''"
| "msgType_String ChaincodeMessage_GET_HISTORY_FOR_KEY = ''GET_HISTORY_FOR_KEY''"
| "msgType_String ChaincodeMessage_INVOKE_CHAINCODE = ''INVOKE_CHAINCODE''"
| "msgType_String (ChaincodeMessage_OTHER n) = n"

record ChaincodeEvent =
  ev_EventName :: string
  ev_Payload :: bytes

record SignedProposal =
  sp_ProposalBytes :: bytes

record ChaincodeMessage =
  cm_Type :: ChaincodeMessage_Type
  cm_Payload :: bytes
  cm_Txid :: string
  cm_ChannelId :: string
  cm_ChaincodeEvent :: "ChaincodeEvent option"
  cm_Proposal :: "SignedProposal option"

text \<open>A message with type, payload, transaction and channel set and the other fields zero.\<close>

definition mkMessage :: "ChaincodeMessage_Type \<Rightarrow> bytes \<Rightarrow> string \<Rightarrow> string \<Rightarrow> ChaincodeMessage" where
  "mkMessage t payload txid channelID =
     \<lparr>cm_Type = t, cm_Payload = payload, cm_Txid = txid, cm_ChannelId = channelID,
      cm_ChaincodeEvent = None, cm_Proposal = None\<rparr>"

text \<open>The request messages the handler marshals, by their protobuf type and the fields it sets.\<close>

datatype request =
    GetState string string
  | GetStateMetadata string string
  | PutState string string bytes "DeltaDescriptor option"
  | PutStateMetadata string string string bytes
  | DelState string string
  | GetStateByRange string string string bytes
  | QueryStateNext string
  | QueryStateClose string
  | GetQueryResult string string bytes
  | GetHistoryForKeyReq string
  | ChaincodeSpec string "bytes list"

record QueryResponse =
  qr_Results :: "bytes list"
  qr_HasMore :: bool
  qr_Id :: string
  qr_Metadata :: bytes

record Response =
  rs_Status :: int32
  rs_Message :: string
  rs_Payload :: bytes

record 'w shim_env =
  env_Marshal :: "request \<Rightarrow> string + bytes"
  env_StateMetadataResult :: "bytes \<Rightarrow> string + (string \<times> bytes) list"
  env_QueryResponse :: "bytes \<Rightarrow> string + QueryResponse"
  env_ChaincodeMessage :: "bytes \<Rightarrow> string + ChaincodeMessage"
  env_Response :: "bytes \<Rightarrow> string + Response"
  env_Send :: "ChaincodeMessage \<Rightarrow> 'w \<Rightarrow> string option \<times> 'w"
  env_Await :: "string \<Rightarrow> 'w \<Rightarrow> ChaincodeMessage \<times> 'w"
  env_ERROR :: int32

section \<open>The handler\<close>

text \<open>\<open>type state string\<close> and its three constants.\<close>

definition created :: string where
  "created = ''created''"

definition established :: string where
  "established = ''established''"

definition ready :: string where
  "ready = ''ready''"

text \<open>
  The map of response channels by its set of context identifiers (every entry is a fresh channel),
  \<open>None\<close> for the nil map.
\<close>

record 'w Handler =
  h_chatStream :: 'w
  h_state :: string
  h_responseChannels :: "string set option"

definition newChaincodeHandler :: "'w \<Rightarrow> 'w Handler" where
  "newChaincodeHandler peerChatStream =
     \<lparr>h_chatStream = peerChatStream, h_state = created, h_responseChannels = Some {}\<rparr>"

definition shorttxid :: "string \<Rightarrow> string" where
  "shorttxid txid = (if length txid < 8 then txid else take 8 txid)"

definition serialSend :: "'w shim_env \<Rightarrow> ChaincodeMessage \<Rightarrow> ('w Handler, string option) goM" where
  "serialSend env msg h =
     (case env_Send env msg (h_chatStream h) of (err, w) \<Rightarrow> (Return err, h\<lparr>h_chatStream := w\<rparr>))"

definition transactionContextID :: "string \<Rightarrow> string \<Rightarrow> string" where
  "transactionContextID chainID txid = chainID @ txid"

text \<open>On success the result is the context identifier that names the new channel.\<close>

definition createResponseChannel :: "string \<Rightarrow> string \<Rightarrow> ('w Handler, string + string) goM" where
  "createResponseChannel channelID txid h =
     (case h_responseChannels h of
        None \<Rightarrow> (Return (Inl (''['' @ shorttxid txid @ ''] cannot create response channel'')), h)
      | Some chans \<Rightarrow>
          (let txCtxID = transactionContextID channelID txid
           in if txCtxID \<in> chans
              then (Return (Inl (''['' @ shorttxid txCtxID @ ''] channel exists'')), h)
              else (Return (Inr txCtxID), h\<lparr>h_responseChannels := Some (insert txCtxID chans)\<rparr>)))"

definition deleteResponseChannel :: "string \<Rightarrow> string \<Rightarrow> 'w Handler \<Rightarrow> 'w Handler" where
  "deleteResponseChannel channelID txid h =
     (case h_responseChannels h of
        None \<Rightarrow> h
      | Some chans \<Rightarrow> h\<lparr>h_responseChannels := Some (chans - {transactionContextID channelID txid})\<rparr>)"

definition sendReceive ::
  "'w shim_env \<Rightarrow> ChaincodeMessage \<Rightarrow> string \<Rightarrow> ('w Handler, string + ChaincodeMessage) goM" where
  "sendReceive env msg responseChan =
     gbind (serialSend env msg) (\<lambda>err.
       case err of
         Some e \<Rightarrow> gret (Inl e)
       | None \<Rightarrow> (\<lambda>h. case env_Await env responseChan (h_chatStream h) of
                       (outmsg, w) \<Rightarrow> (Return (Inr outmsg), h\<lparr>h_chatStream := w\<rparr>)))"

definition marshalOrPanic :: "'w shim_env \<Rightarrow> request \<Rightarrow> ('w Handler, bytes) goM" where
  "marshalOrPanic env msg =
     (case env_Marshal env msg of
        Inl err \<Rightarrow> gpanic (''failed to marshal message: '' @ err)
      | Inr b \<Rightarrow> gret b)"

definition callPeerWithChaincodeMsg ::
  "'w shim_env \<Rightarrow> ChaincodeMessage \<Rightarrow> string \<Rightarrow> string \<Rightarrow> ('w Handler, string + ChaincodeMessage) goM" where
  "callPeerWithChaincodeMsg env msg channelID txid =
     gtry (createResponseChannel channelID txid) (\<lambda>respChan.
       gdefer (deleteResponseChannel channelID txid) (sendReceive env msg respChan))"

section \<open>Requests\<close>

text \<open>
  The end every request shares: a RESPONSE is read by \<open>ok\<close>, an ERROR carries its text in
  the payload, and any other type is reported, with the prefix the operation gives.
\<close>

definition readResponse ::
  "string \<Rightarrow> ChaincodeMessage \<Rightarrow> (bytes \<Rightarrow> string + 'a) \<Rightarrow> string + 'a" where
  "readResponse prefix responseMsg ok =
     (if cm_Type responseMsg = ChaincodeMessage_RESPONSE then ok (cm_Payload responseMsg)
      else if cm_Type responseMsg = ChaincodeMessage_ERROR
      then Inl (string_of_bytes (cm_Payload responseMsg))
      else Inl (prefix @ ''incorrect chaincode message '' @ msgType_String (cm_Type responseMsg) @
                '' received. Expecting RESPONSE or ERROR''))"

abbreviation bracket :: "string \<Rightarrow> string" where
  "bracket s \<equiv> ''['' @ s @ '']''"

definition handleGetState ::
  "'w shim_env \<Rightarrow> string \<Rightarrow> string \<Rightarrow> string \<Rightarrow> string \<Rightarrow> ('w Handler, string + bytes) goM" where
  "handleGetState env collection key channelID txid =
     gbind (marshalOrPanic env (GetState collection key)) (\<lambda>payloadBytes.
     gbind (callPeerWithChaincodeMsg env (mkMessage ChaincodeMessage_GET_STATE payloadBytes txid channelID)
              channelID txid) (\<lambda>r.
     gret (case r of
             Inl err \<Rightarrow> Inl (bracket (shorttxid txid) @ '' error sending GET_STATE: '' @ err)
           | Inr m \<Rightarrow> readResponse (bracket (shorttxid (cm_Txid m)) @ '' '') m Inr)))"

definition handleGetPrivateDataHash ::
  "'w shim_env \<Rightarrow> string \<Rightarrow> string \<Rightarrow> string \<Rightarrow> string \<Rightarrow> ('w Handler, string + bytes) goM" where
  "handleGetPrivateDataHash env collection key channelID txid =
     gbind (marshalOrPanic env (GetState collection key)) (\<lambda>payloadBytes.
     gbind (callPeerWithChaincodeMsg env
              (mkMessage ChaincodeMessage_GET_PRIVATE_DATA_HASH payloadBytes txid channelID)
              channelID txid) (\<lambda>r.
     gret (case r of
             Inl err \<Rightarrow> Inl (bracket (shorttxid txid) @ '' error sending GET_PRIVATE_DATA_HASH: '' @ err)
           | Inr m \<Rightarrow> readResponse (bracket (shorttxid (cm_Txid m)) @ '' '') m Inr)))"

text \<open>The loop \<open>metadata[md.Metakey] = md.Value\<close>: a later entry replaces an earlier one.\<close>

definition metadataMap :: "(string \<times> bytes) list \<Rightarrow> string \<rightharpoonup> bytes" where
  "metadataMap entries = foldl (\<lambda>m (k, v). m(k \<mapsto> v)) Map.empty entries"

definition handleGetStateMetadata ::
  "'w shim_env \<Rightarrow> string \<Rightarrow> string \<Rightarrow> string \<Rightarrow> string \<Rightarrow> ('w Handler, string + (string \<rightharpoonup> bytes)) goM" where
  "handleGetStateMetadata env collection key channelID txID =
     gbind (marshalOrPanic env (GetStateMetadata collection key)) (\<lambda>payloadBytes.
     gbind (callPeerWithChaincodeMsg env
              (mkMessage ChaincodeMessage_GET_STATE_METADATA payloadBytes txID channelID)
              channelID txID) (\<lambda>r.
     gret (case r of
             Inl err \<Rightarrow> Inl (bracket (shorttxid txID) @ '' error sending GET_STATE_METADATA: '' @ err)
           | Inr m \<Rightarrow> readResponse (bracket (shorttxid (cm_Txid m)) @ '' '') m
               (\<lambda>p. case env_StateMetadataResult env p of
                      Inl _ \<Rightarrow> Inl ''Could not unmarshal metadata response''
                    | Inr entries \<Rightarrow> Inr (metadataMap entries)))))"

definition handlePutState ::
  "'w shim_env \<Rightarrow> string \<Rightarrow> string \<Rightarrow> bytes \<Rightarrow> string \<Rightarrow> string \<Rightarrow> ('w Handler, string + unit) goM" where
  "handlePutState env collection key value channelID txid =
     gbind (marshalOrPanic env (PutState collection key value None)) (\<lambda>payloadBytes.
     gbind (callPeerWithChaincodeMsg env (mkMessage ChaincodeMessage_PUT_STATE payloadBytes txid channelID)
              channelID txid) (\<lambda>r.
     gret (case r of
             Inl err \<Rightarrow> Inl (bracket txid @ '' error sending PUT_STATE: '' @ err)
           | Inr m \<Rightarrow> readResponse (bracket (shorttxid (cm_Txid m)) @ '' '') m (\<lambda>_. Inr ()))))"

definition handlePutDelta ::
  "'w shim_env \<Rightarrow> string \<Rightarrow> DeltaDescriptor \<Rightarrow> string \<Rightarrow> string \<Rightarrow> ('w Handler, string + unit) goM" where
  "handlePutDelta env key delta channelID txid =
     gbind (marshalOrPanic env (PutState '''' key [] (Some delta))) (\<lambda>payloadBytes.
     gbind (callPeerWithChaincodeMsg env (mkMessage ChaincodeMessage_PUT_STATE payloadBytes txid channelID)
              channelID txid) (\<lambda>r.
     gret (case r of
             Inl err \<Rightarrow> Inl (bracket txid @ '' error sending PUT_STATE: '' @ err)
           | Inr m \<Rightarrow> readResponse (bracket (shorttxid (cm_Txid m)) @ '' '') m (\<lambda>_. Inr ()))))"

definition handlePutStateMetadataEntry ::
  "'w shim_env \<Rightarrow> string \<Rightarrow> string \<Rightarrow> string \<Rightarrow> bytes \<Rightarrow> string \<Rightarrow> string \<Rightarrow> ('w Handler, string + unit) goM" where
  "handlePutStateMetadataEntry env collection key metakey metadata channelID txID =
     gbind (marshalOrPanic env (PutStateMetadata collection key metakey metadata)) (\<lambda>payloadBytes.
     gbind (callPeerWithChaincodeMsg env
              (mkMessage ChaincodeMessage_PUT_STATE_METADATA payloadBytes txID channelID)
              channelID txID) (\<lambda>r.
     gret (case r of
             Inl err \<Rightarrow> Inl (bracket txID @ '' error sending PUT_STATE_METADATA: '' @ err)
           | Inr m \<Rightarrow> readResponse (bracket (shorttxid (cm_Txid m))) m (\<lambda>_. Inr ()))))"

definition handleDelState ::
  "'w shim_env \<Rightarrow> string \<Rightarrow> string \<Rightarrow> string \<Rightarrow> string \<Rightarrow> ('w Handler, string + unit) goM" where
  "handleDelState env collection key channelID txid =
     gbind (marshalOrPanic env (DelState collection key)) (\<lambda>payloadBytes.
     gbind (callPeerWithChaincodeMsg env (mkMessage ChaincodeMessage_DEL_STATE payloadBytes txid channelID)
              channelID txid) (\<lambda>r.
     gret (case r of
             Inl err \<Rightarrow> Inl (bracket (shorttxid txid) @ '' error sending DEL_STATE'')
           | Inr m \<Rightarrow> readResponse (bracket (shorttxid (cm_Txid m)) @ '' '') m (\<lambda>_. Inr ()))))"

definition handlePurgeState ::
  "'w shim_env \<Rightarrow> string \<Rightarrow> string \<Rightarrow> string \<Rightarrow> string \<Rightarrow> ('w Handler, string + unit) goM" where
  "handlePurgeState env collection key channelID txid =
     gbind (marshalOrPanic env (DelState collection key)) (\<lambda>payloadBytes.
     gbind (callPeerWithChaincodeMsg env
              (mkMessage ChaincodeMessage_PURGE_PRIVATE_DATA payloadBytes txid channelID)
              channelID txid) (\<lambda>r.
     gret (case r of
             Inl err \<Rightarrow> Inl (bracket (shorttxid txid) @ '' error sending DEL_STATE'')
           | Inr m \<Rightarrow> readResponse (bracket (shorttxid (cm_Txid m)) @ '' '') m (\<lambda>_. Inr ()))))"

text \<open>Reading a query response; the message of an undecodable one differs between operations.\<close>

definition readQueryResponse :: "'w shim_env \<Rightarrow> string \<Rightarrow> bytes \<Rightarrow> string + QueryResponse" where
  "readQueryResponse env unmarshalError p =
     (case env_QueryResponse env p of Inl _ \<Rightarrow> Inl unmarshalError | Inr q \<Rightarrow> Inr q)"

definition handleGetStateByRange ::
  "'w shim_env \<Rightarrow> string \<Rightarrow> string \<Rightarrow> string \<Rightarrow> bytes \<Rightarrow> string \<Rightarrow> string \<Rightarrow>
     ('w Handler, string + QueryResponse) goM" where
  "handleGetStateByRange env collection startKey endKey metadata channelID txid =
     gbind (marshalOrPanic env (GetStateByRange collection startKey endKey metadata)) (\<lambda>payloadBytes.
     gbind (callPeerWithChaincodeMsg env
              (mkMessage ChaincodeMessage_GET_STATE_BY_RANGE payloadBytes txid channelID)
              channelID txid) (\<lambda>r.
     gret (case r of
             Inl err \<Rightarrow> Inl (bracket (shorttxid txid) @ '' error sending GET_STATE_BY_RANGE'')
           | Inr m \<Rightarrow> readResponse '''' m (readQueryResponse env
               (bracket (shorttxid (cm_Txid m)) @ '' GetStateByRangeResponse unmarshall error'')))))"

definition handleQueryStateNext ::
  "'w shim_env \<Rightarrow> string \<Rightarrow> string \<Rightarrow> string \<Rightarrow> ('w Handler, string + QueryResponse) goM" where
  "handleQueryStateNext env id' channelID txid =
     gtry (createResponseChannel channelID txid) (\<lambda>respChan.
     gdefer (deleteResponseChannel channelID txid) (
       gbind (marshalOrPanic env (QueryStateNext id')) (\<lambda>payloadBytes.
       gbind (sendReceive env (mkMessage ChaincodeMessage_QUERY_STATE_NEXT payloadBytes txid channelID) respChan) (\<lambda>r.
       gret (case r of
               Inl err \<Rightarrow> Inl (bracket (shorttxid txid) @ '' error sending QUERY_STATE_NEXT'')
             | Inr m \<Rightarrow> readResponse '''' m (readQueryResponse env
                 (bracket (shorttxid (cm_Txid m)) @ '' unmarshal error'')))))))"

definition handleQueryStateClose ::
  "'w shim_env \<Rightarrow> string \<Rightarrow> string \<Rightarrow> string \<Rightarrow> ('w Handler, string + QueryResponse) goM" where
  "handleQueryStateClose env id' channelID txid =
     gtry (createResponseChannel channelID txid) (\<lambda>respChan.
     gdefer (deleteResponseChannel channelID txid) (
       gbind (marshalOrPanic env (QueryStateClose id')) (\<lambda>payloadBytes.
       gbind (sendReceive env (mkMessage ChaincodeMessage_QUERY_STATE_CLOSE payloadBytes txid channelID) respChan) (\<lambda>r.
       gret (case r of
               Inl err \<Rightarrow> Inl (bracket (shorttxid txid) @ '' error sending QUERY_STATE_CLOSE'')
             | Inr m \<Rightarrow> readResponse '''' m (readQueryResponse env
                 (bracket (shorttxid (cm_Txid m)) @ '' unmarshal error'')))))))"

definition handleGetQueryResult ::
  "'w shim_env \<Rightarrow> string \<Rightarrow> string \<Rightarrow> bytes \<Rightarrow> string \<Rightarrow> string \<Rightarrow>
     ('w Handler, string + QueryResponse) goM" where
  "handleGetQueryResult env collection query metadata channelID txid =
     gbind (marshalOrPanic env (GetQueryResult collection query metadata)) (\<lambda>payloadBytes.
     gbind (callPeerWithChaincodeMsg env
              (mkMessage ChaincodeMessage_GET_QUERY_RESULT payloadBytes txid channelID)
              channelID txid) (\<lambda>r.
     gret (case r of
             Inl err \<Rightarrow> Inl (bracket (shorttxid txid) @ '' error sending GET_QUERY_RESULT'')
           | Inr m \<Rightarrow> readResponse '''' m (readQueryResponse env
               (bracket (shorttxid (cm_Txid m)) @ '' unmarshal error'')))))"

definition handleGetHistoryForKey ::
  "'w shim_env \<Rightarrow> string \<Rightarrow> string \<Rightarrow> string \<Rightarrow> ('w Handler, string + QueryResponse) goM" where
  "handleGetHistoryForKey env key channelID txid =
     gtry (createResponseChannel channelID txid) (\<lambda>respChan.
     gdefer (deleteResponseChannel channelID txid) (
       gbind (marshalOrPanic env (GetHistoryForKeyReq key)) (\<lambda>payloadBytes.
       gbind (sendReceive env (mkMessage ChaincodeMessage_GET_HISTORY_FOR_KEY payloadBytes txid channelID) respChan) (\<lambda>r.
       gret (case r of
               Inl err \<Rightarrow> Inl (bracket (shorttxid txid) @ '' error sending GET_HISTORY_FOR_KEY'')
             | Inr m \<Rightarrow> readResponse '''' m (readQueryResponse env
                 (bracket (shorttxid (cm_Txid m)) @ '' unmarshal error'')))))))"

definition createResponse :: "int32 \<Rightarrow> bytes \<Rightarrow> Response" where
  "createResponse status payload = \<lparr>rs_Status = status, rs_Message = '''', rs_Payload = payload\<rparr>"

definition handleInvokeChaincode ::
  "'w shim_env \<Rightarrow> string \<Rightarrow> bytes list \<Rightarrow> string \<Rightarrow> string \<Rightarrow> ('w Handler, Response) goM" where
  "handleInvokeChaincode env chaincodeName args channelID txid =
     gbind (marshalOrPanic env (ChaincodeSpec chaincodeName args)) (\<lambda>payloadBytes.
     gbind (createResponseChannel channelID txid) (\<lambda>c.
     case c of
       Inl err \<Rightarrow> gret (createResponse (env_ERROR env) (bytes_of_string err))
     | Inr respChan \<Rightarrow>
         gdefer (deleteResponseChannel channelID txid) (
           gbind (sendReceive env (mkMessage ChaincodeMessage_INVOKE_CHAINCODE payloadBytes txid channelID) respChan) (\<lambda>r.
           gret (case r of
                   Inl err \<Rightarrow> createResponse (env_ERROR env)
                     (bytes_of_string (bracket (shorttxid txid) @ '' error sending INVOKE_CHAINCODE''))
                 | Inr m \<Rightarrow>
                     if cm_Type m = ChaincodeMessage_RESPONSE then
                       (case env_ChaincodeMessage env (cm_Payload m) of
                          Inl err \<Rightarrow> createResponse (env_ERROR env) (bytes_of_string err)
                        | Inr respMsg \<Rightarrow>
                            if cm_Type respMsg = ChaincodeMessage_COMPLETED then
                              (case env_Response env (cm_Payload respMsg) of
                                 Inl err \<Rightarrow> createResponse (env_ERROR env) (bytes_of_string err)
                               | Inr res \<Rightarrow> res)
                            else createResponse (env_ERROR env) (cm_Payload m))
                     else if cm_Type m = ChaincodeMessage_ERROR
                     then createResponse (env_ERROR env) (cm_Payload m)
                     else createResponse (env_ERROR env)
                       (bytes_of_string (bracket (shorttxid (cm_Txid m)) @ '' Incorrect chaincode message '' @
                          msgType_String (cm_Type m) @ '' received. Expecting RESPONSE or ERROR'')))))))"

section \<open>What a request leaves behind\<close>

text \<open>
  Only the stream moves: the handler's state and its set of open channels are restored. \<open>sent\<close>
  reads from the state of the stream the messages it has taken; a failed send may or may not appear
  there. A request adds at most messages satisfying \<open>P\<close>.
\<close>

definition recordsSent :: "('w, 'z) shim_env_scheme \<Rightarrow> ('w \<Rightarrow> ChaincodeMessage list) \<Rightarrow> bool" where
  "recordsSent env sent \<longleftrightarrow>
     (\<forall>m w. sent (snd (env_Send env m w)) \<in> {sent w, sent w @ [m]}) \<and>
     (\<forall>c w. sent (snd (env_Await env c w)) = sent w)"

lemma recordsSent_nothing [simp]: "recordsSent env (\<lambda>_. [])"
  by (simp add: recordsSent_def)

definition sendsOnly ::
  "('w \<Rightarrow> ChaincodeMessage list) \<Rightarrow> (ChaincodeMessage \<Rightarrow> bool) \<Rightarrow> 'w Handler \<Rightarrow> 'w Handler \<Rightarrow> bool" where
  "sendsOnly sent P h h' \<longleftrightarrow>
     h_state h' = h_state h \<and> h_responseChannels h' = h_responseChannels h \<and>
     (\<exists>ms. sent (h_chatStream h') = sent (h_chatStream h) @ ms \<and> (\<forall>m \<in> set ms. P m))"

lemma sendsOnly_rel [simp]: "reflp (sendsOnly sent P)" "transp (sendsOnly sent P)"
proof -
  show "reflp (sendsOnly sent P)" by (auto simp: sendsOnly_def reflp_def)
  show "transp (sendsOnly sent P)"
  proof (rule transpI)
    fix a b c assume "sendsOnly sent P a b" "sendsOnly sent P b c"
    then obtain ms ms' where "sent (h_chatStream c) = sent (h_chatStream a) @ ms @ ms'"
      "\<forall>m \<in> set (ms @ ms'). P m" "h_state c = h_state a" "h_responseChannels c = h_responseChannels a"
      unfolding sendsOnly_def by (metis Un_iff append.assoc set_append)
    then show "sendsOnly sent P a c" unfolding sendsOnly_def by blast
  qed
qed

lemma sendsOnly_mono: "sendsOnly sent P h h' \<Longrightarrow> (\<And>m. P m \<Longrightarrow> Q m) \<Longrightarrow> sendsOnly sent Q h h'"
  unfolding sendsOnly_def by blast

text \<open>A message that carries a given request.\<close>

definition carries :: "('w, 'z) shim_env_scheme \<Rightarrow> ChaincodeMessage_Type \<Rightarrow> request \<Rightarrow> ChaincodeMessage \<Rightarrow> bool" where
  "carries env t r m \<longleftrightarrow> cm_Type m = t \<and> env_Marshal env r = Inr (cm_Payload m)"

lemma keeps_marshalOrPanic:
  assumes "\<And>b. env_Marshal env r = Inr b \<Longrightarrow> keeps (sendsOnly sent P) (f b)"
  shows "keeps (sendsOnly sent P) (gbind (marshalOrPanic env r) f)"
proof (cases "env_Marshal env r")
  case (Inl e)
  then show ?thesis by (auto simp: keeps_def marshalOrPanic_def go_defs sendsOnly_def)
next
  case (Inr b)
  then have "gbind (marshalOrPanic env r) f = f b" by (auto simp: marshalOrPanic_def go_defs)
  then show ?thesis using assms [OF Inr] by simp
qed

lemma keeps_sendReceive:
  assumes "recordsSent env sent" "P msg"
  shows "keeps (sendsOnly sent P) (sendReceive env msg c)"
  unfolding keeps_def
proof
  fix h :: "'a Handler"
  obtain e w where s: "env_Send env msg (h_chatStream h) = (e, w)" by fastforce
  obtain m w' where a: "env_Await env c w = (m, w')" by fastforce
  have "sent w \<in> {sent (h_chatStream h), sent (h_chatStream h) @ [msg]}" "sent w' = sent w"
    using assms(1) s a unfolding recordsSent_def by (metis snd_conv)+
  then show "sendsOnly sent P h (snd (sendReceive env msg c h))"
    using s a assms(2)
    by (auto simp: sendReceive_def serialSend_def go_defs sendsOnly_def split: option.splits)
qed

text \<open>The exchange: a channel is opened, used by \<open>m\<close> and closed again, whatever \<open>m\<close> does.\<close>

lemma keeps_exchange:
  assumes "\<And>rc. keeps (sendsOnly sent P) (m rc)"
  shows "keeps (sendsOnly sent P)
    (gtry (createResponseChannel c t) (\<lambda>rc. gdefer (deleteResponseChannel c t) (m rc)))"
proof (unfold keeps_def, rule allI)
  fix h
  let ?x = "transactionContextID c t"
  show "sendsOnly sent P h (snd (gtry (createResponseChannel c t) (\<lambda>rc. gdefer (deleteResponseChannel c t) (m rc)) h))"
  proof (cases "\<exists>chans. h_responseChannels h = Some chans \<and> ?x \<notin> chans")
    case False
    then show ?thesis
      by (auto simp: createResponseChannel_def go_defs Let_def sendsOnly_def split: option.splits)
  next
    case True
    then obtain chans where ch: "h_responseChannels h = Some chans" "?x \<notin> chans" by blast
    let ?h1 = "h\<lparr>h_responseChannels := Some (insert ?x chans)\<rparr>"
    have "sendsOnly sent P ?h1 (snd (m ?x ?h1))"
      using assms by (simp add: keeps_def)
    with ch show ?thesis
      by (auto simp: createResponseChannel_def deleteResponseChannel_def go_defs Let_def sendsOnly_def
          split: option.splits prod.splits)
  qed
qed

lemma keeps_callPeer:
  "recordsSent env sent \<Longrightarrow> P msg \<Longrightarrow> keeps (sendsOnly sent P) (callPeerWithChaincodeMsg env msg c t)"
  unfolding callPeerWithChaincodeMsg_def by (intro keeps_exchange keeps_sendReceive)

lemma carries_mkMessage [simp]:
  "carries env t r (mkMessage t' b x c) \<longleftrightarrow> t = t' \<and> env_Marshal env r = Inr b"
  by (auto simp: carries_def mkMessage_def)

lemmas keeps_request_rules = keeps_exchange keeps_marshalOrPanic keeps_gbind keeps_gret keeps_callPeer
  keeps_sendReceive sendsOnly_rel

lemma keeps_requests:
  assumes "recordsSent env sent"
  shows "keeps (sendsOnly sent (carries env ChaincodeMessage_GET_STATE (GetState coll key)))
      (handleGetState env coll key c t)"
    "keeps (sendsOnly sent (carries env ChaincodeMessage_GET_PRIVATE_DATA_HASH (GetState coll key)))
      (handleGetPrivateDataHash env coll key c t)"
    "keeps (sendsOnly sent (carries env ChaincodeMessage_GET_STATE_METADATA (GetStateMetadata coll key)))
      (handleGetStateMetadata env coll key c t)"
    "keeps (sendsOnly sent (carries env ChaincodeMessage_PUT_STATE (PutState coll key v None)))
      (handlePutState env coll key v c t)"
    "keeps (sendsOnly sent (carries env ChaincodeMessage_PUT_STATE (PutState '''' key [] (Some d))))
      (handlePutDelta env key d c t)"
    "keeps (sendsOnly sent (carries env ChaincodeMessage_PUT_STATE_METADATA (PutStateMetadata coll key mk md)))
      (handlePutStateMetadataEntry env coll key mk md c t)"
    "keeps (sendsOnly sent (carries env ChaincodeMessage_DEL_STATE (DelState coll key)))
      (handleDelState env coll key c t)"
    "keeps (sendsOnly sent (carries env ChaincodeMessage_PURGE_PRIVATE_DATA (DelState coll key)))
      (handlePurgeState env coll key c t)"
    "keeps (sendsOnly sent (carries env ChaincodeMessage_GET_STATE_BY_RANGE (GetStateByRange coll sk ek md)))
      (handleGetStateByRange env coll sk ek md c t)"
    "keeps (sendsOnly sent (carries env ChaincodeMessage_QUERY_STATE_NEXT (QueryStateNext i)))
      (handleQueryStateNext env i c t)"
    "keeps (sendsOnly sent (carries env ChaincodeMessage_QUERY_STATE_CLOSE (QueryStateClose i)))
      (handleQueryStateClose env i c t)"
    "keeps (sendsOnly sent (carries env ChaincodeMessage_GET_QUERY_RESULT (GetQueryResult coll q md)))
      (handleGetQueryResult env coll q md c t)"
    "keeps (sendsOnly sent (carries env ChaincodeMessage_GET_HISTORY_FOR_KEY (GetHistoryForKeyReq key)))
      (handleGetHistoryForKey env key c t)"
  unfolding handleGetState_def handleGetPrivateDataHash_def handleGetStateMetadata_def handlePutState_def
    handlePutDelta_def handlePutStateMetadataEntry_def handleDelState_def handlePurgeState_def
    handleGetStateByRange_def handleQueryStateNext_def handleQueryStateClose_def
    handleGetQueryResult_def handleGetHistoryForKey_def
  by ((intro keeps_request_rules assms; simp)+)

text \<open>The one request that turns a refused channel into a value has the same shape.\<close>

lemma handleInvokeChaincode_exchange:
  "gbind (createResponseChannel c t) (\<lambda>r. case r of Inl err \<Rightarrow> gret (f err) | Inr rc \<Rightarrow> gdefer (deleteResponseChannel c t) (m rc)) =
   gbind (gtry (createResponseChannel c t) (\<lambda>rc. gdefer (deleteResponseChannel c t) (gbind (m rc) (\<lambda>x. gret (Inr x)))))
     (\<lambda>r. case r of Inl err \<Rightarrow> gret (f err) | Inr x \<Rightarrow> gret x)"
  by (rule ext)
     (auto simp: createResponseChannel_def go_defs Let_def split: option.splits sum.splits prod.splits go.splits)

lemma keeps_handleInvokeChaincode:
  assumes "recordsSent env sent"
  shows "keeps (sendsOnly sent (carries env ChaincodeMessage_INVOKE_CHAINCODE (ChaincodeSpec n args)))
    (handleInvokeChaincode env n args c t)"
proof -
  have c: "keeps (sendsOnly sent P) (case r of Inl err \<Rightarrow> gret (f err) | Inr x \<Rightarrow> gret x)" for r f P
    by (cases r) (auto intro: keeps_gret)
  show ?thesis
    unfolding handleInvokeChaincode_def handleInvokeChaincode_exchange
    by (intro keeps_request_rules assms c; simp)
qed

lemma callPeer_result:
  "callPeerWithChaincodeMsg env msg c t h =
     (case h_responseChannels h of
        None \<Rightarrow> (Return (Inl (''['' @ shorttxid t @ ''] cannot create response channel'')), h)
      | Some chans \<Rightarrow>
          if c @ t \<in> chans then (Return (Inl (''['' @ shorttxid (c @ t) @ ''] channel exists'')), h)
          else (case env_Send env msg (h_chatStream h) of
                  (Some e, w) \<Rightarrow> (Return (Inl e), h\<lparr>h_chatStream := w\<rparr>)
                | (None, w) \<Rightarrow>
                    (case env_Await env (c @ t) w of (m, w') \<Rightarrow> (Return (Inr m), h\<lparr>h_chatStream := w'\<rparr>))))"
proof (cases "h_responseChannels h")
  case None
  then show ?thesis
    by (simp add: callPeerWithChaincodeMsg_def createResponseChannel_def go_defs)
next
  case (Some chans)
  then show ?thesis
    by (cases h)
       (auto simp: callPeerWithChaincodeMsg_def createResponseChannel_def deleteResponseChannel_def
         sendReceive_def serialSend_def transactionContextID_def go_defs Let_def
         split: option.splits prod.splits)
qed

section \<open>Properties of the exchange with the peer\<close>

text \<open>
  C24 (one request, one channel). \<open>callPeerWithChaincodeMsg\<close> refuses a second request of the same
  context while one is outstanding, without sending anything; otherwise it sends the message once,
  returns the send error or the message delivered for its context, and leaves the handler's state
  and open channels exactly as they were.
\<close>

theorem callPeer_exchange:
  "callPeerWithChaincodeMsg env msg c t h =
     (case h_responseChannels h of
        None \<Rightarrow> (Return (Inl (''['' @ shorttxid t @ ''] cannot create response channel'')), h)
      | Some chans \<Rightarrow>
          if transactionContextID c t \<in> chans
          then (Return (Inl (''['' @ shorttxid (transactionContextID c t) @ ''] channel exists'')), h)
          else (case env_Send env msg (h_chatStream h) of
                  (Some e, w) \<Rightarrow> (Return (Inl e), h\<lparr>h_chatStream := w\<rparr>)
                | (None, w) \<Rightarrow>
                    (case env_Await env (transactionContextID c t) w of
                       (m, w') \<Rightarrow> (Return (Inr m), h\<lparr>h_chatStream := w'\<rparr>))))"
  unfolding transactionContextID_def by (rule callPeer_result)

text \<open>
  Context identifiers: Two requests share a context exactly when their channel and
  transaction names concatenate to the same string: for transaction names of equal length that
  means equal channels and equal transactions, but in general the boundary between the two is lost.
\<close>

theorem context_ids:
  "(length t = length t' \<longrightarrow>
      (transactionContextID c t = transactionContextID c' t' \<longleftrightarrow> c = c' \<and> t = t')) \<and>
   (\<exists>c c' t t'. c \<noteq> c' \<and> transactionContextID c t = transactionContextID c' t')"
proof -
  have "transactionContextID ''ch'' ''1a'' = transactionContextID ''ch1'' ''a''"
    by (simp add: transactionContextID_def)
  moreover have "''ch'' \<noteq> ''ch1''" by simp
  ultimately show ?thesis by (fastforce simp: transactionContextID_def)
qed

theorem context_ids_witness:
  "transactionContextID ''ch'' ''aa'' \<noteq> transactionContextID ''ch'' ''bb''"
  using context_ids [of "''aa''" "''bb''" "''ch''" "''ch''"] by simp

end
