(* ===== verification/Protos.thy ===== *)
theory Protos
  imports Rwset
begin

text \<open>
  The envelope and query-result types and the parsing functions of \<open>protoutil\<close> and \<open>rwsetutil\<close>
  as the history fold, the shim, the ledger and the analyzer use them. The parsers are code outside \<open>src/\<close>: a record of functions the
  definitions take as an argument. A pointer field the code tests for nil is an option.
\<close>

record ChannelHeader =
  ch_Type :: int32
  ch_TxId :: string
  ch_Timestamp :: int
  ch_Epoch :: uint64

record Header =
  h_ChannelHeader :: bytes
  h_SignatureHeader :: bytes

record Payload =
  pl_Header :: "Header option"
  pl_Data :: bytes

record Envelope =
  env_Payload :: bytes

text \<open>A block with its header and data present; its metadata may be missing.\<close>

record Block =
  blk_Number :: uint64
  blk_Data :: "bytes list"
  blk_Metadata :: "bytes list option"

text \<open>\<open>peer.TransactionAction\<close> is only passed on to \<open>GetPayloads\<close>: its encoded payload.\<close>

record Transaction =
  tx_Actions :: "bytes list"

text \<open>The two kinds of query results of the \<open>queryresult\<close> package.\<close>

record KV =
  kv_Namespace :: string
  kv_Key :: string
  kv_Value :: bytes

record KeyModification =
  km_TxId :: string
  km_Value :: bytes
  km_Timestamp :: int
  km_IsDelete :: bool

record protoutil =
  UnmarshalEnvelope :: "bytes \<Rightarrow> string + Envelope"
  UnmarshalPayload :: "bytes \<Rightarrow> string + Payload"
  UnmarshalTransaction :: "bytes \<Rightarrow> string + Transaction"
  GetPayloads :: "bytes \<Rightarrow> string + bytes"
  UnmarshalChannelHeader :: "bytes \<Rightarrow> string + ChannelHeader"
  GetActionResults :: "Envelope \<Rightarrow> string + bytes"

end
