(* ===== verification/Stub_Contract.thy ===== *)
theory Stub_Contract
  imports Rwset
begin

text \<open>
  The contract of a chaincode-side stub that offers typed deltas: no delta after a read, and no
  plain write and delta on the same key in one transaction. It is stated over an abstract step
  function, proved for every sequence of calls, and interpreted on the endorsement-time stub
  (\<open>endorse.go\<close>) and on the shim's \<open>ChaincodeStub\<close> (\<open>stub.go\<close>).
\<close>

datatype ('r, 'p, 'd) stub_call = CallRead 'r | CallPlain 'p | CallDelta 'd

text \<open>Running a sequence of calls records for each one whether it was accepted.\<close>

fun runCalls :: "('s \<Rightarrow> 'c \<Rightarrow> bool \<times> 's) \<Rightarrow> 's \<Rightarrow> 'c list \<Rightarrow> ('c \<times> bool) list \<times> 's" where
  "runCalls step s [] = ([], s)"
| "runCalls step s (c # cs) =
     (case step s c of
        (ok, s') \<Rightarrow> (case runCalls step s' cs of (log, s'') \<Rightarrow> ((c, ok) # log, s'')))"

locale delta_stub =
  fixes step :: "'s \<Rightarrow> ('r, 'p, 'd) stub_call \<Rightarrow> bool \<times> 's"
    and didRead :: "'s \<Rightarrow> bool"
    and plain :: "'s \<Rightarrow> string set"
    and delta :: "'s \<Rightarrow> string set"
    and pkey :: "'p \<Rightarrow> string"
    and dkey :: "'d \<Rightarrow> string"
  assumes read_step: "step s (CallRead r) = (ok, s') \<Longrightarrow>
      didRead s' \<and> plain s' = plain s \<and> delta s' = delta s"
    and plain_step: "step s (CallPlain p) = (ok, s') \<Longrightarrow>
      didRead s' = didRead s \<and> delta s' = delta s \<and>
      (plain s' = plain s \<or> pkey p \<notin> delta s \<and> plain s' = insert (pkey p) (plain s))"
    and plain_accept: "step s (CallPlain p) = (True, s') \<Longrightarrow> pkey p \<in> plain s'"
    and delta_step: "step s (CallDelta d) = (ok, s') \<Longrightarrow>
      didRead s' = didRead s \<and> plain s' = plain s \<and>
      (delta s' = delta s \<or> dkey d \<notin> plain s \<and> delta s' = insert (dkey d) (delta s))"
    and delta_accept: "step s (CallDelta d) = (True, s') \<Longrightarrow> \<not> didRead s \<and> dkey d \<in> delta s'"
begin

lemma step_disjoint: "step s c = (ok, s') \<Longrightarrow> plain s \<inter> delta s = {} \<Longrightarrow> plain s' \<inter> delta s' = {}"
proof (cases c)
  case (CallPlain p)
  then show "step s c = (ok, s') \<Longrightarrow> plain s \<inter> delta s = {} \<Longrightarrow> plain s' \<inter> delta s' = {}"
    using plain_step [of s p ok s'] by auto
next
  case (CallDelta d)
  then show "step s c = (ok, s') \<Longrightarrow> plain s \<inter> delta s = {} \<Longrightarrow> plain s' \<inter> delta s' = {}"
    using delta_step [of s d ok s'] by auto
qed (auto dest: read_step)

lemma step_mono:
  "step s c = (ok, s') \<Longrightarrow> plain s \<subseteq> plain s' \<and> delta s \<subseteq> delta s' \<and> (didRead s \<longrightarrow> didRead s')"
  by (cases c) (auto dest: read_step plain_step delta_step)

lemma run_disjoint:
  "runCalls step s cs = (log, s') \<Longrightarrow> plain s \<inter> delta s = {} \<Longrightarrow> plain s' \<inter> delta s' = {}"
proof (induction cs arbitrary: s log)
  case (Cons c cs)
  then obtain ok t log' where "step s c = (ok, t)" "runCalls step t cs = (log', s')"
    by (auto split: prod.splits)
  with Cons.IH [of t log'] Cons.prems(2) step_disjoint show ?case by blast
qed simp

lemma run_mono:
  "runCalls step s cs = (log, s') \<Longrightarrow> plain s \<subseteq> plain s' \<and> delta s \<subseteq> delta s' \<and> (didRead s \<longrightarrow> didRead s')"
proof (induction cs arbitrary: s log)
  case (Cons c cs)
  then obtain ok t log' where "step s c = (ok, t)" "runCalls step t cs = (log', s')"
    by (auto split: prod.splits)
  with Cons.IH [of t] step_mono [of s c ok t] show ?case by fastforce
qed simp

lemma run_accepted_keys:
  "runCalls step s cs = (log, s') \<Longrightarrow>
     ((CallPlain p, True) \<in> set log \<longrightarrow> pkey p \<in> plain s') \<and>
     ((CallDelta d, True) \<in> set log \<longrightarrow> dkey d \<in> delta s')"
proof (induction cs arbitrary: s log)
  case (Cons c cs)
  then obtain ok t log' where *: "step s c = (ok, t)" "runCalls step t cs = (log', s')"
    "log = (c, ok) # log'"
    by (auto split: prod.splits)
  have "(CallPlain p, True) = (c, ok) \<Longrightarrow> pkey p \<in> plain t"
    "(CallDelta d, True) = (c, ok) \<Longrightarrow> dkey d \<in> delta t"
    using *(1) plain_accept delta_accept by auto
  with Cons.IH [OF *(2)] run_mono [OF *(2)] show ?case
    unfolding *(3) by (simp only: list.set insert_iff) blast
qed simp

lemma run_after_read: "runCalls step s cs = (log, s') \<Longrightarrow> didRead s \<Longrightarrow> (CallDelta d, True) \<notin> set log"
proof (induction cs arbitrary: s log)
  case (Cons c cs)
  then obtain ok t log' where *: "step s c = (ok, t)" "runCalls step t cs = (log', s')"
    "log = (c, ok) # log'"
    by (auto split: prod.splits)
  have "(CallDelta d, True) \<noteq> (c, ok)" "didRead t"
    using *(1) Cons.prems(2) delta_accept step_mono by auto
  with Cons.IH [OF *(2)] show ?case by (simp add: *(3))
qed simp

lemma runCalls_append:
  "runCalls step s cs = (l1 @ l2, s') \<Longrightarrow>
     \<exists>cs1 cs2 t. runCalls step s cs1 = (l1, t) \<and> runCalls step t cs2 = (l2, s')"
proof (induction l1 arbitrary: s cs)
  case Nil
  then show ?case by (metis append_Nil runCalls.simps(1))
next
  case (Cons e l1)
  then obtain c cs' ok t where *: "cs = c # cs'" "step s c = (ok, t)" "e = (c, ok)"
    "runCalls step t cs' = (l1 @ l2, s')"
    by (cases cs) (auto split: prod.splits)
  from Cons.IH [OF this(4)] obtain cs1 cs2 u where
    "runCalls step t cs1 = (l1, u)" "runCalls step u cs2 = (l2, s')" by blast
  with * show ?case by (intro exI [of _ "c # cs1"] exI [of _ cs2] exI [of _ u]) simp
qed

theorem no_delta_after_read:
  assumes run: "runCalls step s cs = (l1 @ (CallRead r, ok) # l2, s')"
  shows "(CallDelta d, True) \<notin> set l2"
proof -
  obtain cs2 t where "runCalls step t cs2 = ((CallRead r, ok) # l2, s')"
    using runCalls_append [OF run] by blast
  then obtain u cs3 where "step t (CallRead r) = (ok, u)" "runCalls step u cs3 = (l2, s')"
    by (cases cs2) (auto split: prod.splits)
  then show ?thesis using read_step run_after_read by blast
qed

theorem no_key_conflict:
  assumes "runCalls step s cs = (log, s')" "plain s \<inter> delta s = {}"
    and "(CallPlain p, True) \<in> set log" "(CallDelta d, True) \<in> set log"
  shows "pkey p \<noteq> dkey d"
proof
  assume "pkey p = dkey d"
  then have "pkey p \<in> plain s' \<inter> delta s'"
    using run_accepted_keys [OF assms(1), of p d] assms(3,4) by simp
  then show False using run_disjoint [OF assms(1,2)] by simp
qed

end

end
