(* ===== verification/Go_Utf8.thy ===== *)
theory Go_Utf8
  imports Go_Std
begin

text \<open>
  The part of \<open>unicode/utf8\<close> and of the language that the composite keys rest on: decoding the
  next rune of a string (\<open>range\<close> over a string), \<open>utf8.ValidString\<close> and the conversion
  \<open>string(rune)\<close>. Bytes are the codes of the characters of the string.
\<close>

definition RuneError :: nat where
  "RuneError = 0xFFFD"

definition cont :: "nat \<Rightarrow> bool" where
  "cont b \<longleftrightarrow> 0x80 \<le> b \<and> b \<le> 0xBF"

text \<open>
  The rune at the head of a non-empty byte sequence and its width, \<open>None\<close> where Go decodes
  \<open>RuneError\<close> with width 1.
\<close>

definition decodeRune :: "nat list \<Rightarrow> (nat \<times> nat) option" where
  "decodeRune bs =
     (case bs of
        [] \<Rightarrow> None
      | b0 # r \<Rightarrow>
          if b0 < 0x80 then Some (b0, 1)
          else if 0xC2 \<le> b0 \<and> b0 \<le> 0xDF then
            (case r of
               b1 # _ \<Rightarrow> if cont b1 then Some ((b0 - 0xC0) * 64 + (b1 - 0x80), 2) else None
             | [] \<Rightarrow> None)
          else if 0xE0 \<le> b0 \<and> b0 \<le> 0xEF then
            (case r of
               b1 # b2 # _ \<Rightarrow>
                 if cont b1 \<and> cont b2 \<and> (b0 = 0xE0 \<longrightarrow> 0xA0 \<le> b1) \<and> (b0 = 0xED \<longrightarrow> b1 \<le> 0x9F)
                 then Some ((b0 - 0xE0) * 4096 + (b1 - 0x80) * 64 + (b2 - 0x80), 3) else None
             | _ \<Rightarrow> None)
          else if 0xF0 \<le> b0 \<and> b0 \<le> 0xF4 then
            (case r of
               b1 # b2 # b3 # _ \<Rightarrow>
                 if cont b1 \<and> cont b2 \<and> cont b3 \<and> (b0 = 0xF0 \<longrightarrow> 0x90 \<le> b1) \<and> (b0 = 0xF4 \<longrightarrow> b1 \<le> 0x8F)
                 then Some ((b0 - 0xF0) * 262144 + (b1 - 0x80) * 4096 + (b2 - 0x80) * 64 + (b3 - 0x80), 4)
                 else None
             | _ \<Rightarrow> None)
          else None)"

lemma decodeRune_width: "decodeRune bs = Some (r, n) \<Longrightarrow> 1 \<le> n \<and> n \<le> length bs"
  by (auto simp: decodeRune_def split: list.splits if_splits)

text \<open>No byte of a multi-byte rune is an ASCII code.\<close>

lemma decodeRune_ascii:
  "decodeRune bs = Some (r, n) \<Longrightarrow> b \<in> set (take n bs) \<Longrightarrow> b < 0x80 \<Longrightarrow> r = b"
  by (auto simp: decodeRune_def cont_def take_Cons' split: list.splits if_splits)

text \<open>The (index, rune) pairs of \<open>for index, r := range s\<close>.\<close>

function runesFrom :: "nat \<Rightarrow> nat list \<Rightarrow> (nat \<times> nat) list" where
  "runesFrom i bs =
     (if bs = [] then []
      else (case decodeRune bs of
              Some (r, n) \<Rightarrow> (i, r) # runesFrom (i + n) (drop n bs)
            | None \<Rightarrow> (i, RuneError) # runesFrom (i + 1) (tl bs)))"
  by pat_completeness auto
termination
  by (relation "measure (\<lambda>(i, bs). length bs)") (auto dest: decodeRune_width)

function validUtf8 :: "nat list \<Rightarrow> bool" where
  "validUtf8 bs =
     (if bs = [] then True
      else (case decodeRune bs of Some (r, n) \<Rightarrow> validUtf8 (drop n bs) | None \<Rightarrow> False))"
  by pat_completeness auto
termination
  by (relation "measure length") (auto dest: decodeRune_width)

declare runesFrom.simps [simp del] validUtf8.simps [simp del]

definition codes :: "string \<Rightarrow> nat list" where
  "codes s = map of_char s"

definition ValidString :: "string \<Rightarrow> bool" where
  "ValidString s = validUtf8 (codes s)"

definition range_runes :: "string \<Rightarrow> (nat \<times> nat) list" where
  "range_runes s = runesFrom 0 (codes s)"

text \<open>\<open>string(r)\<close> for a rune: its UTF-8 encoding, that of \<open>RuneError\<close> outside the code points.\<close>

definition encodeRune :: "nat \<Rightarrow> nat list" where
  "encodeRune r =
     (let r' = (if r > 0x10FFFF \<or> (0xD800 \<le> r \<and> r \<le> 0xDFFF) then RuneError else r)
      in if r' < 0x80 then [r']
         else if r' < 0x800 then [0xC0 + r' div 64, 0x80 + r' mod 64]
         else if r' < 0x10000 then [0xE0 + r' div 4096, 0x80 + r' div 64 mod 64, 0x80 + r' mod 64]
         else [0xF0 + r' div 262144, 0x80 + r' div 4096 mod 64, 0x80 + r' div 64 mod 64, 0x80 + r' mod 64])"

definition string_of_rune :: "nat \<Rightarrow> string" where
  "string_of_rune r = map char_of (encodeRune r)"

text \<open>In a valid string every ASCII byte is a rune of its own.\<close>

lemma valid_ascii_rune:
  "validUtf8 bs \<Longrightarrow> b \<in> set bs \<Longrightarrow> b < 0x80 \<Longrightarrow> \<exists>j. (j, b) \<in> set (runesFrom i bs)"
proof (induction bs arbitrary: i rule: validUtf8.induct)
  case (1 bs)
  show ?case
  proof (cases "bs = []")
    case True
    with "1.prems" show ?thesis by simp
  next
    case False
    with "1.prems" obtain r n where d: "decodeRune bs = Some (r, n)" "validUtf8 (drop n bs)"
      by (auto simp: validUtf8.simps [of bs] split: option.splits)
    have runes: "runesFrom i bs = (i, r) # runesFrom (i + n) (drop n bs)"
      using False d by (simp add: runesFrom.simps [of i bs])
    from "1.prems"(2) consider "b \<in> set (take n bs)" | "b \<in> set (drop n bs)"
      by (metis Un_iff append_take_drop_id set_append)
    then show ?thesis
    proof cases
      case 1
      then show ?thesis using decodeRune_ascii [OF d(1)] "1.prems"(3) runes by force
    next
      case 2
      then show ?thesis using "1.IH" [OF False d(1)] d(2) "1.prems"(3) runes by (metis list.set_intros(2))
    qed
  qed
qed

lemma ValidString_ascii:
  assumes "ValidString s" "c \<in> set s" "of_char c < (0x80 :: nat)"
  shows "\<exists>j. (j, of_char c) \<in> set (range_runes s)"
  using valid_ascii_rune [of "codes s" "of_char c" 0] assms
  by (simp add: ValidString_def range_runes_def codes_def)

end
