(* ===== verification/Go_Sha256.thy ===== *)
theory Go_Sha256
  imports Go_Std
begin

text \<open>
  \<open>crypto/sha256\<close>: the digest \<open>Sum256\<close> of a byte sequence, and \<open>binary.LittleEndian.PutUint64\<close>,
  as the proposal binding uses them.
\<close>

type_synonym w32 = "32 word"

text \<open>Round constants and initial value, eight 32-bit words to a number, most significant first.\<close>

definition words8 :: "int \<Rightarrow> w32 list" where
  "words8 n = map (\<lambda>i. word_of_int (n div 2 ^ (32 * i))) [7, 6, 5, 4, 3, 2, 1, 0]"

definition sha_K :: "w32 list" where
  "sha_K = concat (map words8
    [0x428a2f9871374491b5c0fbcfe9b5dba53956c25b59f111f1923f82a4ab1c5ed5,
     0xd807aa9812835b01243185be550c7dc372be5d7480deb1fe9bdc06a7c19bf174,
     0xe49b69c1efbe47860fc19dc6240ca1cc2de92c6f4a7484aa5cb0a9dc76f988da,
     0x983e5152a831c66db00327c8bf597fc7c6e00bf3d5a7914706ca635114292967,
     0x27b70a852e1b21384d2c6dfc53380d13650a7354766a0abb81c2c92e92722c85,
     0xa2bfe8a1a81a664bc24b8b70c76c51a3d192e819d6990624f40e3585106aa070,
     0x19a4c1161e376c082748774c34b0bcb5391c0cb34ed8aa4a5b9cca4f682e6ff3,
     0x748f82ee78a5636f84c878148cc7020890befffaa4506cebbef9a3f7c67178f2])"

definition sha_H0 :: "w32 list" where
  "sha_H0 = words8 0x6a09e667bb67ae853c6ef372a54ff53a510e527f9b05688c1f83d9ab5be0cd19"

definition rotr :: "nat \<Rightarrow> w32 \<Rightarrow> w32" where
  "rotr n x = drop_bit n x OR push_bit (32 - n) x"

definition be32 :: "bytes \<Rightarrow> w32" where
  "be32 bs = foldl (\<lambda>acc b. push_bit 8 acc OR ucast b) 0 bs"

definition putbe32 :: "w32 \<Rightarrow> bytes" where
  "putbe32 x = map (\<lambda>n. ucast (drop_bit n x)) [24, 16, 8, 0]"

text \<open>The message schedule: 16 words of the block, then 48 computed ones, newest last.\<close>

fun sha_schedule :: "nat \<Rightarrow> w32 list \<Rightarrow> w32 list" where
  "sha_schedule 0 w = w"
| "sha_schedule (Suc n) w =
     (let t = length w; v1 = w ! (t - 2); v2 = w ! (t - 15);
          s1 = rotr 17 v1 XOR rotr 19 v1 XOR drop_bit 10 v1;
          s0 = rotr 7 v2 XOR rotr 18 v2 XOR drop_bit 3 v2
      in sha_schedule n (w @ [s1 + w ! (t - 7) + s0 + w ! (t - 16)]))"

type_synonym sha_state = "w32 \<times> w32 \<times> w32 \<times> w32 \<times> w32 \<times> w32 \<times> w32 \<times> w32"

fun sha_round :: "sha_state \<Rightarrow> w32 \<times> w32 \<Rightarrow> sha_state" where
  "sha_round (a, b, c, d, e, f, g, h) (k, w) =
     (let t1 = h + (rotr 6 e XOR rotr 11 e XOR rotr 25 e) + ((e AND f) XOR (NOT e AND g)) + k + w;
          t2 = (rotr 2 a XOR rotr 13 a XOR rotr 22 a) + ((a AND b) XOR (a AND c) XOR (b AND c))
      in (t1 + t2, a, b, c, d + t1, e, f, g))"

definition sha_block :: "w32 list \<Rightarrow> bytes \<Rightarrow> w32 list" where
  "sha_block hs blk =
     (let w = sha_schedule 48 (map (\<lambda>i. be32 (take 4 (drop (4 * i) blk))) [0..<16])
      in case foldl sha_round (hs ! 0, hs ! 1, hs ! 2, hs ! 3, hs ! 4, hs ! 5, hs ! 6, hs ! 7) (zip sha_K w) of
           (a, b, c, d, e, f, g, h) \<Rightarrow> map2 (+) hs [a, b, c, d, e, f, g, h])"

function sha_blocks :: "w32 list \<Rightarrow> bytes \<Rightarrow> w32 list" where
  "sha_blocks hs bs = (if length bs < 64 then hs else sha_blocks (sha_block hs (take 64 bs)) (drop 64 bs))"
  by pat_completeness auto
termination by (relation "measure (\<lambda>(hs, bs). length bs)") auto

declare sha_blocks.simps [simp del]

text \<open>Padding: a set bit, zeros up to 56 modulo 64, and the length in bits.\<close>

definition sha_pad :: "bytes \<Rightarrow> bytes" where
  "sha_pad bs =
     bs @ [0x80] @ replicate ((119 - length bs mod 64) mod 64) 0 @ PutUint64 (of_nat (8 * length bs))"

definition Sum256 :: "bytes \<Rightarrow> bytes" where
  "Sum256 bs = concat (map putbe32 (sha_blocks sha_H0 (sha_pad bs)))"

definition LittleEndian_PutUint64 :: "uint64 \<Rightarrow> bytes" where
  "LittleEndian_PutUint64 v = rev (PutUint64 v)"

lemma length_sha_block: "length hs = 8 \<Longrightarrow> length (sha_block hs blk) = 8"
  by (auto simp: sha_block_def Let_def split: prod.splits)

lemma length_sha_blocks: "length hs = 8 \<Longrightarrow> length (sha_blocks hs bs) = 8"
proof (induction hs bs rule: sha_blocks.induct)
  case (1 hs bs)
  then show ?case by (simp add: sha_blocks.simps [of hs bs] length_sha_block)
qed

lemma length_concat_putbe32: "length (concat (map putbe32 hs)) = 4 * length hs"
  by (induction hs) (simp_all add: putbe32_def)

lemma length_Sum256 [simp]: "length (Sum256 bs) = 32"
  by (simp add: Sum256_def length_concat_putbe32 length_sha_blocks sha_H0_def words8_def)

end
