(* ===== verification/Shim_Stub.thy ===== *)
theory Shim_Stub
  imports Shim_Handler Protos Stub_Contract Go_Utf8 Go_Sha256
begin

text \<open>
  \<open>shim/stub.go\<close>: the stub a chaincode calls. Its construction from a signed proposal, the
  state and private-state operations with the typed-delta discipline, composite keys, range and
  rich queries with pagination, and the result iterators.

  The constants of the shim package that are not under \<open>src/\<close> and the protobuf codecs of the
  proposal are further fields of the environment. A stub owns the handler it calls through, so a
  method is a computation on the stub.
\<close>

section \<open>The stub\<close>

record Proposal =
  pr_Header :: bytes
  pr_Payload :: bytes

record SignatureHeader =
  sh_Creator :: bytes
  sh_Nonce :: bytes

record ChaincodeInput =
  in_Args :: "bytes list"
  in_Decorations :: "string \<rightharpoonup> bytes"

record QueryResponseMetadata =
  rm_FetchedRecordsCount :: int32
  rm_Bookmark :: string

record 'w stub_env = "'w shim_env" +
  se_Proposal :: "bytes \<Rightarrow> string + Proposal"
  se_Header :: "bytes \<Rightarrow> string + Header"
  se_ChannelHeader :: "bytes \<Rightarrow> string + ChannelHeader"
  se_SignatureHeader :: "bytes \<Rightarrow> string + SignatureHeader"
  se_TransientMap :: "bytes \<Rightarrow> string + (string \<rightharpoonup> bytes)"
  se_QueryMetadata :: "int32 \<Rightarrow> string \<Rightarrow> string + bytes"
  se_QueryResponseMetadata :: "bytes \<Rightarrow> string + QueryResponseMetadata"
  se_KV :: "bytes \<Rightarrow> string + KV"
  se_KeyModification :: "bytes \<Rightarrow> string + KeyModification"
  se_HeaderType_String :: "int32 \<Rightarrow> string"
  se_ENDORSER_TRANSACTION :: int32
  se_CONFIG :: int32
  se_compositeKeyNamespace :: string
  se_emptyKeySubstitute :: string
  se_minUnicodeRuneValue :: nat
  se_maxUnicodeRuneValue :: nat

text \<open>
  The Go maps of plain and delta keys are created on first use and only ever store \<open>true\<close>; reading
  a nil map gives \<open>false\<close>, so both are sets, empty at first.
\<close>

record 'w ChaincodeStub =
  cs_TxID :: string
  cs_ChannelID :: string
  cs_chaincodeEvent :: "ChaincodeEvent option"
  cs_args :: "bytes list"
  cs_handler :: "'w Handler"
  cs_signedProposal :: "SignedProposal option"
  cs_proposal :: "Proposal option"
  cs_validationParameterMetakey :: string
  cs_creator :: bytes
  cs_transient :: "string \<rightharpoonup> bytes"
  cs_binding :: bytes
  cs_decorations :: "string \<rightharpoonup> bytes"
  cs_didRead :: bool
  cs_plainKeys :: "string set"
  cs_deltaKeys :: "string set"

text \<open>A handler operation called through the stub, and the assignment \<open>s.didRead = true\<close>.\<close>

definition viaHandler :: "('w Handler, 'a) goM \<Rightarrow> ('w ChaincodeStub, 'a) goM" where
  "viaHandler m s = (case m (cs_handler s) of (r, h) \<Rightarrow> (r, s\<lparr>cs_handler := h\<rparr>))"

definition markRead :: "('w ChaincodeStub, 'a) goM \<Rightarrow> ('w ChaincodeStub, 'a) goM" where
  "markRead m s = m (s\<lparr>cs_didRead := True\<rparr>)"

text \<open>A method body that reads the stub's fields.\<close>

definition withStub :: "('w ChaincodeStub \<Rightarrow> ('w ChaincodeStub, 'a) goM) \<Rightarrow> ('w ChaincodeStub, 'a) goM" where
  "withStub f s = f s s"

section \<open>Construction\<close>

definition binding_digest :: "bytes \<Rightarrow> bytes \<Rightarrow> uint64 \<Rightarrow> bytes" where
  "binding_digest nonce creator epoch = Sum256 (nonce @ creator @ LittleEndian_PutUint64 epoch)"

definition newChaincodeStub ::
  "'w stub_env \<Rightarrow> 'w Handler \<Rightarrow> string \<Rightarrow> string \<Rightarrow> ChaincodeInput \<Rightarrow> SignedProposal option \<Rightarrow>
     string + 'w ChaincodeStub" where
  "newChaincodeStub env handler channelID txid input signedProposal =
     (let stub = \<lparr>cs_TxID = txid, cs_ChannelID = channelID, cs_chaincodeEvent = None,
                  cs_args = in_Args input, cs_handler = handler, cs_signedProposal = signedProposal,
                  cs_proposal = None, cs_validationParameterMetakey = ''VALIDATION_PARAMETER'',
                  cs_creator = [], cs_transient = Map.empty, cs_binding = [],
                  cs_decorations = in_Decorations input,
                  cs_didRead = False, cs_plainKeys = {}, cs_deltaKeys = {}\<rparr>
      in case signedProposal of
           None \<Rightarrow> Inr stub
         | Some sp \<Rightarrow>
     (case se_Proposal env (sp_ProposalBytes sp) of
        Inl err \<Rightarrow> Inl (''failed to extract Proposal from SignedProposal: '' @ err)
      | Inr proposal \<Rightarrow>
     if length (pr_Header proposal) = 0
     then Inl ''failed to extract Proposal fields: proposal header is nil''
     else
     (case se_Header env (pr_Header proposal) of
        Inl err \<Rightarrow> Inl (''failed to extract proposal header: '' @ err)
      | Inr hdr \<Rightarrow>
     (case se_ChannelHeader env (h_ChannelHeader hdr) of
        Inl err \<Rightarrow> Inl (''failed to extract channel header: '' @ err)
      | Inr chdr \<Rightarrow>
     if \<not> (ch_Type chdr = se_ENDORSER_TRANSACTION env \<or> ch_Type chdr = se_CONFIG env)
     then Inl (''invalid channel header type. Expected '' @ se_HeaderType_String env (se_ENDORSER_TRANSACTION env) @
               '' or '' @ se_HeaderType_String env (se_CONFIG env) @ '', received '' @
               se_HeaderType_String env (ch_Type chdr))
     else
     (case se_SignatureHeader env (h_SignatureHeader hdr) of
        Inl err \<Rightarrow> Inl (''failed to extract signature header: '' @ err)
      | Inr shdr \<Rightarrow>
     (case se_TransientMap env (pr_Payload proposal) of
        Inl err \<Rightarrow> Inl (''failed to extract proposal payload: '' @ err)
      | Inr transient \<Rightarrow>
          Inr (stub\<lparr>cs_proposal := Some proposal, cs_creator := sh_Creator shdr,
                    cs_transient := transient,
                    cs_binding := binding_digest (sh_Nonce shdr) (sh_Creator shdr) (ch_Epoch chdr)\<rparr>)))))))"

definition GetTxID :: "'w ChaincodeStub \<Rightarrow> string" where
  "GetTxID s = cs_TxID s"

definition GetChannelID :: "'w ChaincodeStub \<Rightarrow> string" where
  "GetChannelID s = cs_ChannelID s"

definition GetDecorations :: "'w ChaincodeStub \<Rightarrow> string \<rightharpoonup> bytes" where
  "GetDecorations s = cs_decorations s"

text \<open>\<open>os.Getenv\<close> is the argument.\<close>

definition GetMSPID :: "(string \<Rightarrow> string) \<Rightarrow> string + string" where
  "GetMSPID getenv =
     (let mspid = getenv ''CORE_PEER_LOCALMSPID''
      in if mspid = '''' then Inl (CHR 0x27 # ''CORE_PEER_LOCALMSPID'' @ CHR 0x27 # '' is not set'')
         else Inr mspid)"

section \<open>Public state\<close>

definition cs_InvokeChaincode ::
  "'w stub_env \<Rightarrow> string \<Rightarrow> bytes list \<Rightarrow> string \<Rightarrow> ('w ChaincodeStub, Response) goM" where
  "cs_InvokeChaincode env chaincodeName args channel =
     markRead (withStub (\<lambda>s.
       viaHandler (handleInvokeChaincode (shim_env.truncate env)
         (if channel \<noteq> '''' then chaincodeName @ ''/'' @ channel else chaincodeName)
         args (cs_ChannelID s) (cs_TxID s))))"

definition cs_GetState :: "'w stub_env \<Rightarrow> string \<Rightarrow> ('w ChaincodeStub, string + bytes) goM" where
  "cs_GetState env key =
     markRead (withStub (\<lambda>s.
       viaHandler (handleGetState (shim_env.truncate env) '''' key (cs_ChannelID s) (cs_TxID s))))"

definition cs_SetStateValidationParameter ::
  "'w stub_env \<Rightarrow> string \<Rightarrow> bytes \<Rightarrow> ('w ChaincodeStub, string + unit) goM" where
  "cs_SetStateValidationParameter env key ep =
     withStub (\<lambda>s. viaHandler (handlePutStateMetadataEntry (shim_env.truncate env) '''' key
       (cs_validationParameterMetakey s) ep (cs_ChannelID s) (cs_TxID s)))"

text \<open>A missing entry gives the nil slice, the empty list.\<close>

definition validationParameter :: "string \<Rightarrow> (string \<rightharpoonup> bytes) \<Rightarrow> bytes" where
  "validationParameter metakey md = (case md metakey of Some ep \<Rightarrow> ep | None \<Rightarrow> [])"

definition cs_GetStateValidationParameter ::
  "'w stub_env \<Rightarrow> string \<Rightarrow> ('w ChaincodeStub, string + bytes) goM" where
  "cs_GetStateValidationParameter env key =
     markRead (withStub (\<lambda>s.
       gtry (viaHandler (handleGetStateMetadata (shim_env.truncate env) '''' key (cs_ChannelID s) (cs_TxID s)))
         (\<lambda>md. gret (Inr (validationParameter (cs_validationParameterMetakey s) md)))))"

definition cs_PutState :: "'w stub_env \<Rightarrow> string \<Rightarrow> bytes \<Rightarrow> ('w ChaincodeStub, string + unit) goM" where
  "cs_PutState env key value =
     withStub (\<lambda>s.
       if key = '''' then gret (Inl ''key must not be an empty string'')
       else if key \<in> cs_deltaKeys s
       then gret (Inl ''a plain write and a typed delta on the same key in one transaction are not allowed'')
       else
         gbind (gmodify (\<lambda>s. s\<lparr>cs_plainKeys := insert key (cs_plainKeys s)\<rparr>)) (\<lambda>_.
           viaHandler (handlePutState (shim_env.truncate env) '''' key value (cs_ChannelID s) (cs_TxID s))))"

definition buildShimDelta ::
  "string \<Rightarrow> DeltaDescriptor_Op \<Rightarrow> bytes \<Rightarrow> bytes \<Rightarrow> string + DeltaDescriptor" where
  "buildShimDelta typeID op arg schemaVersion =
     (if op \<noteq> DeltaDescriptor_ADD \<and> op \<noteq> DeltaDescriptor_SUB then Inl ''unsupported delta op''
      else if length arg \<noteq> 8
      then Inl (''delta arg must be a canonical 8-byte int64, got '' @ natString (length arg) @ '' bytes'')
      else if Uint64 arg <s 0
      then Inl ''delta magnitude must be non-negative (direction is carried by the op)''
      else
        (let argCopy = [] @ arg;
             svCopy = (if length schemaVersion > 0 then [] @ schemaVersion else [])
         in Inr \<lparr>dd_TypeId = typeID, dd_SchemaVersion = svCopy, dd_Op = op, dd_Arg = argCopy\<rparr>))"

definition cs_PutDelta ::
  "'w stub_env \<Rightarrow> string \<Rightarrow> string \<Rightarrow> DeltaDescriptor_Op \<Rightarrow> bytes \<Rightarrow> bytes \<Rightarrow>
     ('w ChaincodeStub, string + unit) goM" where
  "cs_PutDelta env key typeID op arg schemaVersion =
     withStub (\<lambda>s.
       if key = '''' then gret (Inl ''key must not be an empty string'')
       else if cs_didRead s
       then gret (Inl ''PutDelta after a state read: the delta arg must derive from proposal inputs only'')
       else if key \<in> cs_plainKeys s
       then gret (Inl ''a plain write and a typed delta on the same key in one transaction are not allowed'')
       else
         (case buildShimDelta typeID op arg schemaVersion of
            Inl err \<Rightarrow> gret (Inl err)
          | Inr delta \<Rightarrow>
              gbind (gmodify (\<lambda>s. s\<lparr>cs_deltaKeys := insert key (cs_deltaKeys s)\<rparr>)) (\<lambda>_.
                viaHandler (handlePutDelta (shim_env.truncate env) key delta (cs_ChannelID s) (cs_TxID s)))))"

text \<open>The package function: the interface value holds a \<open>*ChaincodeStub\<close> or another type.\<close>

definition shim_PutDelta ::
  "'w stub_env \<Rightarrow> string \<Rightarrow> string \<Rightarrow> DeltaDescriptor_Op \<Rightarrow> bytes \<Rightarrow> bytes \<Rightarrow>
     ('w ChaincodeStub option, string + unit) goM" where
  "shim_PutDelta env key typeID op arg schemaVersion stub =
     (case stub of
        None \<Rightarrow> (Return (Inl ''PutDelta requires *ChaincodeStub; mock/interface path unsupported''), stub)
      | Some cs \<Rightarrow>
          (case cs_PutDelta env key typeID op arg schemaVersion cs of (r, cs') \<Rightarrow> (r, Some cs')))"

definition cs_DelState :: "'w stub_env \<Rightarrow> string \<Rightarrow> ('w ChaincodeStub, string + unit) goM" where
  "cs_DelState env key =
     withStub (\<lambda>s.
       if key \<in> cs_deltaKeys s
       then gret (Inl ''a plain write/delete and a typed delta on the same key in one transaction are not allowed'')
       else
         gbind (gmodify (\<lambda>s. s\<lparr>cs_plainKeys := insert key (cs_plainKeys s)\<rparr>)) (\<lambda>_.
           viaHandler (handleDelState (shim_env.truncate env) '''' key (cs_ChannelID s) (cs_TxID s))))"

section \<open>Private state\<close>

definition collectionEmpty :: string where
  "collectionEmpty = ''collection must not be an empty string''"

definition cs_GetPrivateData ::
  "'w stub_env \<Rightarrow> string \<Rightarrow> string \<Rightarrow> ('w ChaincodeStub, string + bytes) goM" where
  "cs_GetPrivateData env collection key =
     markRead (withStub (\<lambda>s.
       if collection = '''' then gret (Inl collectionEmpty)
       else viaHandler (handleGetState (shim_env.truncate env) collection key (cs_ChannelID s) (cs_TxID s))))"

definition cs_GetPrivateDataHash ::
  "'w stub_env \<Rightarrow> string \<Rightarrow> string \<Rightarrow> ('w ChaincodeStub, string + bytes) goM" where
  "cs_GetPrivateDataHash env collection key =
     markRead (withStub (\<lambda>s.
       if collection = '''' then gret (Inl collectionEmpty)
       else viaHandler (handleGetPrivateDataHash (shim_env.truncate env) collection key (cs_ChannelID s) (cs_TxID s))))"

definition cs_PutPrivateData ::
  "'w stub_env \<Rightarrow> string \<Rightarrow> string \<Rightarrow> bytes \<Rightarrow> ('w ChaincodeStub, string + unit) goM" where
  "cs_PutPrivateData env collection key value =
     withStub (\<lambda>s.
       if collection = '''' then gret (Inl collectionEmpty)
       else if key = '''' then gret (Inl ''key must not be an empty string'')
       else viaHandler (handlePutState (shim_env.truncate env) collection key value (cs_ChannelID s) (cs_TxID s)))"

definition cs_DelPrivateData ::
  "'w stub_env \<Rightarrow> string \<Rightarrow> string \<Rightarrow> ('w ChaincodeStub, string + unit) goM" where
  "cs_DelPrivateData env collection key =
     withStub (\<lambda>s.
       if collection = '''' then gret (Inl collectionEmpty)
       else viaHandler (handleDelState (shim_env.truncate env) collection key (cs_ChannelID s) (cs_TxID s)))"

definition cs_PurgePrivateData ::
  "'w stub_env \<Rightarrow> string \<Rightarrow> string \<Rightarrow> ('w ChaincodeStub, string + unit) goM" where
  "cs_PurgePrivateData env collection key =
     withStub (\<lambda>s.
       if collection = '''' then gret (Inl collectionEmpty)
       else viaHandler (handlePurgeState (shim_env.truncate env) collection key (cs_ChannelID s) (cs_TxID s)))"

definition cs_GetPrivateDataValidationParameter ::
  "'w stub_env \<Rightarrow> string \<Rightarrow> string \<Rightarrow> ('w ChaincodeStub, string + bytes) goM" where
  "cs_GetPrivateDataValidationParameter env collection key =
     markRead (withStub (\<lambda>s.
       gtry (viaHandler (handleGetStateMetadata (shim_env.truncate env) collection key (cs_ChannelID s) (cs_TxID s)))
         (\<lambda>md. gret (Inr (validationParameter (cs_validationParameterMetakey s) md)))))"

definition cs_SetPrivateDataValidationParameter ::
  "'w stub_env \<Rightarrow> string \<Rightarrow> string \<Rightarrow> bytes \<Rightarrow> ('w ChaincodeStub, string + unit) goM" where
  "cs_SetPrivateDataValidationParameter env collection key ep =
     withStub (\<lambda>s. viaHandler (handlePutStateMetadataEntry (shim_env.truncate env) collection key
       (cs_validationParameterMetakey s) ep (cs_ChannelID s) (cs_TxID s)))"

section \<open>Composite keys\<close>

fun hexDigits :: "nat \<Rightarrow> nat \<Rightarrow> string" where
  "hexDigits 0 n = ''''"
| "hexDigits (Suc w) n = hexDigits w (n div 16) @ [''0123456789abcdef'' ! (n mod 16)]"

text \<open>The verbs \<open>%x\<close> on a string and \<open>%#U\<close> on a rune that is not printable.\<close>

definition fmt_x :: "string \<Rightarrow> string" where
  "fmt_x s = concat (map (\<lambda>c. hexDigits 2 (of_char c)) s)"

definition fmt_U :: "nat \<Rightarrow> string" where
  "fmt_U r = ''U+'' @ map (\<lambda>c. if of_char c \<ge> (97 :: nat) then char_of (of_char c - (32 :: nat)) else c)
     (hexDigits (if r < 0x10000 then 4 else if r < 0x100000 then 5 else 6) r)"

fun attribute_loop :: "nat \<Rightarrow> nat \<Rightarrow> (nat \<times> nat) list \<Rightarrow> string option" where
  "attribute_loop lo hi [] = None"
| "attribute_loop lo hi ((index, runeValue) # r) =
     (if runeValue = lo \<or> runeValue = hi
      then Some (''input contains unicode '' @ fmt_U runeValue @ '' starting at position ['' @ natString index @
             '']. '' @ fmt_U lo @ '' and '' @ fmt_U hi @
             '' are not allowed in the input attribute of a composite key'')
      else attribute_loop lo hi r)"

definition validateCompositeKeyAttribute :: "'w stub_env \<Rightarrow> string \<Rightarrow> string option" where
  "validateCompositeKeyAttribute env str =
     (if \<not> ValidString str then Some (''not a valid utf8 string: ['' @ fmt_x str @ '']'')
      else attribute_loop (se_minUnicodeRuneValue env) (se_maxUnicodeRuneValue env) (range_runes str))"

fun composite_loop :: "'w stub_env \<Rightarrow> string \<Rightarrow> string list \<Rightarrow> string + string" where
  "composite_loop env ck [] = Inr ck"
| "composite_loop env ck (att # r) =
     (case validateCompositeKeyAttribute env att of
        Some err \<Rightarrow> Inl err
      | None \<Rightarrow> composite_loop env (ck @ att @ string_of_rune (se_minUnicodeRuneValue env)) r)"

definition CreateCompositeKey :: "'w stub_env \<Rightarrow> string \<Rightarrow> string list \<Rightarrow> string + string" where
  "CreateCompositeKey env objectType attributes =
     (case validateCompositeKeyAttribute env objectType of
        Some err \<Rightarrow> Inl err
      | None \<Rightarrow>
          composite_loop env
            (se_compositeKeyNamespace env @ objectType @ string_of_rune (se_minUnicodeRuneValue env)) attributes)"

text \<open>
  The loop of \<open>splitCompositeKey\<close> over the byte positions from \<open>i\<close>, with \<open>componentIndex\<close> and
  the components so far.
\<close>

function split_loop :: "nat \<Rightarrow> string \<Rightarrow> nat \<Rightarrow> nat \<Rightarrow> string list \<Rightarrow> string list" where
  "split_loop lo compositeKey i componentIndex components =
     (if i < length compositeKey then
        (if of_char (compositeKey ! i) = lo
         then split_loop lo compositeKey (i + 1) (i + 1)
                (components @ [take (i - componentIndex) (drop componentIndex compositeKey)])
         else split_loop lo compositeKey (i + 1) componentIndex components)
      else components)"
  by pat_completeness auto
termination by (relation "measure (\<lambda>(lo, s, i, ci, cs). length s - i)") auto

declare split_loop.simps [simp del]

text \<open>\<open>components[0]\<close> on an empty slice panics.\<close>

definition splitCompositeKey :: "'w stub_env \<Rightarrow> string \<Rightarrow> (string \<times> string list) go" where
  "splitCompositeKey env compositeKey =
     (case split_loop (se_minUnicodeRuneValue env) compositeKey 1 1 [] of
        [] \<Rightarrow> Panic ''index out of range''
      | c # cs \<Rightarrow> Return (c, cs))"

definition cs_CreateCompositeKey :: "'w stub_env \<Rightarrow> string \<Rightarrow> string list \<Rightarrow> 'w ChaincodeStub \<Rightarrow> string + string" where
  "cs_CreateCompositeKey env objectType attributes s = CreateCompositeKey env objectType attributes"

definition cs_SplitCompositeKey :: "'w stub_env \<Rightarrow> string \<Rightarrow> 'w ChaincodeStub \<Rightarrow> (string \<times> string list) go" where
  "cs_SplitCompositeKey env compositeKey s = splitCompositeKey env compositeKey"

text \<open>\<open>compositeKeyNamespace[0]\<close> is evaluated only after \<open>len(key) > 0\<close>.\<close>

fun validateSimpleKeys :: "'w stub_env \<Rightarrow> string list \<Rightarrow> string option" where
  "validateSimpleKeys env [] = None"
| "validateSimpleKeys env (key # r) =
     (if length key > 0 \<and> key ! 0 = se_compositeKeyNamespace env ! 0
      then Some (''first character of the key ['' @ key @ ''] contains a null character which is not allowed'')
      else validateSimpleKeys env r)"

definition createRangeKeysForPartialCompositeKey ::
  "'w stub_env \<Rightarrow> string \<Rightarrow> string list \<Rightarrow> string + string \<times> string" where
  "createRangeKeysForPartialCompositeKey env objectType attributes =
     (case CreateCompositeKey env objectType attributes of
        Inl err \<Rightarrow> Inl err
      | Inr partialCompositeKey \<Rightarrow>
          Inr (partialCompositeKey, partialCompositeKey @ string_of_rune (se_maxUnicodeRuneValue env)))"

section \<open>Queries\<close>

text \<open>The iterator shares the stub's handler; the rest of it is plain data.\<close>

record CommonIterator =
  it_channelID :: string
  it_txid :: string
  it_response :: QueryResponse
  it_currentLoc :: nat

definition createStateQueryIterator :: "QueryResponse \<Rightarrow> 'w ChaincodeStub \<Rightarrow> CommonIterator" where
  "createStateQueryIterator response s =
     \<lparr>it_channelID = cs_ChannelID s, it_txid = cs_TxID s, it_response = response, it_currentLoc = 0\<rparr>"

definition createQueryResponseMetadata :: "'w stub_env \<Rightarrow> bytes \<Rightarrow> string + QueryResponseMetadata" where
  "createQueryResponseMetadata env metadataBytes = se_QueryResponseMetadata env metadataBytes"

text \<open>The common tail of the two query helpers: an iterator on the response and its metadata.\<close>

definition iteratorFor ::
  "'w stub_env \<Rightarrow> 'w ChaincodeStub \<Rightarrow> QueryResponse \<Rightarrow> string + CommonIterator \<times> QueryResponseMetadata" where
  "iteratorFor env s response =
     (case createQueryResponseMetadata env (qr_Metadata response) of
        Inl err \<Rightarrow> Inl err
      | Inr responseMetadata \<Rightarrow> Inr (createStateQueryIterator response s, responseMetadata))"

definition cs_handleGetStateByRange ::
  "'w stub_env \<Rightarrow> string \<Rightarrow> string \<Rightarrow> string \<Rightarrow> bytes \<Rightarrow>
     ('w ChaincodeStub, string + CommonIterator \<times> QueryResponseMetadata) goM" where
  "cs_handleGetStateByRange env collection startKey endKey metadata =
     withStub (\<lambda>s.
       gtry (viaHandler (handleGetStateByRange (shim_env.truncate env) collection startKey endKey metadata
               (cs_ChannelID s) (cs_TxID s)))
         (\<lambda>response. gret (iteratorFor env s response)))"

definition cs_handleGetQueryResult ::
  "'w stub_env \<Rightarrow> string \<Rightarrow> string \<Rightarrow> bytes \<Rightarrow>
     ('w ChaincodeStub, string + CommonIterator \<times> QueryResponseMetadata) goM" where
  "cs_handleGetQueryResult env collection query metadata =
     withStub (\<lambda>s.
       gtry (viaHandler (handleGetQueryResult (shim_env.truncate env) collection query metadata
               (cs_ChannelID s) (cs_TxID s)))
         (\<lambda>response. gret (iteratorFor env s response)))"

text \<open>\<open>iterator, _, err := ...; return iterator, err\<close>\<close>

definition dropMetadata ::
  "('w ChaincodeStub, string + CommonIterator \<times> QueryResponseMetadata) goM \<Rightarrow>
     ('w ChaincodeStub, string + CommonIterator) goM" where
  "dropMetadata m = gtry m (\<lambda>(iterator, _). gret (Inr iterator))"

definition cs_GetQueryResult :: "'w stub_env \<Rightarrow> string \<Rightarrow> ('w ChaincodeStub, string + CommonIterator) goM" where
  "cs_GetQueryResult env query = markRead (dropMetadata (cs_handleGetQueryResult env '''' query []))"

definition substituteEmpty :: "'w stub_env \<Rightarrow> string \<Rightarrow> string" where
  "substituteEmpty env startKey = (if startKey = '''' then se_emptyKeySubstitute env else startKey)"

definition cs_GetStateByRange ::
  "'w stub_env \<Rightarrow> string \<Rightarrow> string \<Rightarrow> ('w ChaincodeStub, string + CommonIterator) goM" where
  "cs_GetStateByRange env startKey endKey =
     markRead (let startKey' = substituteEmpty env startKey
       in case validateSimpleKeys env [startKey', endKey] of
            Some err \<Rightarrow> gret (Inl err)
          | None \<Rightarrow> dropMetadata (cs_handleGetStateByRange env '''' startKey' endKey []))"

definition cs_GetPrivateDataByRange ::
  "'w stub_env \<Rightarrow> string \<Rightarrow> string \<Rightarrow> string \<Rightarrow> ('w ChaincodeStub, string + CommonIterator) goM" where
  "cs_GetPrivateDataByRange env collection startKey endKey =
     markRead (
       if collection = '''' then gret (Inl collectionEmpty)
       else
         (let startKey' = substituteEmpty env startKey
          in case validateSimpleKeys env [startKey', endKey] of
               Some err \<Rightarrow> gret (Inl err)
             | None \<Rightarrow> dropMetadata (cs_handleGetStateByRange env collection startKey' endKey [])))"

definition cs_GetPrivateDataByPartialCompositeKey ::
  "'w stub_env \<Rightarrow> string \<Rightarrow> string \<Rightarrow> string list \<Rightarrow> ('w ChaincodeStub, string + CommonIterator) goM" where
  "cs_GetPrivateDataByPartialCompositeKey env collection objectType attributes =
     markRead (
       if collection = '''' then gret (Inl collectionEmpty)
       else
         (case createRangeKeysForPartialCompositeKey env objectType attributes of
            Inl err \<Rightarrow> gret (Inl err)
          | Inr (startKey, endKey) \<Rightarrow> dropMetadata (cs_handleGetStateByRange env collection startKey endKey [])))"

definition cs_GetPrivateDataQueryResult ::
  "'w stub_env \<Rightarrow> string \<Rightarrow> string \<Rightarrow> ('w ChaincodeStub, string + CommonIterator) goM" where
  "cs_GetPrivateDataQueryResult env collection query =
     markRead (
       if collection = '''' then gret (Inl collectionEmpty)
       else dropMetadata (cs_handleGetQueryResult env collection query []))"

definition cs_GetHistoryForKey :: "'w stub_env \<Rightarrow> string \<Rightarrow> ('w ChaincodeStub, string + CommonIterator) goM" where
  "cs_GetHistoryForKey env key =
     markRead (withStub (\<lambda>s.
       gtry (viaHandler (handleGetHistoryForKey (shim_env.truncate env) key (cs_ChannelID s) (cs_TxID s)))
         (\<lambda>response. gret (Inr (createStateQueryIterator response s)))))"

definition cs_GetStateByPartialCompositeKey ::
  "'w stub_env \<Rightarrow> string \<Rightarrow> string list \<Rightarrow> ('w ChaincodeStub, string + CommonIterator) goM" where
  "cs_GetStateByPartialCompositeKey env objectType attributes =
     markRead (
       case createRangeKeysForPartialCompositeKey env objectType attributes of
         Inl err \<Rightarrow> gret (Inl err)
       | Inr (startKey, endKey) \<Rightarrow> dropMetadata (cs_handleGetStateByRange env '''' startKey endKey []))"

definition createQueryMetadata :: "'w stub_env \<Rightarrow> int32 \<Rightarrow> string \<Rightarrow> string + bytes" where
  "createQueryMetadata env pageSize bookmark = se_QueryMetadata env pageSize bookmark"

definition cs_GetStateByRangeWithPagination ::
  "'w stub_env \<Rightarrow> string \<Rightarrow> string \<Rightarrow> int32 \<Rightarrow> string \<Rightarrow>
     ('w ChaincodeStub, string + CommonIterator \<times> QueryResponseMetadata) goM" where
  "cs_GetStateByRangeWithPagination env startKey endKey pageSize bookmark =
     markRead (let startKey' = substituteEmpty env startKey
       in case validateSimpleKeys env [startKey', endKey] of
            Some err \<Rightarrow> gret (Inl err)
          | None \<Rightarrow>
              (case createQueryMetadata env pageSize bookmark of
                 Inl err \<Rightarrow> gret (Inl err)
               | Inr metadata \<Rightarrow> cs_handleGetStateByRange env '''' startKey' endKey metadata))"

definition cs_GetStateByPartialCompositeKeyWithPagination ::
  "'w stub_env \<Rightarrow> string \<Rightarrow> string list \<Rightarrow> int32 \<Rightarrow> string \<Rightarrow>
     ('w ChaincodeStub, string + CommonIterator \<times> QueryResponseMetadata) goM" where
  "cs_GetStateByPartialCompositeKeyWithPagination env objectType keys pageSize bookmark =
     markRead (
       case createQueryMetadata env pageSize bookmark of
         Inl err \<Rightarrow> gret (Inl err)
       | Inr metadata \<Rightarrow>
           (case createRangeKeysForPartialCompositeKey env objectType keys of
              Inl err \<Rightarrow> gret (Inl err)
            | Inr (startKey, endKey) \<Rightarrow> cs_handleGetStateByRange env '''' startKey endKey metadata))"

definition cs_GetQueryResultWithPagination ::
  "'w stub_env \<Rightarrow> string \<Rightarrow> int32 \<Rightarrow> string \<Rightarrow>
     ('w ChaincodeStub, string + CommonIterator \<times> QueryResponseMetadata) goM" where
  "cs_GetQueryResultWithPagination env query pageSize bookmark =
     markRead (
       case createQueryMetadata env pageSize bookmark of
         Inl err \<Rightarrow> gret (Inl err)
       | Inr metadata \<Rightarrow> cs_handleGetQueryResult env '''' query metadata)"

section \<open>Iterators\<close>

text \<open>A computation on an iterator: the handler and the iterator's own fields.\<close>

type_synonym ('w, 'a) iterM = "('w Handler \<times> CommonIterator, 'a) goM"

datatype queryResult = ResultKV KV | ResultKeyModification KeyModification

text \<open>\<open>type resultType uint8\<close> with the constants 1 and 2.\<close>

type_synonym resultType = "8 word"

definition StateQueryResult :: resultType where
  "StateQueryResult = 1"

definition HistoryQueryResult :: resultType where
  "HistoryQueryResult = 2"

definition HasNext :: "CommonIterator \<Rightarrow> bool" where
  "HasNext iter \<longleftrightarrow>
     (if it_currentLoc iter < length (qr_Results (it_response iter)) \<or> qr_HasMore (it_response iter)
      then True else False)"

definition getResultFromBytes :: "'w stub_env \<Rightarrow> bytes \<Rightarrow> resultType \<Rightarrow> string + queryResult" where
  "getResultFromBytes env queryResultBytes rType =
     (if rType = StateQueryResult then
        (case se_KV env queryResultBytes of
           Inl err \<Rightarrow> Inl (''error unmarshaling result from bytes: '' @ err)
         | Inr kv \<Rightarrow> Inr (ResultKV kv))
      else if rType = HistoryQueryResult then
        (case se_KeyModification env queryResultBytes of
           Inl err \<Rightarrow> Inl err
         | Inr km \<Rightarrow> Inr (ResultKeyModification km))
      else Inl ''wrong result type'')"

text \<open>\<open>Some err\<close> is a non-nil error.\<close>

definition fetchNextQueryResult :: "'w stub_env \<Rightarrow> ('w, string option) iterM" where
  "fetchNextQueryResult env = (\<lambda>(h, iter).
     case handleQueryStateNext (shim_env.truncate env) (qr_Id (it_response iter)) (it_channelID iter) (it_txid iter) h of
       (Panic p, h') \<Rightarrow> (Panic p, (h', iter))
     | (Return (Inl err), h') \<Rightarrow> (Return (Some err), (h', iter))
     | (Return (Inr response), h') \<Rightarrow>
         (Return None, (h', iter\<lparr>it_currentLoc := 0, it_response := response\<rparr>)))"

definition nextResult :: "'w stub_env \<Rightarrow> resultType \<Rightarrow> ('w, string + queryResult) iterM" where
  "nextResult env rType = (\<lambda>(h, iter).
     if it_currentLoc iter < length (qr_Results (it_response iter)) then
       (case getResultFromBytes env (qr_Results (it_response iter) ! it_currentLoc iter) rType of
          Inl err \<Rightarrow> (Return (Inl err), (h, iter))
        | Inr result \<Rightarrow>
            (let iter' = iter\<lparr>it_currentLoc := it_currentLoc iter + 1\<rparr>
             in if it_currentLoc iter' = length (qr_Results (it_response iter')) \<and> qr_HasMore (it_response iter')
                then gbind (fetchNextQueryResult env)
                       (\<lambda>e. case e of Some err \<Rightarrow> gret (Inl err) | None \<Rightarrow> gret (Inr result)) (h, iter')
                else (Return (Inr result), (h, iter'))))
     else if \<not> qr_HasMore (it_response iter) then (Return (Inl ''no such key''), (h, iter))
     else (Return (Inl ''invalid iterator state''), (h, iter)))"

definition StateQueryIterator_Next :: "'w stub_env \<Rightarrow> ('w, string + KV) iterM" where
  "StateQueryIterator_Next env =
     gtry (nextResult env StateQueryResult)
       (\<lambda>result. case result of ResultKV kv \<Rightarrow> gret (Inr kv) | _ \<Rightarrow> gpanic ''interface conversion'')"

definition HistoryQueryIterator_Next :: "'w stub_env \<Rightarrow> ('w, string + KeyModification) iterM" where
  "HistoryQueryIterator_Next env =
     gtry (nextResult env HistoryQueryResult)
       (\<lambda>result. case result of ResultKeyModification km \<Rightarrow> gret (Inr km) | _ \<Rightarrow> gpanic ''interface conversion'')"

definition CommonIterator_Close :: "'w stub_env \<Rightarrow> ('w, string option) iterM" where
  "CommonIterator_Close env = (\<lambda>(h, iter).
     case handleQueryStateClose (shim_env.truncate env) (qr_Id (it_response iter)) (it_channelID iter) (it_txid iter) h of
       (Panic p, h') \<Rightarrow> (Panic p, (h', iter))
     | (Return (Inl err), h') \<Rightarrow> (Return (Some err), (h', iter))
     | (Return (Inr _), h') \<Rightarrow> (Return None, (h', iter)))"

section \<open>Arguments, proposal fields and events\<close>

definition GetArgs :: "'w ChaincodeStub \<Rightarrow> bytes list" where
  "GetArgs s = cs_args s"

definition GetStringArgs :: "'w ChaincodeStub \<Rightarrow> string list" where
  "GetStringArgs s = map string_of_bytes (GetArgs s)"

definition GetFunctionAndParameters :: "'w ChaincodeStub \<Rightarrow> string \<times> string list" where
  "GetFunctionAndParameters s =
     (let allargs = GetStringArgs s
      in if length allargs \<ge> 1 then (hd allargs, tl allargs) else ('''', []))"

definition GetCreator :: "'w ChaincodeStub \<Rightarrow> string + bytes" where
  "GetCreator s = Inr (cs_creator s)"

definition GetTransient :: "'w ChaincodeStub \<Rightarrow> string + (string \<rightharpoonup> bytes)" where
  "GetTransient s = Inr (cs_transient s)"

definition GetBinding :: "'w ChaincodeStub \<Rightarrow> string + bytes" where
  "GetBinding s = Inr (cs_binding s)"

definition GetSignedProposal :: "'w ChaincodeStub \<Rightarrow> string + SignedProposal option" where
  "GetSignedProposal s = Inr (cs_signedProposal s)"

definition GetArgsSlice :: "'w ChaincodeStub \<Rightarrow> string + bytes" where
  "GetArgsSlice s = Inr (concat (GetArgs s))"

definition GetTxTimestamp :: "'w stub_env \<Rightarrow> ('w ChaincodeStub, string + int) goM" where
  "GetTxTimestamp env =
     withStub (\<lambda>s.
       case cs_proposal s of
         None \<Rightarrow> gpanic ''nil pointer dereference''
       | Some proposal \<Rightarrow>
           (case se_Header env (pr_Header proposal) of
              Inl err \<Rightarrow> gret (Inl (''error unmarshaling Header: '' @ err))
            | Inr hdr \<Rightarrow>
                (case se_ChannelHeader env (h_ChannelHeader hdr) of
                   Inl err \<Rightarrow> gret (Inl (''error unmarshaling ChannelHeader: '' @ err))
                 | Inr chdr \<Rightarrow> gret (Inr (ch_Timestamp chdr)))))"

definition SetEvent :: "string \<Rightarrow> bytes \<Rightarrow> ('w ChaincodeStub, string + unit) goM" where
  "SetEvent name payload =
     (if name = '''' then gret (Inl ''event name can not be empty string'')
      else gbind (gmodify (\<lambda>s. s\<lparr>cs_chaincodeEvent := Some \<lparr>ev_EventName = name, ev_Payload = payload\<rparr>\<rparr>))
             (\<lambda>_. gret (Inr ())))"

end
