(* ===== verification/Shim_Discipline.thy ===== *)
theory Shim_Discipline
  imports Shim_Stub
begin

text \<open>
  The typed-delta discipline of the shim's stub, at two levels: of the calls a chaincode makes (the
  contract \<open>delta_stub\<close>), and of the messages the peer receives.
\<close>

section \<open>The calls\<close>

datatype shim_read =
    RdInvokeChaincode string "bytes list" string
  | RdGetState string
  | RdGetStateValidationParameter string
  | RdGetQueryResult string
  | RdGetPrivateData string string
  | RdGetPrivateDataHash string string
  | RdGetPrivateDataByRange string string string
  | RdGetPrivateDataByPartialCompositeKey string string "string list"
  | RdGetPrivateDataQueryResult string string
  | RdGetPrivateDataValidationParameter string string
  | RdGetStateByRange string string
  | RdGetHistoryForKey string
  | RdGetStateByPartialCompositeKey string "string list"
  | RdGetStateByRangeWithPagination string string int32 string
  | RdGetStateByPartialCompositeKeyWithPagination string "string list" int32 string
  | RdGetQueryResultWithPagination string int32 string

datatype shim_plain = PlPutState (pl_key: string) bytes | PlDelState (pl_key: string)

datatype shim_other =
    OtSetStateValidationParameter string bytes
  | OtPutPrivateData string string bytes
  | OtDelPrivateData string string
  | OtPurgePrivateData string string
  | OtSetPrivateDataValidationParameter string string bytes
  | OtSetEvent string bytes

type_synonym shim_delta = "string \<times> string \<times> DeltaDescriptor_Op \<times> bytes \<times> bytes"

text \<open>A call is accepted when it returns without error.\<close>

definition accepted :: "(string + 'a) go \<times> 's \<Rightarrow> bool \<times> 's" where
  "accepted r = ((case fst r of Return (Inr _) \<Rightarrow> True | _ \<Rightarrow> False), snd r)"

lemma snd_accepted [simp]: "snd (accepted r) = snd r"
  by (simp add: accepted_def)

fun shim_read_step :: "'w stub_env \<Rightarrow> shim_read \<Rightarrow> 'w ChaincodeStub \<Rightarrow> bool \<times> 'w ChaincodeStub" where
  "shim_read_step env (RdInvokeChaincode n args ch) s =
     (case cs_InvokeChaincode env n args ch s of (r, s') \<Rightarrow> ((case r of Return _ \<Rightarrow> True | _ \<Rightarrow> False), s'))"
| "shim_read_step env (RdGetState k) s = accepted (cs_GetState env k s)"
| "shim_read_step env (RdGetStateValidationParameter k) s = accepted (cs_GetStateValidationParameter env k s)"
| "shim_read_step env (RdGetQueryResult q) s = accepted (cs_GetQueryResult env q s)"
| "shim_read_step env (RdGetPrivateData c k) s = accepted (cs_GetPrivateData env c k s)"
| "shim_read_step env (RdGetPrivateDataHash c k) s = accepted (cs_GetPrivateDataHash env c k s)"
| "shim_read_step env (RdGetPrivateDataByRange c a b) s = accepted (cs_GetPrivateDataByRange env c a b s)"
| "shim_read_step env (RdGetPrivateDataByPartialCompositeKey c ot ks) s =
     accepted (cs_GetPrivateDataByPartialCompositeKey env c ot ks s)"
| "shim_read_step env (RdGetPrivateDataQueryResult c q) s = accepted (cs_GetPrivateDataQueryResult env c q s)"
| "shim_read_step env (RdGetPrivateDataValidationParameter c k) s =
     accepted (cs_GetPrivateDataValidationParameter env c k s)"
| "shim_read_step env (RdGetStateByRange a b) s = accepted (cs_GetStateByRange env a b s)"
| "shim_read_step env (RdGetHistoryForKey k) s = accepted (cs_GetHistoryForKey env k s)"
| "shim_read_step env (RdGetStateByPartialCompositeKey ot ks) s =
     accepted (cs_GetStateByPartialCompositeKey env ot ks s)"
| "shim_read_step env (RdGetStateByRangeWithPagination a b n m) s =
     accepted (cs_GetStateByRangeWithPagination env a b n m s)"
| "shim_read_step env (RdGetStateByPartialCompositeKeyWithPagination ot ks n m) s =
     accepted (cs_GetStateByPartialCompositeKeyWithPagination env ot ks n m s)"
| "shim_read_step env (RdGetQueryResultWithPagination q n m) s =
     accepted (cs_GetQueryResultWithPagination env q n m s)"

fun shim_plain_step :: "'w stub_env \<Rightarrow> shim_plain \<Rightarrow> 'w ChaincodeStub \<Rightarrow> bool \<times> 'w ChaincodeStub" where
  "shim_plain_step env (PlPutState k v) s = accepted (cs_PutState env k v s)"
| "shim_plain_step env (PlDelState k) s = accepted (cs_DelState env k s)"

fun shim_delta_step :: "'w stub_env \<Rightarrow> shim_delta \<Rightarrow> 'w ChaincodeStub \<Rightarrow> bool \<times> 'w ChaincodeStub" where
  "shim_delta_step env (k, tid, op, arg, sv) s = accepted (cs_PutDelta env k tid op arg sv s)"

fun shim_other_step :: "'w stub_env \<Rightarrow> shim_other \<Rightarrow> 'w ChaincodeStub \<Rightarrow> bool \<times> 'w ChaincodeStub" where
  "shim_other_step env (OtSetStateValidationParameter k ep) s = accepted (cs_SetStateValidationParameter env k ep s)"
| "shim_other_step env (OtPutPrivateData c k v) s = accepted (cs_PutPrivateData env c k v s)"
| "shim_other_step env (OtDelPrivateData c k) s = accepted (cs_DelPrivateData env c k s)"
| "shim_other_step env (OtPurgePrivateData c k) s = accepted (cs_PurgePrivateData env c k s)"
| "shim_other_step env (OtSetPrivateDataValidationParameter c k ep) s =
     accepted (cs_SetPrivateDataValidationParameter env c k ep s)"
| "shim_other_step env (OtSetEvent n p) s = accepted (SetEvent n p s)"

fun shim_step ::
  "'w stub_env \<Rightarrow> 'w ChaincodeStub \<Rightarrow> (shim_read, shim_plain, shim_delta) stub_call \<Rightarrow> bool \<times> 'w ChaincodeStub" where
  "shim_step env s (CallRead r) = shim_read_step env r s"
| "shim_step env s (CallPlain p) = shim_plain_step env p s"
| "shim_step env s (CallDelta d) = shim_delta_step env d s"

section \<open>What each class of calls changes\<close>

text \<open>Key sets, read mark and identity of the stub stay; the handler sends only \<open>P\<close>-messages.\<close>

definition stubSends ::
  "('w \<Rightarrow> ChaincodeMessage list) \<Rightarrow> (ChaincodeMessage \<Rightarrow> bool) \<Rightarrow> 'w ChaincodeStub \<Rightarrow> 'w ChaincodeStub \<Rightarrow> bool" where
  "stubSends sent P s s' \<longleftrightarrow>
     cs_didRead s' = cs_didRead s \<and> cs_plainKeys s' = cs_plainKeys s \<and> cs_deltaKeys s' = cs_deltaKeys s \<and>
     sendsOnly sent P (cs_handler s) (cs_handler s')"

lemma stubSends_rel [simp]: "reflp (stubSends sent P)" "transp (stubSends sent P)"
  using sendsOnly_rel [of sent P] unfolding stubSends_def reflp_def transp_def by (metis, metis)

lemma stubSends_mono: "stubSends sent P s s' \<Longrightarrow> (\<And>m. P m \<Longrightarrow> Q m) \<Longrightarrow> stubSends sent Q s s'"
  unfolding stubSends_def using sendsOnly_mono by blast

lemma keeps_viaHandler: "keeps (sendsOnly sent P) m \<Longrightarrow> keeps (stubSends sent P) (viaHandler m)"
  by (auto simp: keeps_def viaHandler_def stubSends_def split: prod.splits) (metis snd_conv)

lemma keeps_withStub: "(\<And>x. keeps R (f x)) \<Longrightarrow> keeps R (withStub f)"
  by (auto simp: keeps_def withStub_def)

lemma keeps_mono: "keeps R m \<Longrightarrow> (\<And>s s'. R s s' \<Longrightarrow> R' s s') \<Longrightarrow> keeps R' m"
  by (auto simp: keeps_def)

lemma keeps_viaHandler_mono:
  "keeps (sendsOnly sent P) m \<Longrightarrow> (\<And>x. P x \<Longrightarrow> Q x) \<Longrightarrow> keeps (stubSends sent Q) (viaHandler m)"
  using keeps_mono [OF keeps_viaHandler [of sent P m], of "stubSends sent Q"] stubSends_mono by blast

lemma recordsSent_truncate [simp]: "recordsSent (shim_env.truncate env) sent = recordsSent env sent"
  by (simp add: recordsSent_def shim_env.truncate_def)

lemma carries_truncate [simp]: "carries (shim_env.truncate env) = carries env"
  by (intro ext) (simp add: carries_def shim_env.truncate_def)

definition readMessage :: "ChaincodeMessage \<Rightarrow> bool" where
  "readMessage m \<longleftrightarrow> cm_Type m \<in> {ChaincodeMessage_GET_STATE, ChaincodeMessage_GET_PRIVATE_DATA_HASH,
     ChaincodeMessage_GET_STATE_METADATA, ChaincodeMessage_GET_STATE_BY_RANGE,
     ChaincodeMessage_GET_QUERY_RESULT, ChaincodeMessage_GET_HISTORY_FOR_KEY, ChaincodeMessage_INVOKE_CHAINCODE}"

lemma reads_send:
  assumes "recordsSent env sent"
  shows "keeps (stubSends sent readMessage) (viaHandler (handleGetState (shim_env.truncate env) c k x t))"
    "keeps (stubSends sent readMessage) (viaHandler (handleGetPrivateDataHash (shim_env.truncate env) c k x t))"
    "keeps (stubSends sent readMessage) (viaHandler (handleGetStateMetadata (shim_env.truncate env) c k x t))"
    "keeps (stubSends sent readMessage) (viaHandler (handleGetStateByRange (shim_env.truncate env) c a b md x t))"
    "keeps (stubSends sent readMessage) (viaHandler (handleGetQueryResult (shim_env.truncate env) c q md x t))"
    "keeps (stubSends sent readMessage) (viaHandler (handleGetHistoryForKey (shim_env.truncate env) k x t))"
    "keeps (stubSends sent readMessage) (viaHandler (handleInvokeChaincode (shim_env.truncate env) n args x t))"
  using assms
  by (auto intro!: keeps_viaHandler_mono [OF keeps_requests(1)] keeps_viaHandler_mono [OF keeps_requests(2)]
      keeps_viaHandler_mono [OF keeps_requests(3)] keeps_viaHandler_mono [OF keeps_requests(9)]
      keeps_viaHandler_mono [OF keeps_requests(12)] keeps_viaHandler_mono [OF keeps_requests(13)]
      keeps_viaHandler_mono [OF keeps_handleInvokeChaincode] simp: readMessage_def carries_def)

lemma queries_send:
  assumes "recordsSent env sent"
  shows "keeps (stubSends sent readMessage) (cs_handleGetStateByRange env c a b md)"
    "keeps (stubSends sent readMessage) (cs_handleGetQueryResult env c q md)"
  unfolding cs_handleGetStateByRange_def cs_handleGetQueryResult_def
  by (intro keeps_withStub keeps_gtry keeps_gret reads_send assms stubSends_rel)+

lemma keeps_dropMetadata: "keeps (stubSends sent P) m \<Longrightarrow> keeps (stubSends sent P) (dropMetadata m)"
  unfolding dropMetadata_def by (intro keeps_gtry) (auto intro: keeps_gret)

text \<open>Every reading method marks the read first and then sends reading messages only.\<close>

lemma markRead_sends:
  "keeps (stubSends sent P) m \<Longrightarrow> stubSends sent P (s\<lparr>cs_didRead := True\<rparr>) (snd (markRead m s))"
  by (simp add: keeps_def markRead_def)

lemma keeps_cases:
  "keeps R a \<Longrightarrow> (\<And>y. keeps R (f y)) \<Longrightarrow> keeps R (case x of None \<Rightarrow> a | Some y \<Rightarrow> f y)"
  "(\<And>y. keeps R (f y)) \<Longrightarrow> keeps R a \<Longrightarrow> keeps R (case x of Some y \<Rightarrow> f y | None \<Rightarrow> a)"
  "(\<And>y. keeps R (g y)) \<Longrightarrow> (\<And>y. keeps R (h y)) \<Longrightarrow> keeps R (case z of Inl y \<Rightarrow> g y | Inr y \<Rightarrow> h y)"
  "(\<And>u v. keeps R (k u v)) \<Longrightarrow> keeps R (case p of (u, v) \<Rightarrow> k u v)"
  "keeps R a \<Longrightarrow> keeps R b \<Longrightarrow> keeps R (if c then a else b)"
  by (auto split: option.split sum.split prod.split)

lemmas keeps_method_rules = keeps_cases keeps_withStub keeps_gtry keeps_gret keeps_dropMetadata
  stubSends_rel

lemmas read_method_defs = cs_InvokeChaincode_def cs_GetState_def cs_GetStateValidationParameter_def
  cs_GetQueryResult_def cs_GetPrivateData_def cs_GetPrivateDataHash_def cs_GetPrivateDataByRange_def
  cs_GetPrivateDataByPartialCompositeKey_def cs_GetPrivateDataQueryResult_def
  cs_GetPrivateDataValidationParameter_def cs_GetStateByRange_def cs_GetHistoryForKey_def
  cs_GetStateByPartialCompositeKey_def cs_GetStateByRangeWithPagination_def
  cs_GetStateByPartialCompositeKeyWithPagination_def cs_GetQueryResultWithPagination_def

lemma shim_read_sends:
  assumes "recordsSent env sent"
  shows "stubSends sent readMessage (s\<lparr>cs_didRead := True\<rparr>) (snd (shim_read_step env r s))"
proof -
  note rules = markRead_sends keeps_method_rules reads_send [OF assms] queries_send [OF assms]
  have inv: "snd (shim_read_step env (RdInvokeChaincode n args ch) s) = snd (cs_InvokeChaincode env n args ch s)"
    for n args ch by (simp split: prod.splits)
  show ?thesis
    by (cases r; simp only: inv shim_read_step.simps(2-) snd_accepted read_method_defs Let_def; intro rules)
qed

section \<open>The stub keeps the contract\<close>

text \<open>A plain write marks its key before anything is sent; a delta likewise, after its guards.\<close>

lemma shim_plain_cases:
  assumes "recordsSent env sent"
  shows "let s' = snd (shim_plain_step env p s) in
    (s' = s \<and> \<not> fst (shim_plain_step env p s)) \<or>
    pl_key p \<notin> cs_deltaKeys s \<and>
    stubSends sent (\<lambda>m. carries env ChaincodeMessage_DEL_STATE (DelState '''' (pl_key p)) m \<or>
        (\<exists>v. carries env ChaincodeMessage_PUT_STATE (PutState '''' (pl_key p) v None) m))
      (s\<lparr>cs_plainKeys := insert (pl_key p) (cs_plainKeys s)\<rparr>) s'"
proof (cases p)
  case (PlPutState k v)
  let ?t = "s\<lparr>cs_plainKeys := insert k (cs_plainKeys s)\<rparr>"
  let ?m = "viaHandler (handlePutState (shim_env.truncate env) '''' k v (cs_ChannelID s) (cs_TxID s))"
  have "stubSends sent (carries env ChaincodeMessage_PUT_STATE (PutState '''' k v None)) ?t (snd (?m ?t))"
    using keeps_viaHandler [OF keeps_requests(4) [of "shim_env.truncate env"]] assms by (simp add: keeps_def)
  then have "stubSends sent (\<lambda>m. carries env ChaincodeMessage_DEL_STATE (DelState '''' k) m \<or>
      (\<exists>v. carries env ChaincodeMessage_PUT_STATE (PutState '''' k v None) m)) ?t (snd (?m ?t))"
    by (rule stubSends_mono) blast
  moreover have "shim_plain_step env p s =
      (if k = '''' \<or> k \<in> cs_deltaKeys s then (False, s) else accepted (?m ?t))"
    by (simp add: PlPutState cs_PutState_def withStub_def go_defs accepted_def)
  ultimately show ?thesis by (simp add: PlPutState Let_def)
next
  case (PlDelState k)
  let ?t = "s\<lparr>cs_plainKeys := insert k (cs_plainKeys s)\<rparr>"
  let ?m = "viaHandler (handleDelState (shim_env.truncate env) '''' k (cs_ChannelID s) (cs_TxID s))"
  have "stubSends sent (carries env ChaincodeMessage_DEL_STATE (DelState '''' k)) ?t (snd (?m ?t))"
    using keeps_viaHandler [OF keeps_requests(7) [of "shim_env.truncate env"]] assms by (simp add: keeps_def)
  then have "stubSends sent (\<lambda>m. carries env ChaincodeMessage_DEL_STATE (DelState '''' k) m \<or>
      (\<exists>v. carries env ChaincodeMessage_PUT_STATE (PutState '''' k v None) m)) ?t (snd (?m ?t))"
    by (rule stubSends_mono) blast
  moreover have "shim_plain_step env p s = (if k \<in> cs_deltaKeys s then (False, s) else accepted (?m ?t))"
    by (simp add: PlDelState cs_DelState_def withStub_def go_defs accepted_def)
  ultimately show ?thesis by (simp add: PlDelState Let_def)
qed

lemma shim_delta_cases:
  assumes "recordsSent env sent"
  shows "let s' = snd (shim_delta_step env d s) in
    (s' = s \<and> \<not> fst (shim_delta_step env d s)) \<or>
    \<not> cs_didRead s \<and> fst d \<notin> cs_plainKeys s \<and>
    (\<exists>dd. stubSends sent (carries env ChaincodeMessage_PUT_STATE (PutState '''' (fst d) [] (Some dd)))
      (s\<lparr>cs_deltaKeys := insert (fst d) (cs_deltaKeys s)\<rparr>) s')"
proof (cases d)
  case (fields k tid op arg sv)
  let ?t = "s\<lparr>cs_deltaKeys := insert k (cs_deltaKeys s)\<rparr>"
  let ?m = "\<lambda>dd. viaHandler (handlePutDelta (shim_env.truncate env) k dd (cs_ChannelID s) (cs_TxID s))"
  have "stubSends sent (carries env ChaincodeMessage_PUT_STATE (PutState '''' k [] (Some dd))) ?t (snd (?m dd ?t))" for dd
    using keeps_viaHandler [OF keeps_requests(5) [of "shim_env.truncate env"]] assms by (simp add: keeps_def)
  moreover have "shim_delta_step env d s =
      (if k = '''' \<or> cs_didRead s \<or> k \<in> cs_plainKeys s then (False, s)
       else case buildShimDelta tid op arg sv of Inl _ \<Rightarrow> (False, s) | Inr dd \<Rightarrow> accepted (?m dd ?t))"
    by (auto simp: fields cs_PutDelta_def withStub_def go_defs accepted_def split: sum.splits)
  ultimately show ?thesis by (auto simp: fields Let_def split: sum.splits)
qed

interpretation sstub: delta_stub "shim_step env" cs_didRead cs_plainKeys cs_deltaKeys pl_key fst
  for env :: "'w stub_env"
proof
  fix s s' :: "'w ChaincodeStub" and r ok
  assume "shim_step env s (CallRead r) = (ok, s')"
  then show "cs_didRead s' \<and> cs_plainKeys s' = cs_plainKeys s \<and> cs_deltaKeys s' = cs_deltaKeys s"
    using shim_read_sends [of env "\<lambda>_. []" s r] by (simp add: stubSends_def)
next
  fix s s' :: "'w ChaincodeStub" and p ok
  assume "shim_step env s (CallPlain p) = (ok, s')"
  then show "cs_didRead s' = cs_didRead s \<and> cs_deltaKeys s' = cs_deltaKeys s \<and>
      (cs_plainKeys s' = cs_plainKeys s \<or>
       pl_key p \<notin> cs_deltaKeys s \<and> cs_plainKeys s' = insert (pl_key p) (cs_plainKeys s))"
    using shim_plain_cases [of env "\<lambda>_. []" p s] by (auto simp: Let_def stubSends_def)
next
  fix s s' :: "'w ChaincodeStub" and p
  assume "shim_step env s (CallPlain p) = (True, s')"
  then show "pl_key p \<in> cs_plainKeys s'"
    using shim_plain_cases [of env "\<lambda>_. []" p s] by (auto simp: Let_def stubSends_def)
next
  fix s s' :: "'w ChaincodeStub" and d ok
  assume "shim_step env s (CallDelta d) = (ok, s')"
  then show "cs_didRead s' = cs_didRead s \<and> cs_plainKeys s' = cs_plainKeys s \<and>
      (cs_deltaKeys s' = cs_deltaKeys s \<or>
       fst d \<notin> cs_plainKeys s \<and> cs_deltaKeys s' = insert (fst d) (cs_deltaKeys s))"
    using shim_delta_cases [of env "\<lambda>_. []" d s] by (auto simp: Let_def stubSends_def)
next
  fix s s' :: "'w ChaincodeStub" and d
  assume "shim_step env s (CallDelta d) = (True, s')"
  then show "\<not> cs_didRead s \<and> fst d \<in> cs_deltaKeys s'"
    using shim_delta_cases [of env "\<lambda>_. []" d s] by (auto simp: Let_def stubSends_def)
qed

section \<open>The messages the peer receives\<close>

definition isDelta :: "('w, 'z) shim_env_scheme \<Rightarrow> string \<Rightarrow> ChaincodeMessage \<Rightarrow> bool" where
  "isDelta env k m \<longleftrightarrow> (\<exists>d. carries env ChaincodeMessage_PUT_STATE (PutState '''' k [] (Some d)) m)"

definition isPlain :: "('w, 'z) shim_env_scheme \<Rightarrow> string \<Rightarrow> ChaincodeMessage \<Rightarrow> bool" where
  "isPlain env k m \<longleftrightarrow>
     (\<exists>v. carries env ChaincodeMessage_PUT_STATE (PutState '''' k v None) m) \<or>
     carries env ChaincodeMessage_DEL_STATE (DelState '''' k) m"

text \<open>Protobuf messages of one type with the same encoding are equal, as they decode to it.\<close>

definition marshalInjective :: "('w, 'z) shim_env_scheme \<Rightarrow> bool" where
  "marshalInjective env \<longleftrightarrow>
     (\<forall>c k v d c' k' v' d' b. env_Marshal env (PutState c k v d) = Inr b \<and>
        env_Marshal env (PutState c' k' v' d') = Inr b \<longrightarrow> c = c' \<and> k = k' \<and> v = v' \<and> d = d') \<and>
     (\<forall>c k c' k' b. env_Marshal env (DelState c k) = Inr b \<and>
        env_Marshal env (DelState c' k') = Inr b \<longrightarrow> c = c' \<and> k = k')"

type_synonym shim_call = "(shim_read, shim_plain, shim_delta) stub_call + shim_other"

fun shim_call_step :: "'w stub_env \<Rightarrow> 'w ChaincodeStub \<Rightarrow> shim_call \<Rightarrow> 'w ChaincodeStub" where
  "shim_call_step env s (Inl c) = snd (shim_step env s c)"
| "shim_call_step env s (Inr c) = snd (shim_other_step env c s)"

definition runShim :: "'w stub_env \<Rightarrow> 'w ChaincodeStub \<Rightarrow> shim_call list \<Rightarrow> 'w ChaincodeStub" where
  "runShim env = foldl (shim_call_step env)"

text \<open>The order condition on a log: no delta after a read.\<close>

definition deltasBeforeReads :: "('w, 'z) shim_env_scheme \<Rightarrow> ChaincodeMessage list \<Rightarrow> bool" where
  "deltasBeforeReads env = sorted_wrt (\<lambda>m m'. readMessage m \<longrightarrow> (\<forall>k. \<not> isDelta env k m'))"

definition wireInv :: "'w stub_env \<Rightarrow> ('w \<Rightarrow> ChaincodeMessage list) \<Rightarrow> 'w ChaincodeStub \<Rightarrow> bool" where
  "wireInv env sent s \<longleftrightarrow>
     (let log = sent (h_chatStream (cs_handler s)) in
        (\<forall>m \<in> set log. \<forall>k. isDelta env k m \<longrightarrow> k \<in> cs_deltaKeys s) \<and>
        (\<forall>m \<in> set log. \<forall>k. isPlain env k m \<longrightarrow> k \<in> cs_plainKeys s) \<and>
        (\<forall>m \<in> set log. readMessage m \<longrightarrow> cs_didRead s) \<and>
        cs_plainKeys s \<inter> cs_deltaKeys s = {} \<and> deltasBeforeReads env log)"

lemma sorted_wrt_all: "\<forall>x \<in> set xs. \<forall>y \<in> set xs. R x y \<Longrightarrow> sorted_wrt R xs"
  by (induction xs) auto

lemma wire_extend:
  assumes "wireInv env sent t" "stubSends sent P t s'"
    and delta: "\<And>m k. P m \<Longrightarrow> isDelta env k m \<Longrightarrow> k \<in> cs_deltaKeys t \<and> \<not> cs_didRead t"
    and plain: "\<And>m k. P m \<Longrightarrow> isPlain env k m \<Longrightarrow> k \<in> cs_plainKeys t"
    and read: "\<And>m. P m \<Longrightarrow> readMessage m \<Longrightarrow> cs_didRead t"
  shows "wireInv env sent s'"
proof -
  let ?log = "sent (h_chatStream (cs_handler t))"
  let ?ord = "\<lambda>m m'. readMessage m \<longrightarrow> (\<forall>k. \<not> isDelta env k m')"
  obtain ms where ms: "sent (h_chatStream (cs_handler s')) = ?log @ ms" "\<forall>m \<in> set ms. P m"
    using assms(2) by (auto simp: stubSends_def sendsOnly_def)
  have same: "cs_didRead s' = cs_didRead t" "cs_plainKeys s' = cs_plainKeys t" "cs_deltaKeys s' = cs_deltaKeys t"
    using assms(2) by (auto simp: stubSends_def)
  have old: "\<forall>m \<in> set ?log. readMessage m \<longrightarrow> cs_didRead t" "sorted_wrt ?ord ?log"
    using assms(1) by (auto simp: wireInv_def Let_def deltasBeforeReads_def)
  have "\<forall>m \<in> set ms. \<forall>m' \<in> set ms. ?ord m m'" using ms(2) delta read by blast
  then have "sorted_wrt ?ord ms" by (rule sorted_wrt_all)
  moreover have "\<forall>m \<in> set ?log. \<forall>m' \<in> set ms. ?ord m m'" using old(1) ms(2) delta by blast
  ultimately have "deltasBeforeReads env (?log @ ms)"
    using old(2) by (simp add: deltasBeforeReads_def sorted_wrt_append)
  moreover have "\<forall>m \<in> set (?log @ ms). (\<forall>k. isDelta env k m \<longrightarrow> k \<in> cs_deltaKeys t) \<and>
      (\<forall>k. isPlain env k m \<longrightarrow> k \<in> cs_plainKeys t) \<and> (readMessage m \<longrightarrow> cs_didRead t)"
    using assms(1) ms(2) delta plain read unfolding wireInv_def Let_def set_append by blast
  moreover have "cs_plainKeys t \<inter> cs_deltaKeys t = {}" using assms(1) by (simp add: wireInv_def Let_def)
  ultimately show ?thesis unfolding wireInv_def Let_def ms(1) same by blast
qed

lemma marshalInjectiveD:
  assumes "marshalInjective env"
  shows "env_Marshal env (PutState c k v d) = Inr b \<Longrightarrow> env_Marshal env (PutState c' k' v' d') = Inr b \<Longrightarrow>
      c' = c \<and> k' = k \<and> v' = v \<and> d' = d"
    "env_Marshal env (DelState c k) = Inr b \<Longrightarrow> env_Marshal env (DelState c' k') = Inr b \<Longrightarrow> c' = c \<and> k' = k"
  using assms unfolding marshalInjective_def by blast+

lemma carried_put:
  assumes "marshalInjective env" "carries env ChaincodeMessage_PUT_STATE (PutState c k v d) m"
  shows "isDelta env k' m \<Longrightarrow> c = '''' \<and> k' = k \<and> d \<noteq> None"
    "isPlain env k' m \<Longrightarrow> c = '''' \<and> k' = k \<and> d = None" "\<not> readMessage m"
  using assms(2)
  by (auto simp: isDelta_def isPlain_def carries_def readMessage_def dest: marshalInjectiveD(1) [OF assms(1)])

lemma carried_del:
  assumes "marshalInjective env" "carries env ChaincodeMessage_DEL_STATE (DelState c k) m"
  shows "\<not> isDelta env k' m" "isPlain env k' m \<Longrightarrow> c = '''' \<and> k' = k" "\<not> readMessage m"
  using assms(2)
  by (auto simp: isDelta_def isPlain_def carries_def readMessage_def dest: marshalInjectiveD(2) [OF assms(1)])

text \<open>The remaining methods: private writes and validation parameters.\<close>

definition neutralMessage :: "('w, 'z) shim_env_scheme \<Rightarrow> ChaincodeMessage \<Rightarrow> bool" where
  "neutralMessage env m \<longleftrightarrow> \<not> readMessage m \<and> (\<forall>k. \<not> isDelta env k m \<and> \<not> isPlain env k m)"

lemma neutral_types:
  "cm_Type m \<in> {ChaincodeMessage_PUT_STATE_METADATA, ChaincodeMessage_PURGE_PRIVATE_DATA} \<Longrightarrow> neutralMessage env m"
  by (auto simp: neutralMessage_def readMessage_def isDelta_def isPlain_def carries_def)

lemma neutral_private:
  assumes "marshalInjective env" "c \<noteq> ''''"
  shows "carries env ChaincodeMessage_PUT_STATE (PutState c k v d) m \<Longrightarrow> neutralMessage env m"
    "carries env ChaincodeMessage_DEL_STATE (DelState c k) m \<Longrightarrow> neutralMessage env m"
  using assms(2) carried_put [OF assms(1)] carried_del [OF assms(1)] unfolding neutralMessage_def
  by metis+

lemma shim_other_sends:
  assumes "recordsSent env sent" "marshalInjective env"
  shows "stubSends sent (neutralMessage env) s (snd (shim_other_step env c s))"
proof -
  have rec: "recordsSent (shim_env.truncate env) sent" using assms(1) by simp
  have put: "keeps (stubSends sent (neutralMessage env)) (viaHandler (handlePutState (shim_env.truncate env) c k v x t))"
    if "c \<noteq> ''''" for c k v x t
    by (rule keeps_viaHandler_mono [OF keeps_requests(4) [OF rec]])
       (simp add: neutral_private(1) [OF assms(2) that])
  have del: "keeps (stubSends sent (neutralMessage env)) (viaHandler (handleDelState (shim_env.truncate env) c k x t))"
    if "c \<noteq> ''''" for c k x t
    by (rule keeps_viaHandler_mono [OF keeps_requests(7) [OF rec]])
       (simp add: neutral_private(2) [OF assms(2) that])
  have purge: "keeps (stubSends sent (neutralMessage env)) (viaHandler (handlePurgeState (shim_env.truncate env) c k x t))"
    for c k x t
    by (rule keeps_viaHandler_mono [OF keeps_requests(8) [OF rec]]) (simp add: neutral_types carries_def)
  have md: "keeps (stubSends sent (neutralMessage env))
      (viaHandler (handlePutStateMetadataEntry (shim_env.truncate env) c k mk ep x t))" for c k mk ep x t
    by (rule keeps_viaHandler_mono [OF keeps_requests(6) [OF rec]]) (simp add: neutral_types carries_def)
  have "keeps (stubSends sent (neutralMessage env)) (cs_PutPrivateData env c k v)"
    "keeps (stubSends sent (neutralMessage env)) (cs_DelPrivateData env c k)"
    "keeps (stubSends sent (neutralMessage env)) (cs_PurgePrivateData env c k)"
    "keeps (stubSends sent (neutralMessage env)) (cs_SetStateValidationParameter env k v)"
    "keeps (stubSends sent (neutralMessage env)) (cs_SetPrivateDataValidationParameter env c k v)"
    "keeps (stubSends sent (neutralMessage env)) (SetEvent k v)" for c k v
    unfolding cs_PutPrivateData_def cs_DelPrivateData_def cs_PurgePrivateData_def
      cs_SetStateValidationParameter_def cs_SetPrivateDataValidationParameter_def SetEvent_def
    by (auto intro!: keeps_withStub keeps_gret put del purge md keeps_gbind keeps_gmodify
        simp: stubSends_def sendsOnly_def)
  then show ?thesis by (cases c) (simp_all add: keeps_def)
qed

lemma wireInv_step:
  assumes inj: "marshalInjective env" and rec: "recordsSent env sent" and s: "wireInv env sent s"
  shows "wireInv env sent (shim_call_step env s c)"
proof (cases c)
  case (Inr a)
  then show ?thesis
    using wire_extend [OF s shim_other_sends [OF rec inj]] by (simp add: neutralMessage_def)
next
  case (Inl a)
  show ?thesis
  proof (cases a)
    case (CallRead r)
    have "wireInv env sent (s\<lparr>cs_didRead := True\<rparr>)" using s by (auto simp: wireInv_def Let_def)
    then have "wireInv env sent (snd (shim_read_step env r s))"
      by (rule wire_extend [OF _ shim_read_sends [OF rec]])
         (auto simp: readMessage_def isDelta_def isPlain_def carries_def)
    then show ?thesis by (simp add: Inl CallRead)
  next
    case (CallPlain p)
    let ?t = "s\<lparr>cs_plainKeys := insert (pl_key p) (cs_plainKeys s)\<rparr>"
    show ?thesis
    proof (cases "shim_call_step env s c = s")
      case False
      then have "pl_key p \<notin> cs_deltaKeys s"
        and sends: "stubSends sent (\<lambda>m. carries env ChaincodeMessage_DEL_STATE (DelState '''' (pl_key p)) m \<or>
          (\<exists>v. carries env ChaincodeMessage_PUT_STATE (PutState '''' (pl_key p) v None) m)) ?t (shim_call_step env s c)"
        using shim_plain_cases [OF rec, of p s] by (auto simp: Inl CallPlain Let_def)
      then have "wireInv env sent ?t" using s by (auto simp: wireInv_def Let_def)
      from wire_extend [OF this sends] show ?thesis
        using carried_put [OF inj] carried_del [OF inj] by fastforce
    qed (simp add: s)
  next
    case (CallDelta d)
    let ?t = "s\<lparr>cs_deltaKeys := insert (fst d) (cs_deltaKeys s)\<rparr>"
    show ?thesis
    proof (cases "shim_call_step env s c = s")
      case False
      then obtain dd where g: "\<not> cs_didRead s" "fst d \<notin> cs_plainKeys s"
        and sends: "stubSends sent (carries env ChaincodeMessage_PUT_STATE (PutState '''' (fst d) [] (Some dd)))
          ?t (shim_call_step env s c)"
        using shim_delta_cases [OF rec, of d s] by (auto simp: Inl CallDelta Let_def)
      then have "wireInv env sent ?t" using s by (auto simp: wireInv_def Let_def)
      from wire_extend [OF this sends] show ?thesis
        using carried_put [OF inj] g(1) by fastforce
    qed (simp add: s)
  qed
qed

lemma newChaincodeStub_fresh:
  "newChaincodeStub env h ch tx input sp = Inr s \<Longrightarrow>
     \<not> cs_didRead s \<and> cs_plainKeys s = {} \<and> cs_deltaKeys s = {} \<and> cs_handler s = h"
  by (auto simp: newChaincodeStub_def Let_def split: option.splits sum.splits if_splits)

lemma wireInv_run: "marshalInjective env \<Longrightarrow> recordsSent env sent \<Longrightarrow> wireInv env sent s \<Longrightarrow> wireInv env sent (runShim env s cs)"
  unfolding runShim_def by (induction cs arbitrary: s) (simp_all add: wireInv_step)

section \<open>Properties of the stub's discipline\<close>

text \<open>
  An environment for the witnesses: the stream is the list of messages taken, every send succeeds
  and every request is answered with an empty RESPONSE. The codec knows three requests.
\<close>

definition exDelta :: DeltaDescriptor where
  "exDelta = \<lparr>dd_TypeId = ''t'', dd_SchemaVersion = [], dd_Op = DeltaDescriptor_ADD,
     dd_Arg = [0, 0, 0, 0, 0, 0, 0, 5]\<rparr>"

definition exMarshal :: "request \<Rightarrow> string + bytes" where
  "exMarshal r =
     (if r = PutState '''' ''A'' [] (Some exDelta) then Inr [1]
      else if r = PutState '''' ''B'' [7] None then Inr [2]
      else if r = GetState '''' ''A'' then Inr [3] else Inl ''unknown message'')"

definition exStubEnv :: "ChaincodeMessage list stub_env" where
  "exStubEnv =
     \<lparr>env_Marshal = exMarshal, env_StateMetadataResult = (\<lambda>_. Inl ''''), env_QueryResponse = (\<lambda>_. Inl ''''),
      env_ChaincodeMessage = (\<lambda>_. Inl ''''), env_Response = (\<lambda>_. Inl ''''),
      env_Send = (\<lambda>m w. (None, w @ [m])),
      env_Await = (\<lambda>c w. (mkMessage ChaincodeMessage_RESPONSE [] '''' '''', w)), env_ERROR = 500,
      se_Proposal = (\<lambda>_. Inl ''''), se_Header = (\<lambda>_. Inl ''''), se_ChannelHeader = (\<lambda>_. Inl ''''),
      se_SignatureHeader = (\<lambda>_. Inl ''''), se_TransientMap = (\<lambda>_. Inl ''''),
      se_QueryMetadata = (\<lambda>_ _. Inl ''''), se_QueryResponseMetadata = (\<lambda>_. Inl ''''),
      se_KV = (\<lambda>_. Inl ''''), se_KeyModification = (\<lambda>_. Inl ''''), se_HeaderType_String = (\<lambda>_. ''''),
      se_ENDORSER_TRANSACTION = 3, se_CONFIG = 1, se_compositeKeyNamespace = [CHR 0x00],
      se_emptyKeySubstitute = [CHR 0x01], se_minUnicodeRuneValue = 0, se_maxUnicodeRuneValue = 0x10FFFF\<rparr>"

definition exInput :: ChaincodeInput where
  "exInput = \<lparr>in_Args = [], in_Decorations = Map.empty\<rparr>"

lemma exMarshal_injective: "marshalInjective exStubEnv"
  by (auto simp: marshalInjective_def exStubEnv_def exMarshal_def split: if_splits)

lemma exStub_records: "recordsSent exStubEnv (\<lambda>w. w)"
  by (simp add: recordsSent_def exStubEnv_def)

lemma exStub_new:
  "\<exists>s. newChaincodeStub exStubEnv (newChaincodeHandler []) ''ch'' ''tx'' exInput None = Inr s"
  by (simp add: newChaincodeStub_def)

definition exStub :: "ChaincodeMessage list ChaincodeStub" where
  "exStub = projr (newChaincodeStub exStubEnv (newChaincodeHandler []) ''ch'' ''tx'' exInput None)"

lemma exStub_eq: "newChaincodeStub exStubEnv (newChaincodeHandler []) ''ch'' ''tx'' exInput None = Inr exStub"
  by (simp add: exStub_def newChaincodeStub_def Let_def)

definition exCalls :: "(shim_read, shim_plain, shim_delta) stub_call list" where
  "exCalls =
     [CallDelta (''A'', ''t'', DeltaDescriptor_ADD, [0, 0, 0, 0, 0, 0, 0, 5], []), CallPlain (PlPutState ''B'' [7]),
      CallRead (RdGetState ''A''),
      CallDelta (''A'', ''t'', DeltaDescriptor_ADD, [0, 0, 0, 0, 0, 0, 0, 5], [])]"

text \<open>
  Stub discipline of the shim: On a stub made by \<open>newChaincodeStub\<close>, for every sequence of
  calls and every behaviour of the peer: no \<open>PutDelta\<close> succeeds after any reading call, and no key
  is both written or deleted plainly and given a delta.
\<close>

theorem shim_stub_discipline:
  assumes "newChaincodeStub env h channelID txid input sp = Inr s"
    and "runCalls (shim_step env) s cs = (log, s')"
  shows "(\<forall>l1 r ok l2 d. log = l1 @ (CallRead r, ok) # l2 \<longrightarrow> (CallDelta d, True) \<notin> set l2) \<and>
    (\<forall>p d. (CallPlain p, True) \<in> set log \<longrightarrow> (CallDelta d, True) \<in> set log \<longrightarrow> pl_key p \<noteq> fst d)"
proof -
  have "cs_plainKeys s \<inter> cs_deltaKeys s = {}" using newChaincodeStub_fresh [OF assms(1)] by simp
  then show ?thesis
    using sstub.no_delta_after_read [of env s cs] sstub.no_key_conflict [OF assms(2)] assms(2) by blast
qed

lemmas exStub_evals = exCalls_def shim_env.truncate_def exStub_def newChaincodeStub_def exStubEnv_def
  exMarshal_def exDelta_def exInput_def newChaincodeHandler_def cs_PutDelta_def cs_PutState_def
  cs_GetState_def withStub_def markRead_def viaHandler_def handlePutDelta_def handlePutState_def
  handleGetState_def buildShimDelta_def callPeer_result marshalOrPanic_def go_defs accepted_def
  readResponse_def mkMessage_def word_sless_alt Let_def

lemma exArg: "Uint64 [0, 0, 0, 0, 0, 0, 0, 5] = 5"
  by code_simp

theorem shim_stub_discipline_witness:
  "\<exists>s'. runCalls (shim_step exStubEnv) exStub exCalls = (zip exCalls [True, True, True, False], s') \<and>
     (CallDelta (''A'', ''t'', DeltaDescriptor_ADD, [0, 0, 0, 0, 0, 0, 0, 5], []), True) \<notin>
       set (drop 3 (zip exCalls [True, True, True, False]))"
proof -
  obtain log s' where run: "runCalls (shim_step exStubEnv) exStub exCalls = (log, s')" by fastforce
  then have log: "log = zip exCalls [True, True, True, False]"
    by (simp add: exStub_evals exArg)
  then have split: "log = take 2 (zip exCalls [True, True, True, False]) @
      (CallRead (RdGetState ''A''), True) # drop 3 (zip exCalls [True, True, True, False])"
    by (simp add: exCalls_def)
  have "(CallDelta (''A'', ''t'', DeltaDescriptor_ADD, [0, 0, 0, 0, 0, 0, 0, 5], []), True) \<notin>
       set (drop 3 (zip exCalls [True, True, True, False]))"
    by (rule conjunct1 [OF shim_stub_discipline [OF exStub_eq run], rule_format, OF split])
  then show ?thesis using run log by (intro exI [of _ s'] conjI) simp
qed

text \<open>
  C4 (what reaches the peer). Let \<open>sent\<close> read the messages the stream has taken, none at first,
  and let the encoding of PUT and DEL requests be injective. After any sequence of calls of the
  stub's methods (reads, plain writes, deltas, private writes, validation parameters, events), with
  whatever responses, send errors and panics: in the messages the peer was sent no delta comes after
  a read request, and no key has both a delta and a plain write or delete.
\<close>

theorem shim_wire_discipline:
  assumes "newChaincodeStub env h channelID txid input sp = Inr s" and "sent (h_chatStream h) = []"
    and "recordsSent env sent" and "marshalInjective env"
  shows "let log = sent (h_chatStream (cs_handler (runShim env s cs))) in
    deltasBeforeReads env log \<and>
    (\<forall>k. \<forall>m \<in> set log. \<forall>m' \<in> set log. \<not> (isDelta env k m \<and> isPlain env k m'))"
proof -
  have "wireInv env sent s"
    using newChaincodeStub_fresh [OF assms(1)] assms(2) by (simp add: wireInv_def deltasBeforeReads_def)
  from wireInv_run [OF assms(4,3) this] show ?thesis
    unfolding wireInv_def Let_def by blast
qed

theorem shim_wire_discipline_witness:
  "map cm_Type (h_chatStream (cs_handler (runShim exStubEnv exStub (map Inl exCalls)))) =
     [ChaincodeMessage_PUT_STATE, ChaincodeMessage_PUT_STATE, ChaincodeMessage_GET_STATE] \<and>
   deltasBeforeReads exStubEnv (h_chatStream (cs_handler (runShim exStubEnv exStub (map Inl exCalls))))"
proof
  show "map cm_Type (h_chatStream (cs_handler (runShim exStubEnv exStub (map Inl exCalls)))) =
     [ChaincodeMessage_PUT_STATE, ChaincodeMessage_PUT_STATE, ChaincodeMessage_GET_STATE]"
    by (simp add: runShim_def exStub_evals exArg)
  have "h_chatStream (newChaincodeHandler []) = ([] :: ChaincodeMessage list)" by (simp add: newChaincodeHandler_def)
  from shim_wire_discipline [of exStubEnv _ _ _ _ _ _ "\<lambda>w. w", OF exStub_eq this exStub_records exMarshal_injective]
  show "deltasBeforeReads exStubEnv (h_chatStream (cs_handler (runShim exStubEnv exStub (map Inl exCalls))))"
    by (simp add: Let_def)
qed

end
