(* ===== verification/Endorse.thy ===== *)
theory Endorse
  imports Stub_Contract
begin

text \<open>
  \<open>fabric-core/endorse.go\<close>: building a canonical delta descriptor and the strict
  endorsement-time stub (no delta after a read, no plain write and delta on the same key).
\<close>

section \<open>Descriptors\<close>

definition BuildDescriptor :: "string \<Rightarrow> Op \<Rightarrow> int64 \<Rightarrow> bytes \<Rightarrow> td_error + DeltaDescriptor" where
  "BuildDescriptor typeID op arg schemaVersion =
     (if arg <s 0 then Inl ErrNegativeArg
      else
        (case (if op = OpAdd then Some DeltaDescriptor_ADD
               else if op = OpSub then Some DeltaDescriptor_SUB else None) of
           None \<Rightarrow> Inl ErrUnknownOp
         | Some pop \<Rightarrow>
             (let sv = (if length schemaVersion > 0 then schemaVersion else [])
              in Inr \<lparr>dd_TypeId = typeID, dd_SchemaVersion = sv, dd_Op = pop,
                      dd_Arg = MarshalInt64 arg\<rparr>)))"

section \<open>The stub\<close>

record DeltaWrite =
  dw_Key :: string
  dw_Delta :: DeltaDescriptor

text \<open>The Go maps to \<open>bool\<close> only ever store \<open>true\<close>: they are sets.\<close>

record Stub =
  s_typeID :: string
  s_schemaVersion :: bytes
  s_allowedOps :: "Op set"
  s_didRead :: bool
  s_plainKeys :: "string set"
  s_deltaKeys :: "string set"
  s_writes :: "DeltaWrite list"

definition NewStub :: "string \<Rightarrow> bytes \<Rightarrow> Op list \<Rightarrow> Stub" where
  "NewStub typeID schemaVersion allowed =
     \<lparr>s_typeID = typeID, s_schemaVersion = schemaVersion, s_allowedOps = set allowed,
      s_didRead = False, s_plainKeys = {}, s_deltaKeys = {}, s_writes = []\<rparr>"

definition Stub_GetState :: "string \<Rightarrow> Stub \<Rightarrow> Stub" where
  "Stub_GetState key s = s\<lparr>s_didRead := True\<rparr>"

definition Stub_RangeQuery :: "Stub \<Rightarrow> Stub" where
  "Stub_RangeQuery s = s\<lparr>s_didRead := True\<rparr>"

definition Stub_RichQuery :: "Stub \<Rightarrow> Stub" where
  "Stub_RichQuery s = s\<lparr>s_didRead := True\<rparr>"

definition Stub_PutState :: "string \<Rightarrow> Stub \<Rightarrow> td_error option \<times> Stub" where
  "Stub_PutState key s =
     (if key \<in> s_deltaKeys s then (Some ErrPlainAndDelta, s)
      else (None, s\<lparr>s_plainKeys := insert key (s_plainKeys s)\<rparr>))"

definition Stub_PutDelta :: "string \<Rightarrow> Op \<Rightarrow> int64 \<Rightarrow> Stub \<Rightarrow> td_error option \<times> Stub" where
  "Stub_PutDelta key op arg s =
     (if s_didRead s then (Some ErrReadBeforeDelta, s)
      else if key \<in> s_plainKeys s then (Some ErrPlainAndDelta, s)
      else if op \<notin> s_allowedOps s then (Some ErrOpNotAllowed, s)
      else
        (case BuildDescriptor (s_typeID s) op arg (s_schemaVersion s) of
           Inl err \<Rightarrow> (Some err, s)
         | Inr d \<Rightarrow>
             (None, s\<lparr>s_writes := s_writes s @ [\<lparr>dw_Key = key, dw_Delta = d\<rparr>],
                      s_deltaKeys := insert key (s_deltaKeys s)\<rparr>)))"

definition Stub_Writes :: "Stub \<Rightarrow> DeltaWrite list" where
  "Stub_Writes s = s_writes s"

section \<open>The stub keeps the contract\<close>

text \<open>
  The three read methods as one call: a point read, a range query or a rich query.
\<close>

datatype stub_read = RGetState string | RRangeQuery | RRichQuery

fun Stub_step :: "Stub \<Rightarrow> (stub_read, string, string \<times> Op \<times> int64) stub_call \<Rightarrow> bool \<times> Stub" where
  "Stub_step s (CallRead (RGetState key)) = (True, Stub_GetState key s)"
| "Stub_step s (CallRead RRangeQuery) = (True, Stub_RangeQuery s)"
| "Stub_step s (CallRead RRichQuery) = (True, Stub_RichQuery s)"
| "Stub_step s (CallPlain key) = (case Stub_PutState key s of (err, s') \<Rightarrow> (err = None, s'))"
| "Stub_step s (CallDelta (key, op, arg)) =
     (case Stub_PutDelta key op arg s of (err, s') \<Rightarrow> (err = None, s'))"

lemmas Stub_defs = Stub_GetState_def Stub_RangeQuery_def Stub_RichQuery_def Stub_PutState_def
  Stub_PutDelta_def

lemma Stub_PutDelta_accept:
  "Stub_PutDelta key op arg s = (None, s') \<longleftrightarrow>
     \<not> s_didRead s \<and> key \<notin> s_plainKeys s \<and> op \<in> s_allowedOps s \<and>
     (\<exists>d. BuildDescriptor (s_typeID s) op arg (s_schemaVersion s) = Inr d \<and>
        s' = s\<lparr>s_writes := s_writes s @ [\<lparr>dw_Key = key, dw_Delta = d\<rparr>],
               s_deltaKeys := insert key (s_deltaKeys s)\<rparr>)"
  by (auto simp: Stub_PutDelta_def split: sum.splits)

interpretation estub: delta_stub Stub_step s_didRead s_plainKeys s_deltaKeys id fst
proof
  fix s s' :: Stub and r ok
  assume "Stub_step s (CallRead r) = (ok, s')"
  then show "s_didRead s' \<and> s_plainKeys s' = s_plainKeys s \<and> s_deltaKeys s' = s_deltaKeys s"
    by (cases r) (auto simp: Stub_defs)
qed (auto simp: Stub_defs split: if_splits sum.splits)

section \<open>Well-formed descriptors\<close>

text \<open>What every recorded write carries: the stub's type and version and an allowed operation
  with a non-negative canonical magnitude.\<close>

definition descriptorFor :: "Stub \<Rightarrow> DeltaDescriptor \<Rightarrow> bool" where
  "descriptorFor s d \<longleftrightarrow>
     dd_TypeId d = s_typeID s \<and> dd_SchemaVersion d = s_schemaVersion s \<and>
     (dd_Op d = DeltaDescriptor_ADD \<and> OpAdd \<in> s_allowedOps s \<or>
      dd_Op d = DeltaDescriptor_SUB \<and> OpSub \<in> s_allowedOps s) \<and>
     (\<exists>arg. dd_Arg d = MarshalInt64 arg \<and> 0 \<le> sint arg)"

lemma BuildDescriptor_Inr:
  "BuildDescriptor typeID op arg ver = Inr d \<longleftrightarrow>
     0 \<le> sint arg \<and> (op = OpAdd \<or> op = OpSub) \<and>
     d = \<lparr>dd_TypeId = typeID, dd_SchemaVersion = ver,
          dd_Op = (if op = OpAdd then DeltaDescriptor_ADD else DeltaDescriptor_SUB),
          dd_Arg = MarshalInt64 arg\<rparr>"
  by (auto simp: BuildDescriptor_def word_sless_iff Let_def)

definition stubInv :: "Stub \<Rightarrow> bool" where
  "stubInv s \<longleftrightarrow>
     s_plainKeys s \<inter> s_deltaKeys s = {} \<and> s_deltaKeys s = dw_Key ` set (s_writes s) \<and>
     (\<forall>w \<in> set (s_writes s). descriptorFor s (dw_Delta w))"

lemma stubInv_NewStub [simp]: "stubInv (NewStub t v ops)"
  by (simp add: stubInv_def NewStub_def)

lemma stubInv_step: "stubInv s \<Longrightarrow> Stub_step s c = (ok, s') \<Longrightarrow> stubInv s'"
proof (cases c)
  case (CallRead r)
  then show "stubInv s \<Longrightarrow> Stub_step s c = (ok, s') \<Longrightarrow> stubInv s'"
    by (cases r) (auto simp: Stub_defs stubInv_def descriptorFor_def)
next
  case (CallDelta d)
  then show "stubInv s \<Longrightarrow> Stub_step s c = (ok, s') \<Longrightarrow> stubInv s'"
    by (cases d) (auto simp: Stub_PutDelta_def BuildDescriptor_Inr stubInv_def descriptorFor_def
        split: if_splits sum.splits)
next
  case (CallPlain key)
  then show "stubInv s \<Longrightarrow> Stub_step s c = (ok, s') \<Longrightarrow> stubInv s'"
    by (auto simp only: stubInv_def descriptorFor_def Stub_step.simps Stub_PutState_def split: if_splits)
       (auto simp: image_iff)
qed

lemma stubInv_run: "runCalls Stub_step s cs = (log, s') \<Longrightarrow> stubInv s \<Longrightarrow> stubInv s'"
  by (induction cs arbitrary: s log) (auto split: prod.splits dest: stubInv_step)

section \<open>Properties of the endorsement stub\<close>

text \<open>
  C8 (stub discipline). On a fresh stub, for every sequence of calls: no \<open>PutDelta\<close> is
  accepted after any read (point, range or rich query), and no key is accepted both as a plain
  write and as a delta, in either order.
\<close>

theorem endorse_stub_discipline:
  assumes "runCalls Stub_step (NewStub typeID ver allowed) cs = (log, s')"
  shows "(\<forall>l1 r ok l2 d. log = l1 @ (CallRead r, ok) # l2 \<longrightarrow> (CallDelta d, True) \<notin> set l2) \<and>
    (\<forall>key op arg. (CallPlain key, True) \<in> set log \<longrightarrow> (CallDelta (key, op, arg), True) \<notin> set log)"
  using estub.no_delta_after_read estub.no_key_conflict [OF assms] assms
  by (fastforce simp: NewStub_def)

theorem endorse_stub_discipline_witness:
  "\<exists>log s'. runCalls Stub_step (NewStub ''t'' [] [OpAdd, OpSub])
     [CallDelta (''A'', OpSub, 10), CallPlain ''A'', CallRead RRangeQuery, CallDelta (''B'', OpAdd, 10)]
     = (log, s') \<and> (CallDelta (''A'', OpSub, 10), True) \<in> set log \<and> (CallPlain ''A'', True) \<notin> set log \<and>
     (CallDelta (''B'', OpAdd, 10), True) \<notin> set log"
proof -
  let ?cs = "[CallDelta (''A'', OpSub, 10), CallPlain ''A'', CallRead RRangeQuery, CallDelta (''B'', OpAdd, 10)]"
  obtain log s' where r: "runCalls Stub_step (NewStub ''t'' [] [OpAdd, OpSub]) ?cs = (log, s')"
    by fastforce
  have "log = [(CallDelta (''A'', OpSub, 10), True), (CallPlain ''A'', False),
      (CallRead RRangeQuery, True), (CallDelta (''B'', OpAdd, 10), False)]"
    using r by (simp add: NewStub_def Stub_defs BuildDescriptor_def word_sless_alt Let_def)
  then show ?thesis using endorse_stub_discipline [OF r] r by auto
qed

text \<open>
  C16 (recorded writes are well formed). After any sequence of calls on a fresh stub, the keys of
  the recorded delta writes are exactly the delta keys, none of them is a plain key, and each
  write carries the stub's type id and schema version, an operation the stub allows and the
  canonical encoding of a non-negative magnitude.
\<close>

theorem endorse_writes_wellformed:
  assumes "runCalls Stub_step (NewStub typeID ver allowed) cs = (log, s')"
    and "w \<in> set (Stub_Writes s')"
  shows "dw_Key w \<in> s_deltaKeys s' \<and> dw_Key w \<notin> s_plainKeys s' \<and> descriptorFor s' (dw_Delta w)"
proof -
  have "stubInv s'" using stubInv_run [OF assms(1)] by simp
  then show ?thesis using assms(2) by (auto simp: stubInv_def Stub_Writes_def)
qed

theorem endorse_writes_wellformed_witness:
  "\<exists>s' w. snd (runCalls Stub_step (NewStub ''t'' [] [OpAdd]) [CallDelta (''A'', OpAdd, 1)]) = s' \<and>
     w \<in> set (Stub_Writes s') \<and> descriptorFor s' (dw_Delta w)"
proof -
  let ?w = "\<lparr>dw_Key = ''A'', dw_Delta = \<lparr>dd_TypeId = ''t'', dd_SchemaVersion = [],
      dd_Op = DeltaDescriptor_ADD, dd_Arg = MarshalInt64 1\<rparr>\<rparr>"
  obtain log s' where r: "runCalls Stub_step (NewStub ''t'' [] [OpAdd]) [CallDelta (''A'', OpAdd, 1)] = (log, s')"
    by fastforce
  then have "?w \<in> set (Stub_Writes s')"
    by (auto simp: NewStub_def Stub_defs BuildDescriptor_def word_sless_alt Let_def Stub_Writes_def)
  with endorse_writes_wellformed [OF r this] r show ?thesis by auto
qed

end
