(* ===== verification/Validation.thy ===== *)
theory Validation
  imports Rwset
begin

text \<open>
  \<open>fabric-core/typeddelta_hooks.go\<close>: the commit-time hooks. Schema records and their lookup,
  the structural checks on a transaction's writes, the ordered-prefix invariant check
  (\<open>validateTypedDeltaTx\<close>) and the materialisation of the folded deltas
  (\<open>applyTypedDeltas\<close>).

  Code outside \<open>src/\<close> appears as arguments: the pending batch (\<open>updates.publicUpdates.Get\<close>)
  and the state database (\<open>db.GetState\<close>) as lookup functions, \<open>json.Unmarshal\<close> into a
  schema as \<open>unmarshal\<close>, and \<open>txOps.upsert\<close> as \<open>upsert\<close>. Loops over Go maps take the
  iteration order as an argument.
\<close>

section \<open>Schemas\<close>

definition typedDeltaSchemaKeyPrefix :: string where
  "typedDeltaSchemaKeyPrefix = ''typeddelta~schema~''"

definition schemaStorageKey :: "string \<Rightarrow> string" where
  "schemaStorageKey dataKey =
     typedDeltaSchemaKeyPrefix @ RawURLEncodeToString (bytes_of_string dataKey)"

definition shouldSkipTypedDeltaSchemaLookup :: "string \<Rightarrow> string \<Rightarrow> bool" where
  "shouldSkipTypedDeltaSchemaLookup ns key \<longleftrightarrow> ns = ''''"

record storedSchema =
  sc_TypeID :: string
  sc_AllowedOps :: "int32 list"
  sc_Invariant :: string
  sc_Lo :: int64
  sc_Hi :: int64
  sc_Version :: string

text \<open>
  Errors: the package's sentinels, the three messages built with \<open>fmt.Errorf\<close> (kept as the
  values they print), and errors handed up from the database and from \<open>json\<close>.
\<close>

datatype hook_error = TdError td_error | InvalidRangeSchema int64 int64 | UnknownInvariant string
  | UnsupportedOp DeltaDescriptor_Op | DbError string | JsonError string

definition schema_invariant :: "storedSchema \<Rightarrow> hook_error + Invariant" where
  "schema_invariant s =
     (if sc_Invariant s = ''NONNEG'' then Inr NonNeg
      else if sc_Invariant s = ''RANGE'' then
        (if sc_Hi s <s sc_Lo s then Inl (InvalidRangeSchema (sc_Lo s) (sc_Hi s))
         else Inr (Range (sc_Lo s) (sc_Hi s)))
      else Inl (UnknownInvariant (sc_Invariant s)))"

text \<open>\<open>typeddelta.Op(a)\<close> converts an \<open>int32\<close> to a \<open>uint8\<close>: it keeps the low byte.\<close>

fun allowsOp_loop :: "int32 list \<Rightarrow> Op \<Rightarrow> bool" where
  "allowsOp_loop [] op \<longleftrightarrow> False"
| "allowsOp_loop (a # as) op \<longleftrightarrow> (if ucast a = op then True else allowsOp_loop as op)"

definition allowsOp :: "storedSchema \<Rightarrow> Op \<Rightarrow> bool" where
  "allowsOp s op = allowsOp_loop (sc_AllowedOps s) op"

text \<open>\<open>schemaLookup\<close>: an error, no schema, or the schema of a key.\<close>

type_synonym schemaLookup = "string \<Rightarrow> string \<Rightarrow> hook_error + storedSchema option"

text \<open>A versioned value of the state database or of the pending batch; only its bytes are read.\<close>

record VersionedValue =
  vv_Value :: bytes

type_synonym publicUpdates = "string \<Rightarrow> string \<Rightarrow> VersionedValue option"
type_synonym stateDB = "string \<Rightarrow> string \<Rightarrow> string + VersionedValue option"

record validator =
  v_db :: stateDB
  v_typedDeltaEnabled :: bool

text \<open>
  The read both \<open>stateSchemaLookup\<close> and \<open>currentInt64\<close> begin with: the pending batch first, then
  the database.
\<close>

definition pendingOrCommitted ::
  "publicUpdates \<Rightarrow> stateDB \<Rightarrow> string \<Rightarrow> string \<Rightarrow> hook_error + VersionedValue option" where
  "pendingOrCommitted updates db ns key =
     (case updates ns key of
        Some vv \<Rightarrow> Inr (Some vv)
      | None \<Rightarrow> (case db ns key of Inl err \<Rightarrow> Inl (DbError err) | Inr vv \<Rightarrow> Inr vv))"

definition stateSchemaLookup ::
  "(bytes \<Rightarrow> string + storedSchema) \<Rightarrow> validator \<Rightarrow> publicUpdates \<Rightarrow> schemaLookup" where
  "stateSchemaLookup unmarshal v updates ns key =
     (if shouldSkipTypedDeltaSchemaLookup ns key then Inr None
      else
        (case pendingOrCommitted updates (v_db v) ns (schemaStorageKey key) of
           Inl err \<Rightarrow> Inl err
         | Inr None \<Rightarrow> Inr None
         | Inr (Some vv) \<Rightarrow>
             if length (vv_Value vv) = 0 then Inr None
             else (case unmarshal (vv_Value vv) of
                     Inl err \<Rightarrow> Inl (JsonError err)
                   | Inr s \<Rightarrow> Inr (Some s))))"

section \<open>Structural checks\<close>

definition toDelta :: "DeltaDescriptor \<Rightarrow> hook_error + Delta" where
  "toDelta d =
     (case (case dd_Op d of
              DeltaDescriptor_ADD \<Rightarrow> Inr OpAdd
            | DeltaDescriptor_SUB \<Rightarrow> Inr OpSub
            | DeltaDescriptor_OTHER n \<Rightarrow> Inl (UnsupportedOp (dd_Op d))) of
        Inl err \<Rightarrow> Inl err
      | Inr op \<Rightarrow>
          (case UnmarshalInt64 (dd_Arg d) of
             Inl err \<Rightarrow> Inl (TdError err)
           | Inr arg \<Rightarrow> Inr \<lparr>d_Op = op, d_Arg = arg\<rparr>))"

fun hasDelta_loop :: "(string \<times> KVWrite) list \<Rightarrow> bool" where
  "hasDelta_loop [] \<longleftrightarrow> False"
| "hasDelta_loop ((ns, w) # ws) \<longleftrightarrow> (if w_Delta w \<noteq> None then True else hasDelta_loop ws)"

definition txHasDeltaWrites :: "KVRWSet TxRwSet \<Rightarrow> bool" where
  "txHasDeltaWrites tx = hasDelta_loop (allWrites tx)"

fun touches_loop :: "schemaLookup \<Rightarrow> (string \<times> KVWrite) list \<Rightarrow> hook_error + bool" where
  "touches_loop lookup [] = Inr False"
| "touches_loop lookup ((ns, w) # ws) =
     (if w_Delta w \<noteq> None then Inr True
      else
        (case lookup ns (w_Key w) of
           Inl err \<Rightarrow> Inl err
         | Inr (Some _) \<Rightarrow> Inr True
         | Inr None \<Rightarrow> touches_loop lookup ws))"

definition txTouchesTypedState :: "KVRWSet TxRwSet \<Rightarrow> schemaLookup \<Rightarrow> hook_error + bool" where
  "txTouchesTypedState tx lookup = touches_loop lookup (allWrites tx)"

text \<open>
  One namespace of \<open>malformedTypedWrites\<close>: the first loop fills \<open>hasDelta\<close> and
  \<open>hasNonDelta\<close> and may return early (\<open>None\<close>), the second looks for a key in both.
\<close>

fun malformed_loop :: "string set \<Rightarrow> string set \<Rightarrow> KVWrite list \<Rightarrow> (string set \<times> string set) option" where
  "malformed_loop hasDelta hasNonDelta [] = Some (hasDelta, hasNonDelta)"
| "malformed_loop hasDelta hasNonDelta (w # ws) =
     (if w_Delta w \<noteq> None then
        (if length (w_Value w) \<noteq> 0 \<or> w_IsDelete w then None
         else malformed_loop (insert (w_Key w) hasDelta) hasNonDelta ws)
      else malformed_loop hasDelta (insert (w_Key w) hasNonDelta) ws)"

definition malformed_ns :: "KVRWSet NsRwSet \<Rightarrow> bool" where
  "malformed_ns nsRW =
     (case malformed_loop {} {} (Writes (KvRwSet nsRW)) of
        None \<Rightarrow> True
      | Some (hasDelta, hasNonDelta) \<Rightarrow> (\<exists>k \<in> hasDelta. k \<in> hasNonDelta))"

fun malformed_nss :: "KVRWSet NsRwSet list \<Rightarrow> bool" where
  "malformed_nss [] \<longleftrightarrow> False"
| "malformed_nss (nsRW # r) \<longleftrightarrow> (if malformed_ns nsRW then True else malformed_nss r)"

definition malformedTypedWrites :: "KVRWSet TxRwSet \<Rightarrow> bool" where
  "malformedTypedWrites tx = malformed_nss (NsRwSets tx)"

fun plainValid_loop :: "schemaLookup \<Rightarrow> (string \<times> KVWrite) list \<Rightarrow> hook_error + bool" where
  "plainValid_loop lookup [] = Inr True"
| "plainValid_loop lookup ((ns, w) # ws) =
     (if w_Delta w \<noteq> None then plainValid_loop lookup ws
      else
        (case lookup ns (w_Key w) of
           Inl err \<Rightarrow> Inl err
         | Inr None \<Rightarrow> plainValid_loop lookup ws
         | Inr (Some sc) \<Rightarrow>
             (case schema_invariant sc of
                Inl _ \<Rightarrow> Inr False
              | Inr inva \<Rightarrow>
                  if w_IsDelete w then
                    (if \<not> Holds inva 0 then Inr False else plainValid_loop lookup ws)
                  else
                    (case UnmarshalInt64 (w_Value w) of
                       Inl _ \<Rightarrow> Inr False
                     | Inr val \<Rightarrow>
                         if \<not> Holds inva val then Inr False else plainValid_loop lookup ws))))"

definition plainTypedWritesValid :: "KVRWSet TxRwSet \<Rightarrow> schemaLookup \<Rightarrow> hook_error + bool" where
  "plainTypedWritesValid tx lookup = plainValid_loop lookup (allWrites tx)"

section \<open>Folding, validating, applying\<close>

record compositeKey =
  ck_ns :: string
  ck_coll :: string
  ck_key :: string

abbreviation pubKey :: "string \<Rightarrow> string \<Rightarrow> compositeKey" where
  "pubKey ns key \<equiv> \<lparr>ck_ns = ns, ck_coll = '''', ck_key = key\<rparr>"

type_synonym foldedDeltas = "(compositeKey \<times> Delta list) list"

fun foldPublic_loop :: "foldedDeltas \<Rightarrow> (string \<times> KVWrite) list \<Rightarrow> hook_error + foldedDeltas" where
  "foldPublic_loop out [] = Inr out"
| "foldPublic_loop out ((ns, w) # ws) =
     (case w_Delta w of
        None \<Rightarrow> foldPublic_loop out ws
      | Some dd \<Rightarrow>
          (case toDelta dd of
             Inl err \<Rightarrow> Inl err
           | Inr d \<Rightarrow> foldPublic_loop (appendAt (pubKey ns (w_Key w)) d out) ws))"

definition foldPublicDeltas :: "KVRWSet TxRwSet \<Rightarrow> hook_error + foldedDeltas" where
  "foldPublicDeltas tx = foldPublic_loop [] (allWrites tx)"

definition currentInt64 ::
  "string \<Rightarrow> string \<Rightarrow> publicUpdates \<Rightarrow> stateDB \<Rightarrow> hook_error + int64" where
  "currentInt64 ns key updates db =
     (case pendingOrCommitted updates db ns key of
        Inl err \<Rightarrow> Inl err
      | Inr None \<Rightarrow> Inr 0
      | Inr (Some vv) \<Rightarrow>
          if length (vv_Value vv) = 0 then Inr 0
          else (case UnmarshalInt64 (vv_Value vv) of
                  Inl err \<Rightarrow> Inl (TdError err) | Inr v \<Rightarrow> Inr v))"

text \<open>The two codes \<open>validateTypedDeltaTx\<close> returns with a nil error.\<close>

datatype TxValidationCode = VALID | INVALID_OTHER_REASON

text \<open>
  \<open>Inl\<close> is a return with a non-nil error (code \<open>-1\<close>), \<open>Inr\<close> a code with a nil error. The
  loops either return early (\<open>Inl verdict\<close>) or hand on what they built.
\<close>

type_synonym verdict = "hook_error + TxValidationCode"

fun collect_loop ::
  "schemaLookup \<Rightarrow> foldedDeltas \<Rightarrow> (compositeKey \<rightharpoonup> storedSchema) \<Rightarrow> (string \<times> KVWrite) list \<Rightarrow>
     verdict + foldedDeltas \<times> (compositeKey \<rightharpoonup> storedSchema)" where
  "collect_loop lookup folded schemas [] = Inr (folded, schemas)"
| "collect_loop lookup folded schemas ((ns, w) # ws) =
     (case w_Delta w of
        None \<Rightarrow> collect_loop lookup folded schemas ws
      | Some dd \<Rightarrow>
          (case lookup ns (w_Key w) of
             Inl err \<Rightarrow> Inl (Inl err)
           | Inr None \<Rightarrow> Inl (Inr INVALID_OTHER_REASON)
           | Inr (Some sc) \<Rightarrow>
               if dd_TypeId dd \<noteq> sc_TypeID sc then Inl (Inr INVALID_OTHER_REASON)
               else if dd_SchemaVersion dd \<noteq> bytes_of_string (sc_Version sc)
               then Inl (Inr INVALID_OTHER_REASON)
               else
                 (case toDelta dd of
                    Inl err \<Rightarrow> Inl (Inr INVALID_OTHER_REASON)
                  | Inr d \<Rightarrow>
                      if \<not> allowsOp sc (d_Op d) then Inl (Inr INVALID_OTHER_REASON)
                      else
                        (let k = pubKey ns (w_Key w)
                         in collect_loop lookup (appendAt k d folded) (schemas(k \<mapsto> sc)) ws))))"

text \<open>The loop over \<open>folded\<close>, along the keys in the order the runtime chose.\<close>

fun check_loop ::
  "publicUpdates \<Rightarrow> stateDB \<Rightarrow> foldedDeltas \<Rightarrow> (compositeKey \<rightharpoonup> storedSchema) \<Rightarrow> compositeKey list \<Rightarrow>
     verdict option" where
  "check_loop updates db folded schemas [] = None"
| "check_loop updates db folded schemas (k # ks) =
     (case currentInt64 (ck_ns k) (ck_key k) updates db of
        Inl err \<Rightarrow> Some (Inl err)
      | Inr cur \<Rightarrow>
          (case Apply cur (sliceAt folded k) of
             Inl err \<Rightarrow> Some (Inr INVALID_OTHER_REASON)
           | Inr next' \<Rightarrow>
               (case schema_invariant (the (schemas k)) of
                  Inl ierr \<Rightarrow> Some (Inr INVALID_OTHER_REASON)
                | Inr inva \<Rightarrow>
                    if \<not> Holds inva next' then Some (Inr INVALID_OTHER_REASON)
                    else check_loop updates db folded schemas ks)))"

definition validateTypedDeltaTx ::
  "(compositeKey list \<Rightarrow> compositeKey list) \<Rightarrow> validator \<Rightarrow> KVRWSet TxRwSet \<Rightarrow> publicUpdates \<Rightarrow>
     schemaLookup \<Rightarrow> verdict" where
  "validateTypedDeltaTx ord v tx updates lookup =
     (if malformedTypedWrites tx then Inr INVALID_OTHER_REASON
      else if \<not> v_typedDeltaEnabled v then Inr INVALID_OTHER_REASON
      else
        (case collect_loop lookup [] Map.empty (allWrites tx) of
           Inl r \<Rightarrow> r
         | Inr (folded, schemas) \<Rightarrow>
             (case check_loop updates (v_db v) folded schemas (ord (map fst folded)) of
                Some r \<Rightarrow> r
              | None \<Rightarrow>
                  (case plainTypedWritesValid tx lookup of
                     Inl err \<Rightarrow> Inl err
                   | Inr ok \<Rightarrow> if \<not> ok then Inr INVALID_OTHER_REASON else Inr VALID))))"

text \<open>
  \<open>applyTypedDeltas\<close> updates the operations map in place: what was written before an error stays,
  so both the error and the resulting map are returned.
\<close>

fun apply_loop ::
  "(compositeKey \<Rightarrow> bytes \<Rightarrow> 'ops \<Rightarrow> 'ops) \<Rightarrow> publicUpdates \<Rightarrow> stateDB \<Rightarrow> foldedDeltas \<Rightarrow> 'ops \<Rightarrow>
     compositeKey list \<Rightarrow> hook_error option \<times> 'ops" where
  "apply_loop upsert updates db folded txops [] = (None, txops)"
| "apply_loop upsert updates db folded txops (k # ks) =
     (case currentInt64 (ck_ns k) (ck_key k) updates db of
        Inl err \<Rightarrow> (Some err, txops)
      | Inr cur \<Rightarrow>
          (case Apply cur (sliceAt folded k) of
             Inl err \<Rightarrow> (Some (TdError err), txops)
           | Inr next' \<Rightarrow>
               apply_loop upsert updates db folded (upsert k (MarshalInt64 next') txops) ks))"

definition applyTypedDeltas ::
  "(compositeKey list \<Rightarrow> compositeKey list) \<Rightarrow> (compositeKey \<Rightarrow> bytes \<Rightarrow> 'ops \<Rightarrow> 'ops) \<Rightarrow> 'ops \<Rightarrow>
     KVRWSet TxRwSet \<Rightarrow> publicUpdates \<Rightarrow> stateDB \<Rightarrow> hook_error option \<times> 'ops" where
  "applyTypedDeltas ord upsert txops rwset precedingUpdates db =
     (case foldPublicDeltas rwset of
        Inl err \<Rightarrow> (Some err, txops)
      | Inr folded \<Rightarrow> apply_loop upsert precedingUpdates db folded txops (ord (map fst folded)))"

section \<open>What the loops compute\<close>

lemma txHasDeltaWrites_iff:
  "txHasDeltaWrites tx \<longleftrightarrow> (\<exists>(ns, w) \<in> set (allWrites tx). w_Delta w \<noteq> None)"
proof -
  have "hasDelta_loop ws \<longleftrightarrow> (\<exists>(ns, w) \<in> set ws. w_Delta w \<noteq> None)" for ws
    by (induction ws rule: hasDelta_loop.induct) auto
  then show ?thesis by (simp add: txHasDeltaWrites_def)
qed

lemma malformed_loop_spec:
  "malformed_loop D P ws =
     (if \<exists>w \<in> set ws. w_Delta w \<noteq> None \<and> (w_Value w \<noteq> [] \<or> w_IsDelete w) then None
      else Some (D \<union> {w_Key w | w. w \<in> set ws \<and> w_Delta w \<noteq> None},
                 P \<union> {w_Key w | w. w \<in> set ws \<and> w_Delta w = None}))"
  by (induction D P ws rule: malformed_loop.induct) auto

lemma malformed_ns_iff:
  "malformed_ns n \<longleftrightarrow>
     (\<exists>w \<in> set (Writes (KvRwSet n)). w_Delta w \<noteq> None \<and>
        (w_Value w \<noteq> [] \<or> w_IsDelete w \<or>
         (\<exists>p \<in> set (Writes (KvRwSet n)). w_Delta p = None \<and> w_Key p = w_Key w)))"
  unfolding malformed_ns_def malformed_loop_spec by (auto split: if_splits) metis

lemma malformedTypedWrites_iff:
  "malformedTypedWrites tx \<longleftrightarrow> (\<exists>n \<in> set (NsRwSets tx). malformed_ns n)"
proof -
  have "malformed_nss ns \<longleftrightarrow> (\<exists>n \<in> set ns. malformed_ns n)" for ns
    by (induction ns rule: malformed_nss.induct) auto
  then show ?thesis by (simp add: malformedTypedWrites_def)
qed

text \<open>The deltas a transaction holds for one key, in write order.\<close>

fun deltasOf :: "compositeKey \<Rightarrow> (string \<times> KVWrite) list \<Rightarrow> Delta list" where
  "deltasOf k [] = []"
| "deltasOf k ((ns, w) # ws) =
     (case w_Delta w of
        None \<Rightarrow> deltasOf k ws
      | Some dd \<Rightarrow>
          (case toDelta dd of
             Inl _ \<Rightarrow> deltasOf k ws
           | Inr d \<Rightarrow> (if pubKey ns (w_Key w) = k then d # deltasOf k ws else deltasOf k ws)))"

definition deltaKeysOf :: "(string \<times> KVWrite) list \<Rightarrow> compositeKey set" where
  "deltaKeysOf ws = {pubKey ns (w_Key w) | ns w. (ns, w) \<in> set ws \<and> w_Delta w \<noteq> None}"

lemma deltaKeysOf_simps [simp]:
  "deltaKeysOf [] = {}"
  "deltaKeysOf ((ns, w) # ws) =
     (if w_Delta w = None then deltaKeysOf ws else insert (pubKey ns (w_Key w)) (deltaKeysOf ws))"
  by (auto simp: deltaKeysOf_def)

lemma foldPublic_loop_Inr:
  "foldPublic_loop out ws = Inr f \<Longrightarrow>
     (\<forall>k. sliceAt f k = sliceAt out k @ deltasOf k ws) \<and>
     set (map fst f) = set (map fst out) \<union> deltaKeysOf ws \<and>
     (distinct (map fst out) \<longrightarrow> distinct (map fst f))"
proof (induction out ws rule: foldPublic_loop.induct)
  case (2 out ns w ws)
  show ?case
  proof (cases "w_Delta w")
    case None
    with 2 show ?thesis by simp
  next
    case (Some dd)
    with 2 obtain d where d: "toDelta dd = Inr d" by (auto split: sum.splits)
    with 2 Some have IH: "(\<forall>k. sliceAt f k = sliceAt (appendAt (pubKey ns (w_Key w)) d out) k @ deltasOf k ws) \<and>
        set (map fst f) = set (map fst (appendAt (pubKey ns (w_Key w)) d out)) \<union> deltaKeysOf ws \<and>
        (distinct (map fst (appendAt (pubKey ns (w_Key w)) d out)) \<longrightarrow> distinct (map fst f))"
      by simp
    with Some d show ?thesis
      using keys_appendAt [of "pubKey ns (w_Key w)" d out] by (auto simp del: set_map)
  qed
qed simp

lemma foldPublicDeltas_Inr:
  assumes "foldPublicDeltas tx = Inr f"
  shows "sliceAt f k = deltasOf k (allWrites tx)" "set (map fst f) = deltaKeysOf (allWrites tx)"
    "distinct (map fst f)"
  using foldPublic_loop_Inr [of "[]" "allWrites tx" f] assms by (auto simp: foldPublicDeltas_def)

text \<open>The checks \<open>validateTypedDeltaTx\<close> makes on a single delta write.\<close>

definition deltaWriteOk :: "schemaLookup \<Rightarrow> string \<Rightarrow> string \<Rightarrow> DeltaDescriptor \<Rightarrow> bool" where
  "deltaWriteOk lookup ns key dd \<longleftrightarrow>
     (\<exists>sc d. lookup ns key = Inr (Some sc) \<and> dd_TypeId dd = sc_TypeID sc \<and>
        dd_SchemaVersion dd = bytes_of_string (sc_Version sc) \<and> toDelta dd = Inr d \<and> allowsOp sc (d_Op d))"

definition deltasOk :: "schemaLookup \<Rightarrow> (string \<times> KVWrite) list \<Rightarrow> bool" where
  "deltasOk lookup ws \<longleftrightarrow>
     (\<forall>(ns, w) \<in> set ws. \<forall>dd. w_Delta w = Some dd \<longrightarrow> deltaWriteOk lookup ns (w_Key w) dd)"

lemma deltasOk_Cons [simp]:
  "deltasOk lookup [] "
  "deltasOk lookup ((ns, w) # ws) \<longleftrightarrow>
     (\<forall>dd. w_Delta w = Some dd \<longrightarrow> deltaWriteOk lookup ns (w_Key w) dd) \<and> deltasOk lookup ws"
  by (auto simp: deltasOk_def)

text \<open>Every schema the collecting loop records is the one the lookup gives for its key.\<close>

definition schemasFrom :: "schemaLookup \<Rightarrow> foldedDeltas \<Rightarrow> (compositeKey \<rightharpoonup> storedSchema) \<Rightarrow> bool" where
  "schemasFrom lookup f m \<longleftrightarrow>
     (\<forall>k \<in> set (map fst f). \<exists>sc. m k = Some sc \<and> lookup (ck_ns k) (ck_key k) = Inr (Some sc))"

lemma schemasFrom_append:
  "schemasFrom lookup f m \<Longrightarrow> lookup ns key = Inr (Some sc) \<Longrightarrow>
     schemasFrom lookup (appendAt (pubKey ns key) d f) (m(pubKey ns key \<mapsto> sc))"
  unfolding schemasFrom_def keys_appendAt by auto

lemma collect_loop_Inr:
  "collect_loop lookup f m ws = Inr (f', m') \<Longrightarrow> schemasFrom lookup f m \<Longrightarrow>
     deltasOk lookup ws \<and> foldPublic_loop f ws = Inr f' \<and> schemasFrom lookup f' m'"
proof (induction ws arbitrary: f m)
  case (Cons a ws)
  obtain ns w where a: "a = (ns, w)" by (cases a)
  show ?case
  proof (cases "w_Delta w")
    case None
    with Cons a show ?thesis by simp
  next
    case (Some dd)
    with Cons.prems(1) a obtain sc d where *: "lookup ns (w_Key w) = Inr (Some sc)" "dd_TypeId dd = sc_TypeID sc"
      "dd_SchemaVersion dd = bytes_of_string (sc_Version sc)" "toDelta dd = Inr d" "allowsOp sc (d_Op d)"
      and rest: "collect_loop lookup (appendAt (pubKey ns (w_Key w)) d f) (m(pubKey ns (w_Key w) \<mapsto> sc)) ws = Inr (f', m')"
      by (auto split: sum.splits option.splits if_splits simp: Let_def)
    have "deltasOk lookup ws \<and> foldPublic_loop (appendAt (pubKey ns (w_Key w)) d f) ws = Inr f' \<and> schemasFrom lookup f' m'"
      using Cons.IH [OF rest] Cons.prems(2) * schemasFrom_append by blast
    with Some * a show ?thesis by (auto simp: deltaWriteOk_def)
  qed
qed simp

lemma collect_loop_complete:
  "deltasOk lookup ws \<Longrightarrow> \<exists>f' m'. collect_loop lookup f m ws = Inr (f', m')"
proof (induction ws arbitrary: f m)
  case (Cons a ws)
  obtain ns w where a: "a = (ns, w)" by (cases a)
  show ?case
  proof (cases "w_Delta w")
    case None
    with Cons a show ?thesis by simp
  next
    case (Some dd)
    with Cons.prems a obtain sc d where "lookup ns (w_Key w) = Inr (Some sc)" "dd_TypeId dd = sc_TypeID sc"
      "dd_SchemaVersion dd = bytes_of_string (sc_Version sc)" "toDelta dd = Inr d" "allowsOp sc (d_Op d)"
      by (auto simp: deltaWriteOk_def)
    with Cons Some a show ?thesis by (simp add: Let_def)
  qed
qed simp

lemma collect_loop_iff:
  "(\<exists>f m. collect_loop lookup [] Map.empty ws = Inr (f, m)) \<longleftrightarrow> deltasOk lookup ws"
  using collect_loop_complete collect_loop_Inr [of lookup "[]" Map.empty ws]
  by (fastforce simp: schemasFrom_def)

section \<open>When a transaction is accepted\<close>

text \<open>Folding \<open>ds\<close> onto the current value of \<open>k\<close> keeps the invariant of \<open>sc\<close>.\<close>

definition keyAccepts ::
  "publicUpdates \<Rightarrow> stateDB \<Rightarrow> storedSchema \<Rightarrow> compositeKey \<Rightarrow> Delta list \<Rightarrow> bool" where
  "keyAccepts updates db sc k ds \<longleftrightarrow>
     (\<exists>cur v inva. currentInt64 (ck_ns k) (ck_key k) updates db = Inr cur \<and> Apply cur ds = Inr v \<and>
        schema_invariant sc = Inr inva \<and> Holds inva v)"

definition plainWriteOk :: "schemaLookup \<Rightarrow> string \<Rightarrow> KVWrite \<Rightarrow> bool" where
  "plainWriteOk lookup ns w \<longleftrightarrow>
     (\<exists>r. lookup ns (w_Key w) = Inr r \<and>
        (\<forall>sc. r = Some sc \<longrightarrow>
           (\<exists>inva. schema_invariant sc = Inr inva \<and>
              (if w_IsDelete w then Holds inva 0
               else \<exists>val. UnmarshalInt64 (w_Value w) = Inr val \<and> Holds inva val))))"

definition txAcceptable ::
  "validator \<Rightarrow> KVRWSet TxRwSet \<Rightarrow> publicUpdates \<Rightarrow> schemaLookup \<Rightarrow> bool" where
  "txAcceptable v tx updates lookup \<longleftrightarrow>
     v_typedDeltaEnabled v \<and> \<not> malformedTypedWrites tx \<and>
     (\<forall>(ns, w) \<in> set (allWrites tx). \<forall>dd. w_Delta w = Some dd \<longrightarrow> deltaWriteOk lookup ns (w_Key w) dd) \<and>
     (\<forall>k \<in> deltaKeysOf (allWrites tx). \<exists>sc. lookup (ck_ns k) (ck_key k) = Inr (Some sc) \<and>
        keyAccepts updates (v_db v) sc k (deltasOf k (allWrites tx))) \<and>
     (\<forall>(ns, w) \<in> set (allWrites tx). w_Delta w = None \<longrightarrow> plainWriteOk lookup ns w)"

lemma check_loop_None:
  "check_loop updates db f m ks = None \<longleftrightarrow>
     (\<forall>k \<in> set ks. keyAccepts updates db (the (m k)) k (sliceAt f k))"
  by (induction updates db f m ks rule: check_loop.induct)
     (auto simp: keyAccepts_def split: sum.splits)

lemma check_loop_Some:
  "check_loop updates db f m ks = Some r \<Longrightarrow>
     r = Inr INVALID_OTHER_REASON \<or>
     (\<exists>k \<in> set ks. \<exists>e. currentInt64 (ck_ns k) (ck_key k) updates db = Inl e \<and> r = Inl e)"
  by (induction updates db f m ks rule: check_loop.induct)
     (auto split: sum.splits if_splits)

lemma plainValid_loop_True:
  "plainValid_loop lookup ws = Inr True \<longleftrightarrow>
     (\<forall>(ns, w) \<in> set ws. w_Delta w = None \<longrightarrow> plainWriteOk lookup ns w)"
proof (induction lookup ws rule: plainValid_loop.induct)
  case (2 lookup ns w ws)
  then show ?case
    by (cases "w_Delta w") (auto simp: plainWriteOk_def split: sum.splits option.splits if_splits)
qed simp

lemma collect_loop_not_VALID: "collect_loop lookup f m ws = Inl r \<Longrightarrow> r \<noteq> Inr VALID"
  by (induction ws arbitrary: f m)
     (auto simp: Let_def split: sum.splits option.splits if_splits)

text \<open>What the collecting loop hands to the checking loop.\<close>

lemma collected:
  assumes "collect_loop lookup [] Map.empty (allWrites tx) = Inr (f, m)"
  shows "foldPublicDeltas tx = Inr f" "sliceAt f k = deltasOf k (allWrites tx)"
    "set (map fst f) = deltaKeysOf (allWrites tx)" "distinct (map fst f)"
    "k \<in> deltaKeysOf (allWrites tx) \<Longrightarrow>
       \<exists>sc. m k = Some sc \<and> lookup (ck_ns k) (ck_key k) = Inr (Some sc)"
proof -
  have c: "foldPublic_loop [] (allWrites tx) = Inr f" "schemasFrom lookup f m"
    using collect_loop_Inr [OF assms] by (simp_all add: schemasFrom_def)
  then show f: "foldPublicDeltas tx = Inr f" by (simp add: foldPublicDeltas_def)
  show "sliceAt f k = deltasOf k (allWrites tx)" "set (map fst f) = deltaKeysOf (allWrites tx)"
    "distinct (map fst f)"
    using foldPublicDeltas_Inr [OF f] by auto
  then show "k \<in> deltaKeysOf (allWrites tx) \<Longrightarrow>
       \<exists>sc. m k = Some sc \<and> lookup (ck_ns k) (ck_key k) = Inr (Some sc)"
    using c(2) unfolding schemasFrom_def by blast
qed

lemma check_collected:
  assumes c: "collect_loop lookup [] Map.empty (allWrites tx) = Inr (f, m)" and ord: "is_range_order ord"
  shows "check_loop updates db f m (ord (map fst f)) = None \<longleftrightarrow>
    (\<forall>k \<in> deltaKeysOf (allWrites tx). \<exists>sc. lookup (ck_ns k) (ck_key k) = Inr (Some sc) \<and>
        keyAccepts updates db sc k (deltasOf k (allWrites tx)))"
proof -
  have "set (ord (map fst f)) = deltaKeysOf (allWrites tx)"
    using is_range_orderD(2) [OF ord collected(4) [OF c]] collected(3) [OF c] by simp
  then show ?thesis
    using collected(2,5) [OF c] by (fastforce simp: check_loop_None)
qed

lemma validate_VALID_iff:
  assumes "is_range_order ord"
  shows "validateTypedDeltaTx ord v tx updates lookup = Inr VALID \<longleftrightarrow> txAcceptable v tx updates lookup"
proof (cases "malformedTypedWrites tx \<or> \<not> v_typedDeltaEnabled v")
  case True
  then show ?thesis by (auto simp: validateTypedDeltaTx_def txAcceptable_def)
next
  case False
  note nf = this
  show ?thesis
  proof (cases "collect_loop lookup [] Map.empty (allWrites tx)")
    case (Inl r)
    then have "\<not> deltasOk lookup (allWrites tx)" using collect_loop_iff [of lookup "allWrites tx"] by auto
    moreover have "r \<noteq> Inr VALID" using collect_loop_not_VALID Inl by blast
    ultimately show ?thesis using nf Inl
      by (auto simp: validateTypedDeltaTx_def txAcceptable_def deltasOk_def)
  next
    case (Inr fm)
    obtain f m where fm: "fm = (f, m)" by (cases fm)
    have "deltasOk lookup (allWrites tx)" using collect_loop_iff [of lookup "allWrites tx"] Inr fm by blast
    moreover have "validateTypedDeltaTx ord v tx updates lookup = Inr VALID \<longleftrightarrow>
        check_loop updates (v_db v) f m (ord (map fst f)) = None \<and>
        plainValid_loop lookup (allWrites tx) = Inr True"
      using nf Inr fm check_loop_Some [of updates "v_db v" f m "ord (map fst f)"]
      by (auto simp: validateTypedDeltaTx_def plainTypedWritesValid_def
          split: option.splits sum.splits if_splits)
    ultimately show ?thesis
      using nf unfolding check_collected [OF Inr [unfolded fm] assms] plainValid_loop_True
      by (simp add: txAcceptable_def deltasOk_def)
  qed
qed

lemma collect_loop_reject:
  "collect_loop lookup f m ws = Inl r \<Longrightarrow>
     r = Inr INVALID_OTHER_REASON \<or> (\<exists>(ns, w) \<in> set ws. \<exists>e. lookup ns (w_Key w) = Inl e \<and> r = Inl e)"
proof (induction ws arbitrary: f m)
  case (Cons a ws)
  obtain ns w where a: "a = (ns, w)" by (cases a)
  from Cons.prems a show ?case
    by (auto simp: Let_def dest: Cons.IH split: sum.splits option.splits if_splits)
qed simp

lemma plainValid_loop_Inl:
  "plainValid_loop lookup ws = Inl e \<Longrightarrow> \<exists>(ns, w) \<in> set ws. lookup ns (w_Key w) = Inl e"
proof (induction lookup ws rule: plainValid_loop.induct)
  case (2 lookup ns w ws)
  then show ?case
    by (cases "w_Delta w") (auto split: sum.splits option.splits if_splits)
qed simp

text \<open>An error verdict always comes from a schema lookup or from reading a current value.\<close>

lemma validate_Inl:
  assumes "validateTypedDeltaTx ord v tx updates lookup = Inl e" "is_range_order ord"
  shows "(\<exists>(ns, w) \<in> set (allWrites tx). lookup ns (w_Key w) = Inl e) \<or>
    (\<exists>k \<in> deltaKeysOf (allWrites tx). currentInt64 (ck_ns k) (ck_key k) updates (v_db v) = Inl e)"
proof (cases "collect_loop lookup [] Map.empty (allWrites tx)")
  case (Inl r)
  with assms(1) collect_loop_reject [OF Inl] show ?thesis
    by (auto simp: validateTypedDeltaTx_def split: if_splits)
next
  case (Inr fm)
  obtain f m where fm: "fm = (f, m)" by (cases fm)
  let ?ks = "ord (map fst f)"
  have ks: "set ?ks = deltaKeysOf (allWrites tx)"
    using is_range_orderD(2) [OF assms(2) collected(4) [OF Inr [unfolded fm]]]
      collected(3) [OF Inr [unfolded fm]] by simp
  show ?thesis
  proof (cases "check_loop updates (v_db v) f m ?ks")
    case None
    with assms(1) Inr fm plainValid_loop_Inl [of lookup "allWrites tx" e] show ?thesis
      by (auto simp: validateTypedDeltaTx_def plainTypedWritesValid_def split: if_splits sum.splits)
  next
    case (Some r)
    with assms(1) Inr fm check_loop_Some [OF Some] ks show ?thesis
      by (auto simp: validateTypedDeltaTx_def split: if_splits)
  qed
qed

text \<open>Applying succeeds key by key wherever the checking loop accepted.\<close>

lemma apply_loop_ok:
  assumes "\<forall>k \<in> set ks. \<exists>cur v. currentInt64 (ck_ns k) (ck_key k) updates db = Inr cur \<and>
      Apply cur (sliceAt f k) = Inr v"
    and law: "\<And>k b ops. get (upsert k b ops) = (get ops)(k \<mapsto> b)"
    and "distinct ks"
  shows "\<exists>ops'. apply_loop upsert updates db f ops ks = (None, ops') \<and>
    (\<forall>k. k \<notin> set ks \<longrightarrow> get ops' k = get ops k) \<and>
    (\<forall>k \<in> set ks. \<exists>cur v. currentInt64 (ck_ns k) (ck_key k) updates db = Inr cur \<and>
      Apply cur (sliceAt f k) = Inr v \<and> get ops' k = Some (MarshalInt64 v))"
  using assms(1,3)
proof (induction ks arbitrary: ops)
  case (Cons k ks)
  then obtain cur v where kv: "currentInt64 (ck_ns k) (ck_key k) updates db = Inr cur"
    "Apply cur (sliceAt f k) = Inr v" by auto
  let ?ops = "upsert k (MarshalInt64 v) ops"
  from Cons.IH [of ?ops] Cons.prems obtain ops' where
    "apply_loop upsert updates db f ?ops ks = (None, ops')"
    "\<forall>k'. k' \<notin> set ks \<longrightarrow> get ops' k' = get ?ops k'"
    "\<forall>k' \<in> set ks. \<exists>cur v. currentInt64 (ck_ns k') (ck_key k') updates db = Inr cur \<and>
      Apply cur (sliceAt f k') = Inr v \<and> get ops' k' = Some (MarshalInt64 v)"
    by auto
  with kv Cons.prems(2) show ?case by (intro exI [of _ ops']) (auto simp: law)
qed simp

section \<open>Example transactions\<close>

lemma valid_tx_materialises:
  assumes "validateTypedDeltaTx ord v tx updates lookup = Inr VALID"
    and "is_range_order ord" and "is_range_order ord'"
    and law: "\<And>k b ops. get (upsert k b ops) = (get ops)(k \<mapsto> b)"
  shows "\<exists>ops'. applyTypedDeltas ord' upsert ops tx updates (v_db v) = (None, ops') \<and>
    (\<forall>k. k \<notin> deltaKeysOf (allWrites tx) \<longrightarrow> get ops' k = get ops k) \<and>
    (\<forall>k \<in> deltaKeysOf (allWrites tx). \<exists>cur next'.
       currentInt64 (ck_ns k) (ck_key k) updates (v_db v) = Inr cur \<and>
       Apply cur (deltasOf k (allWrites tx)) = Inr next' \<and> get ops' k = Some (MarshalInt64 next'))"
proof -
  have acc: "txAcceptable v tx updates lookup" using assms(1,2) validate_VALID_iff by blast
  then obtain f m where c: "collect_loop lookup [] Map.empty (allWrites tx) = Inr (f, m)"
    using collect_loop_iff [of lookup "allWrites tx"] unfolding txAcceptable_def deltasOk_def by blast
  let ?ks = "ord' (map fst f)"
  have ks: "set ?ks = deltaKeysOf (allWrites tx)" "distinct ?ks"
    using is_range_orderD [OF assms(3) collected(4) [OF c]] collected(3) [OF c] by simp_all
  have "\<forall>k \<in> set ?ks. \<exists>cur v'. currentInt64 (ck_ns k) (ck_key k) updates (v_db v) = Inr cur \<and>
      Apply cur (sliceAt f k) = Inr v'"
    using acc ks(1) collected(2) [OF c] by (fastforce simp: txAcceptable_def keyAccepts_def)
  from apply_loop_ok [OF this law ks(2), of ops] show ?thesis
    using collected(1,2) [OF c] ks(1) by (simp add: applyTypedDeltas_def)
qed

text \<open>In an accepted transaction a key with a delta has only readable deltas.\<close>

lemma accepted_key_deltas:
  assumes "txAcceptable v tx updates lookup" and "distinct (map NameSpace (NsRwSets tx))"
    and "pubKey ns key \<in> deltaKeysOf (allWrites tx)"
    and "(ns, w) \<in> set (allWrites tx)" "w_Key w = key"
  shows "\<exists>dd d. w_Delta w = Some dd \<and> toDelta dd = Inr d"
proof -
  obtain w' where w': "(ns, w') \<in> set (allWrites tx)" "w_Key w' = key" "w_Delta w' \<noteq> None"
    using assms(3) by (auto simp: deltaKeysOf_def)
  obtain n n' where n: "n \<in> set (NsRwSets tx)" "NameSpace n = ns" "w \<in> set (Writes (KvRwSet n))"
    "n' \<in> set (NsRwSets tx)" "NameSpace n' = ns" "w' \<in> set (Writes (KvRwSet n'))"
    using assms(4) w'(1) by (auto simp: allWrites_iff)
  then have "n' = n" using assms(2) by (auto simp: distinct_map inj_on_def)
  moreover have "\<not> malformed_ns n"
    using assms(1) n(1) by (simp add: txAcceptable_def malformedTypedWrites_iff)
  ultimately have "w_Delta w \<noteq> None"
    using assms(5) n(3,6) w'(2,3) unfolding malformed_ns_iff by metis
  then show ?thesis using assms(1,4,5) by (fastforce simp: txAcceptable_def deltaWriteOk_def)
qed

text \<open>
  A NONNEG schema on the keys \<open>A\<close> and \<open>B\<close>, a database in which \<open>A\<close> holds 5 and \<open>B\<close> holds
  three bytes written before its schema, and delta writes, for the witnesses below.
\<close>

definition exSchema :: storedSchema where
  "exSchema = \<lparr>sc_TypeID = ''balance_int64'', sc_AllowedOps = [1, 2], sc_Invariant = ''NONNEG'',
     sc_Lo = 0, sc_Hi = 0, sc_Version = ''v1''\<rparr>"

definition exLookup :: schemaLookup where
  "exLookup ns key = (if key = ''A'' \<or> key = ''B'' then Inr (Some exSchema) else Inr None)"

definition exDB :: stateDB where
  "exDB ns key =
     (if key = ''A'' then Inr (Some \<lparr>vv_Value = MarshalInt64 5\<rparr>)
      else if key = ''B'' then Inr (Some \<lparr>vv_Value = [1, 2, 3]\<rparr>) else Inr None)"

definition exValidator :: validator where
  "exValidator = \<lparr>v_db = exDB, v_typedDeltaEnabled = True\<rparr>"

definition exWrite :: "string \<Rightarrow> DeltaDescriptor_Op \<Rightarrow> int64 \<Rightarrow> KVWrite" where
  "exWrite key op n = \<lparr>w_Key = key, w_IsDelete = False, w_Value = [],
     w_Delta = Some \<lparr>dd_TypeId = ''balance_int64'', dd_SchemaVersion = bytes_of_string ''v1'',
       dd_Op = op, dd_Arg = MarshalInt64 n\<rparr>\<rparr>"

definition exTx :: "KVWrite list \<Rightarrow> KVRWSet TxRwSet" where
  "exTx ws = \<lparr>NsRwSets = [\<lparr>NameSpace = ''acct'', KvRwSet = \<lparr>Writes = ws\<rparr>\<rparr>]\<rparr>"

lemmas ex_defs = exSchema_def exLookup_def exDB_def exValidator_def exWrite_def exTx_def

section \<open>Properties of the commit-time hooks\<close>

text \<open>
  C1 (commit-time verdict). Whatever order the runtime gives the folded map, if no schema lookup
  and no read of a current value fails, \<open>validateTypedDeltaTx\<close> returns a code with a nil error: VALID
  exactly when the capability is on, no write is malformed, every delta write matches its key's
  schema (type id, version, operation), folding each key's deltas onto its current value succeeds
  and keeps that schema's invariant, and every plain write to a typed key keeps it too; otherwise
  INVALID.
\<close>

theorem validate_verdict:
  assumes "is_range_order ord"
    and "\<forall>(ns, w) \<in> set (allWrites tx). \<exists>r. lookup ns (w_Key w) = Inr r"
    and "\<forall>k \<in> deltaKeysOf (allWrites tx). \<exists>c. currentInt64 (ck_ns k) (ck_key k) updates (v_db v) = Inr c"
  shows "validateTypedDeltaTx ord v tx updates lookup =
    Inr (if txAcceptable v tx updates lookup then VALID else INVALID_OTHER_REASON)"
proof (cases "validateTypedDeltaTx ord v tx updates lookup")
  case (Inl e)
  from validate_Inl [OF this assms(1)] assms(2,3) show ?thesis by fastforce
next
  case (Inr c)
  then show ?thesis using validate_VALID_iff [OF assms(1), of v tx updates lookup]
    by (cases c) auto
qed

theorem validate_verdict_witness:
  "txAcceptable exValidator
     (exTx [exWrite ''A'' DeltaDescriptor_SUB 10, exWrite ''A'' DeltaDescriptor_ADD 8]) (\<lambda>_ _. None) exLookup"
proof -
  let ?tx = "exTx [exWrite ''A'' DeltaDescriptor_SUB 10, exWrite ''A'' DeltaDescriptor_ADD 8]"
  have "validateTypedDeltaTx rev exValidator ?tx (\<lambda>_ _. None) exLookup =
    Inr (if txAcceptable exValidator ?tx (\<lambda>_ _. None) exLookup then VALID else INVALID_OTHER_REASON)"
    by (rule validate_verdict)
       (auto simp: ex_defs allWrites_def deltaKeysOf_def currentInt64_def pendingOrCommitted_def)
  moreover have "validateTypedDeltaTx rev exValidator ?tx (\<lambda>_ _. None) exLookup = Inr VALID"
    by code_simp
  ultimately show ?thesis by (auto split: if_splits)
qed

text \<open>The materialised value of every key with deltas, and the invariant it satisfies.\<close>

lemma materialised_values:
  assumes "validateTypedDeltaTx ord v tx updates lookup = Inr VALID"
    and "is_range_order ord" and "is_range_order ord'"
    and "\<And>k b ops. get (upsert k b ops) = (get ops)(k \<mapsto> b)"
  shows "\<exists>ops'. applyTypedDeltas ord' upsert ops tx updates (v_db v) = (None, ops') \<and>
    (\<forall>k \<in> deltaKeysOf (allWrites tx). \<exists>cur next' sc inva.
       currentInt64 (ck_ns k) (ck_key k) updates (v_db v) = Inr cur \<and>
       get ops' k = Some (MarshalInt64 next') \<and>
       sint next' = sint cur + exactSum (deltasOf k (allWrites tx)) \<and>
       lookup (ck_ns k) (ck_key k) = Inr (Some sc) \<and> schema_invariant sc = Inr inva \<and> Holds inva next') \<and>
    (\<forall>k. k \<notin> deltaKeysOf (allWrites tx) \<longrightarrow> get ops' k = get ops k)"
proof -
  obtain ops' where run: "applyTypedDeltas ord' upsert ops tx updates (v_db v) = (None, ops')"
    and rest: "\<forall>k. k \<notin> deltaKeysOf (allWrites tx) \<longrightarrow> get ops' k = get ops k"
    and vals: "\<And>k. k \<in> deltaKeysOf (allWrites tx) \<Longrightarrow> \<exists>cur next'.
       currentInt64 (ck_ns k) (ck_key k) updates (v_db v) = Inr cur \<and>
       Apply cur (deltasOf k (allWrites tx)) = Inr next' \<and> get ops' k = Some (MarshalInt64 next')"
    using valid_tx_materialises [OF assms, of ops] by blast
  have acc: "txAcceptable v tx updates lookup" using assms(1,2) validate_VALID_iff by blast
  have "\<exists>cur next' sc inva. currentInt64 (ck_ns k) (ck_key k) updates (v_db v) = Inr cur \<and>
       get ops' k = Some (MarshalInt64 next') \<and>
       sint next' = sint cur + exactSum (deltasOf k (allWrites tx)) \<and>
       lookup (ck_ns k) (ck_key k) = Inr (Some sc) \<and> schema_invariant sc = Inr inva \<and> Holds inva next'"
    if k: "k \<in> deltaKeysOf (allWrites tx)" for k
  proof -
    obtain cur v' where *: "currentInt64 (ck_ns k) (ck_key k) updates (v_db v) = Inr cur"
      "Apply cur (deltasOf k (allWrites tx)) = Inr v'" "get ops' k = Some (MarshalInt64 v')"
      using vals [OF k] by blast
    moreover obtain sc inva where "lookup (ck_ns k) (ck_key k) = Inr (Some sc)"
      "schema_invariant sc = Inr inva" "Holds inva v'"
      using acc k * by (fastforce simp: txAcceptable_def keyAccepts_def)
    ultimately show ?thesis by (auto simp: Apply_Inr)
  qed
  with run rest show ?thesis by blast
qed

text \<open>
  C2 (validation and materialisation agree). When \<open>validateTypedDeltaTx\<close> accepts a transaction,
  \<open>applyTypedDeltas\<close> on the same batch and database cannot fail, whatever order each of
  them iterates in: every key with deltas is upserted with the canonical encoding of its current
  value plus the exact sum of the transaction's deltas for it, that value satisfies the invariant of
  the key's schema, and no other key of the operations map changes. The law of \<open>get\<close> and
  \<open>upsert\<close> is the map behaviour of \<open>txOps\<close>.
\<close>

theorem valid_tx_applies:
  assumes "validateTypedDeltaTx ord v tx updates lookup = Inr VALID"
    and "is_range_order ord" and "is_range_order ord'"
    and "\<And>k b ops. get (upsert k b ops) = (get ops)(k \<mapsto> b)"
  shows "\<exists>ops'. applyTypedDeltas ord' upsert ops tx updates (v_db v) = (None, ops') \<and>
    (\<forall>k \<in> deltaKeysOf (allWrites tx). \<exists>cur next' sc inva.
       currentInt64 (ck_ns k) (ck_key k) updates (v_db v) = Inr cur \<and>
       get ops' k = Some (MarshalInt64 next') \<and>
       sint next' = sint cur + exactSum (deltasOf k (allWrites tx)) \<and>
       lookup (ck_ns k) (ck_key k) = Inr (Some sc) \<and> schema_invariant sc = Inr inva \<and> Holds inva next') \<and>
    (\<forall>k. k \<notin> deltaKeysOf (allWrites tx) \<longrightarrow> get ops' k = get ops k)"
  using assms by (rule materialised_values)

theorem valid_tx_applies_witness:
  "\<exists>ops'. applyTypedDeltas id (\<lambda>k b ops. ops(k \<mapsto> b)) Map.empty
     (exTx [exWrite ''A'' DeltaDescriptor_SUB 10, exWrite ''A'' DeltaDescriptor_ADD 8]) (\<lambda>_ _. None) exDB =
     (None, ops') \<and> ops' (pubKey ''acct'' ''A'') = Some (MarshalInt64 3)"
proof -
  let ?tx = "exTx [exWrite ''A'' DeltaDescriptor_SUB 10, exWrite ''A'' DeltaDescriptor_ADD 8]"
  let ?k = "pubKey ''acct'' ''A''"
  have "validateTypedDeltaTx rev exValidator ?tx (\<lambda>_ _. None) exLookup = Inr VALID" by code_simp
  from valid_tx_applies [OF this is_range_order_rev is_range_order_id(1),
      of "\<lambda>ops. ops" "\<lambda>k b ops. ops(k \<mapsto> b)" Map.empty]
  obtain ops' where a: "applyTypedDeltas id (\<lambda>k b ops. ops(k \<mapsto> b)) Map.empty ?tx (\<lambda>_ _. None) (v_db exValidator) = (None, ops')"
    and all: "\<forall>k \<in> deltaKeysOf (allWrites ?tx). \<exists>cur n sc inva.
       currentInt64 (ck_ns k) (ck_key k) (\<lambda>_ _. None) (v_db exValidator) = Inr cur \<and>
       ops' k = Some (MarshalInt64 n) \<and> sint n = sint cur + exactSum (deltasOf k (allWrites ?tx)) \<and>
       exLookup (ck_ns k) (ck_key k) = Inr (Some sc) \<and> schema_invariant sc = Inr inva \<and> Holds inva n"
    by auto
  have "?k \<in> deltaKeysOf (allWrites ?tx)" by (simp add: allWrites_def exTx_def exWrite_def)
  with all obtain cur n where n: "currentInt64 ''acct'' ''A'' (\<lambda>_ _. None) exDB = Inr cur"
    "ops' ?k = Some (MarshalInt64 n)" "sint n = sint cur + exactSum (deltasOf ?k (allWrites ?tx))"
    by (fastforce simp: exValidator_def)
  have "currentInt64 ''acct'' ''A'' (\<lambda>_ _. None) exDB = Inr 5" by code_simp
  moreover have "exactSum (deltasOf ?k (allWrites ?tx)) = - 2" by code_simp
  ultimately have "sint n = sint (3 :: int64)" using n by simp
  then have "n = 3" by (simp only: sint_inj64)
  then show ?thesis using a n(2) by (auto simp: exValidator_def)
qed

text \<open>
  C37 (the verdict can depend on the map order). When one key overdrafts and another key's
  stored value is not an 8-byte integer, one iteration order of the folded map ends in a fatal
  error and another in INVALID: the outcome of the transaction is not a function of its inputs.
\<close>

theorem verdict_depends_on_map_order:
  "\<exists>v tx updates lookup ord ord'. is_range_order ord \<and> is_range_order ord' \<and>
     validateTypedDeltaTx ord v tx updates lookup = Inr INVALID_OTHER_REASON \<and>
     validateTypedDeltaTx ord' v tx updates lookup = Inl (TdError ErrBadCanonical)"
proof -
  let ?tx = "exTx [exWrite ''A'' DeltaDescriptor_SUB 6, exWrite ''B'' DeltaDescriptor_ADD 1]"
  have "validateTypedDeltaTx id exValidator ?tx (\<lambda>_ _. None) exLookup = Inr INVALID_OTHER_REASON"
    "validateTypedDeltaTx rev exValidator ?tx (\<lambda>_ _. None) exLookup = Inl (TdError ErrBadCanonical)"
    by code_simp+
  then show ?thesis by blast
qed

text \<open>
  Structural check. For a transaction with one entry per namespace, \<open>malformedTypedWrites\<close>
  reports exactly the transactions that hold a delta write which also carries a value or a delete
  mark, or that write some namespaced key both with and without a delta.
\<close>

theorem malformed_exact:
  assumes "distinct (map NameSpace (NsRwSets tx))"
  shows "malformedTypedWrites tx \<longleftrightarrow>
    (\<exists>(ns, w) \<in> set (allWrites tx). w_Delta w \<noteq> None \<and>
       (w_Value w \<noteq> [] \<or> w_IsDelete w \<or>
        (\<exists>(ns', p) \<in> set (allWrites tx). ns' = ns \<and> w_Key p = w_Key w \<and> w_Delta p = None)))"
proof -
  have same: "m = n" if "m \<in> set (NsRwSets tx)" "n \<in> set (NsRwSets tx)" "NameSpace m = NameSpace n" for m n
    using that assms by (simp add: distinct_map inj_on_def)
  show ?thesis
    unfolding malformedTypedWrites_iff malformed_ns_iff
    by (rule iffI) (fastforce simp: allWrites_def, fastforce simp: allWrites_def dest: same)
qed

theorem malformed_exact_witness:
  "malformedTypedWrites (exTx [exWrite ''A'' DeltaDescriptor_ADD 1,
     \<lparr>w_Key = ''A'', w_IsDelete = False, w_Value = MarshalInt64 7, w_Delta = None\<rparr>])"
  using malformed_exact [of "exTx [exWrite ''A'' DeltaDescriptor_ADD 1,
     \<lparr>w_Key = ''A'', w_IsDelete = False, w_Value = MarshalInt64 7, w_Delta = None\<rparr>]"]
  by (simp add: exTx_def exWrite_def allWrites_def)

text \<open>A transaction whose writes of one namespace stand in one entry per list.\<close>

definition entriesTx :: "string \<Rightarrow> KVWrite list list \<Rightarrow> KVRWSet TxRwSet" where
  "entriesTx ns wss = \<lparr>NsRwSets = map (\<lambda>ws. \<lparr>NameSpace = ns, KvRwSet = \<lparr>Writes = ws\<rparr>\<rparr>) wss\<rparr>"

text \<open>
  C38 (the structural check stops at the entry). A delta write and a plain write on the same key make a transaction INVALID when
  they stand in one entry of their namespace. When the same two writes stand in two entries of the namespace,
  which the other loops read as the same list of writes, the check, whose maps are reset for every entry,
  misses the conflict: the transaction is VALID whenever the delta alone is and the plain value
  satisfies the schema.
\<close>

theorem malformed_misses_split_namespace:
  assumes "w_Delta w \<noteq> None" and "w_Delta p = None" and "w_Key p = w_Key w"
    and "validateTypedDeltaTx ord v (entriesTx ns [[w]]) updates lookup = Inr VALID"
    and "plainTypedWritesValid (entriesTx ns [[p]]) lookup = Inr True"
  shows "allWrites (entriesTx ns [[w, p]]) = allWrites (entriesTx ns [[w], [p]]) \<and>
    validateTypedDeltaTx ord v (entriesTx ns [[w, p]]) updates lookup = Inr INVALID_OTHER_REASON \<and>
    validateTypedDeltaTx ord v (entriesTx ns [[w], [p]]) updates lookup = Inr VALID"
proof (intro conjI)
  have writes: "allWrites (entriesTx ns [[w, p]]) = [(ns, w), (ns, p)]" "allWrites (entriesTx ns [[w], [p]]) = [(ns, w), (ns, p)]"
    "allWrites (entriesTx ns [[w]]) = [(ns, w)]" "allWrites (entriesTx ns [[p]]) = [(ns, p)]"
    by (simp_all add: allWrites_def entriesTx_def)
  then show "allWrites (entriesTx ns [[w, p]]) = allWrites (entriesTx ns [[w], [p]])" by simp
  have "malformedTypedWrites (entriesTx ns [[w, p]])"
    using assms(1-3) unfolding malformedTypedWrites_iff malformed_ns_iff by (auto simp: entriesTx_def)
  then show "validateTypedDeltaTx ord v (entriesTx ns [[w, p]]) updates lookup = Inr INVALID_OTHER_REASON"
    by (simp add: validateTypedDeltaTx_def)
  have ok: "\<not> malformedTypedWrites (entriesTx ns [[w]])" "v_typedDeltaEnabled v"
    using assms(4) by (auto simp: validateTypedDeltaTx_def split: if_splits)
  then have split: "\<not> malformedTypedWrites (entriesTx ns [[w], [p]])"
    using assms(2) by (auto simp: malformedTypedWrites_iff malformed_ns_iff entriesTx_def)
  have "collect_loop lookup [] Map.empty [(ns, w), (ns, p)] = collect_loop lookup [] Map.empty [(ns, w)]"
    using assms(2) by (auto split: option.splits sum.splits)
  moreover have "plainTypedWritesValid (entriesTx ns [[w], [p]]) lookup = Inr True"
    using assms(1,5) by (simp add: plainTypedWritesValid_def writes)
  ultimately show "validateTypedDeltaTx ord v (entriesTx ns [[w], [p]]) updates lookup = Inr VALID"
    using assms(4) ok split by (auto simp: validateTypedDeltaTx_def writes split: sum.splits option.splits prod.splits if_splits)
qed

theorem malformed_misses_split_namespace_witness:
  "let w = exWrite ''A'' DeltaDescriptor_ADD 1; p = \<lparr>w_Key = ''A'', w_IsDelete = False, w_Value = MarshalInt64 7, w_Delta = None\<rparr>
   in validateTypedDeltaTx id exValidator (entriesTx ''acct'' [[w, p]]) (\<lambda>_ _. None) exLookup = Inr INVALID_OTHER_REASON \<and>
      validateTypedDeltaTx id exValidator (entriesTx ''acct'' [[w], [p]]) (\<lambda>_ _. None) exLookup = Inr VALID"
proof -
  let ?w = "exWrite ''A'' DeltaDescriptor_ADD 1"
  let ?p = "\<lparr>w_Key = ''A'', w_IsDelete = False, w_Value = MarshalInt64 7, w_Delta = None\<rparr> :: KVWrite"
  have "validateTypedDeltaTx id exValidator (entriesTx ''acct'' [[?w]]) (\<lambda>_ _. None) exLookup = Inr VALID" by code_simp
  moreover have "plainTypedWritesValid (entriesTx ''acct'' [[?p]]) exLookup = Inr True" by code_simp
  ultimately show ?thesis
    using malformed_misses_split_namespace [of ?w ?p id exValidator "''acct''" "\<lambda>_ _. None" exLookup] by (simp add: exWrite_def)
qed

text \<open>
  Schema keys: Distinct data keys have distinct schema keys, every schema key carries the
  reserved prefix, and no key is its own schema key: no schema record can stand for two data keys.
\<close>

theorem schemaStorageKey_injective:
  "(schemaStorageKey a = schemaStorageKey b \<longleftrightarrow> a = b) \<and>
   HasPrefix (schemaStorageKey a) typedDeltaSchemaKeyPrefix \<and> schemaStorageKey a \<noteq> a"
proof -
  have "length a \<le> length (RawURLEncodeToString (bytes_of_string a))"
    using b64_digits_length [of "map unat (bytes_of_string a)"] by (simp add: RawURLEncodeToString_def)
  then have "length a < length (schemaStorageKey a)"
    by (simp add: schemaStorageKey_def typedDeltaSchemaKeyPrefix_def)
  then have "schemaStorageKey a \<noteq> a" by (metis less_irrefl)
  then show ?thesis by (simp add: schemaStorageKey_def)
qed

text \<open>
  Allowed operations are compared modulo 256: \<open>allowsOp\<close> accepts an operation exactly when
  some entry of the schema's list has it as its low byte: an entry such as 257 allows ADD.
\<close>

theorem allowsOp_low_byte:
  "(allowsOp s op \<longleftrightarrow> (\<exists>a \<in> set (sc_AllowedOps s). uint a mod 256 = uint op)) \<and>
   allowsOp (s\<lparr>sc_AllowedOps := [257]\<rparr>) OpAdd"
proof -
  have eq: "(ucast a :: Op) = op \<longleftrightarrow> uint a mod 256 = uint op" for a :: int32
    by (simp add: word_uint_eq_iff uint_up_ucast unsigned_ucast_eq take_bit_eq_mod)
  have loop: "allowsOp_loop as op \<longleftrightarrow> (\<exists>a \<in> set as. (ucast a :: Op) = op)" for as op
    by (induction as op rule: allowsOp_loop.induct) auto
  show ?thesis by (auto simp: allowsOp_def loop eq OpAdd_def)
qed

text \<open>
  Schema visibility: Outside the empty namespace a key's schema is read from the record under
  its schema key: the one the pending batch holds if it holds any, a record deleted or emptied
  there hiding the committed one, and the committed record otherwise. Writes of the transaction
  under validation play no part.
\<close>

theorem schema_visibility:
  assumes "ns \<noteq> ''''"
  shows "stateSchemaLookup unmarshal v updates ns key =
    (case updates ns (schemaStorageKey key) of
       Some vv \<Rightarrow>
         if vv_Value vv = [] then Inr None
         else (case unmarshal (vv_Value vv) of Inl e \<Rightarrow> Inl (JsonError e) | Inr s \<Rightarrow> Inr (Some s))
     | None \<Rightarrow>
         (case v_db v ns (schemaStorageKey key) of
            Inl e \<Rightarrow> Inl (DbError e)
          | Inr None \<Rightarrow> Inr None
          | Inr (Some vv) \<Rightarrow>
              if vv_Value vv = [] then Inr None
              else (case unmarshal (vv_Value vv) of Inl e \<Rightarrow> Inl (JsonError e) | Inr s \<Rightarrow> Inr (Some s))))"
  using assms
  by (auto simp: stateSchemaLookup_def shouldSkipTypedDeltaSchemaLookup_def pendingOrCommitted_def
      split: option.splits sum.splits)

theorem schema_visibility_witness:
  "stateSchemaLookup (\<lambda>_. Inr exSchema) exValidator
     (\<lambda>ns key. if key = schemaStorageKey ''A'' then Some \<lparr>vv_Value = [1]\<rparr> else None) ''acct'' ''A'' =
   Inr (Some exSchema)"
  by (subst schema_visibility) simp_all

end
