(* ===== verification/Shim_Keys.thy ===== *)
theory Shim_Keys
  imports Shim_Stub Endorse Validation
begin

text \<open>
  Composite keys, range keys, delta descriptors and result iterators of the shim's stub: what the
  definitions of \<open>Shim_Stub\<close> compute.
\<close>

section \<open>Composite keys\<close>

text \<open>The values of the shim's constants, as the comment on \<open>validateSimpleKeys\<close> states them.\<close>

definition shimConstants :: "'w stub_env \<Rightarrow> bool" where
  "shimConstants env \<longleftrightarrow>
     se_compositeKeyNamespace env = [CHR 0x00] \<and> se_emptyKeySubstitute env = [CHR 0x01] \<and>
     se_minUnicodeRuneValue env = 0 \<and> se_maxUnicodeRuneValue env = 0x10FFFF"

abbreviation NUL :: char where
  "NUL \<equiv> CHR 0x00"

lemma of_char_zero_iff: "of_char c = (0 :: nat) \<longleftrightarrow> c = NUL"
proof -
  have "of_char NUL = (0 :: nat)" by simp
  then show ?thesis by (metis of_char_eq_iff)
qed

lemma attribute_loop_None: "attribute_loop lo hi rs = None \<longleftrightarrow> (\<forall>(j, r) \<in> set rs. r \<noteq> lo \<and> r \<noteq> hi)"
  by (induction lo hi rs rule: attribute_loop.induct) auto

definition attributeOk :: "string \<Rightarrow> bool" where
  "attributeOk str \<longleftrightarrow> ValidString str \<and> (\<forall>(j, r) \<in> set (range_runes str). r \<noteq> 0 \<and> r \<noteq> 0x10FFFF)"

lemma validateCompositeKeyAttribute_None:
  "shimConstants env \<Longrightarrow> validateCompositeKeyAttribute env str = None \<longleftrightarrow> attributeOk str"
  by (auto simp: shimConstants_def validateCompositeKeyAttribute_def attribute_loop_None attributeOk_def)

lemma attributeOk_no_NUL:
  assumes "attributeOk str"
  shows "NUL \<notin> set str"
proof
  assume "NUL \<in> set str"
  moreover have "ValidString str" using assms by (simp add: attributeOk_def)
  ultimately obtain j where "(j, 0) \<in> set (range_runes str)"
    using ValidString_ascii [of str NUL] by auto
  then show False using assms by (auto simp: attributeOk_def)
qed

lemma string_of_rune_zero: "string_of_rune 0 = [NUL]"
  by (simp add: string_of_rune_def encodeRune_def char_of_eq_iff)

lemma composite_loop_Inr:
  assumes "shimConstants env"
  shows "composite_loop env ck atts = Inr k \<longleftrightarrow>
    list_all attributeOk atts \<and> k = ck @ concat (map (\<lambda>a. a @ [NUL]) atts)"
proof (induction atts arbitrary: ck)
  case (Cons a atts)
  then show ?case
    using assms validateCompositeKeyAttribute_None [OF assms, of a]
    by (auto simp: shimConstants_def string_of_rune_zero split: option.splits)
qed auto

lemma CreateCompositeKey_Inr:
  assumes "shimConstants env"
  shows "CreateCompositeKey env objectType atts = Inr k \<longleftrightarrow>
    list_all attributeOk (objectType # atts) \<and> k = NUL # concat (map (\<lambda>a. a @ [NUL]) (objectType # atts))"
  using assms validateCompositeKeyAttribute_None [OF assms, of objectType]
  by (auto simp: CreateCompositeKey_def composite_loop_Inr [OF assms] shimConstants_def string_of_rune_zero
      split: option.splits)

lemma split_loop_skip:
  "i \<le> j \<Longrightarrow> j \<le> length s \<Longrightarrow> \<forall>x. i \<le> x \<longrightarrow> x < j \<longrightarrow> s ! x \<noteq> NUL \<Longrightarrow>
     split_loop 0 s i ci cs = split_loop 0 s j ci cs"
proof (induction "j - i" arbitrary: i)
  case (Suc n)
  then have "i < j" "i < length s" "of_char (s ! i) \<noteq> (0 :: nat)" by (auto simp: of_char_zero_iff)
  then have "split_loop 0 s i ci cs = split_loop 0 s (i + 1) ci cs"
    by (simp add: split_loop.simps [of 0 s i])
  also have "\<dots> = split_loop 0 s j ci cs" using Suc by (intro Suc.hyps(1)) auto
  finally show ?case .
qed simp

lemma split_loop_concat:
  assumes "\<forall>a \<in> set atts. NUL \<notin> set a"
  shows "split_loop 0 (pre @ concat (map (\<lambda>a. a @ [NUL]) atts)) (length pre) (length pre) cs = cs @ atts"
  using assms
proof (induction atts arbitrary: pre cs)
  case Nil
  then show ?case by (simp add: split_loop.simps)
next
  case (Cons a atts)
  let ?rest = "concat (map (\<lambda>a. a @ [NUL]) atts)"
  let ?s = "pre @ a @ [NUL] @ ?rest" and ?j = "length pre + length a"
  have "split_loop 0 ?s (length pre) (length pre) cs = split_loop 0 ?s ?j (length pre) cs"
    using Cons.prems by (intro split_loop_skip) (auto simp: nth_append, metis nth_mem)
  also have "\<dots> = split_loop 0 ?s (?j + 1) (?j + 1) (cs @ [a])"
    by (subst split_loop.simps) (simp add: nth_append)
  also have "\<dots> = split_loop 0 ((pre @ a @ [NUL]) @ ?rest) (length (pre @ a @ [NUL])) (length (pre @ a @ [NUL])) (cs @ [a])"
    by simp
  also have "\<dots> = (cs @ [a]) @ atts" using Cons by (intro Cons.IH) auto
  finally show ?case by simp
qed

lemma split_composite:
  assumes "list_all attributeOk (objectType # atts)" "shimConstants env"
  shows "splitCompositeKey env (NUL # concat (map (\<lambda>a. a @ [NUL]) (objectType # atts))) = Return (objectType, atts)"
proof -
  have "\<forall>a \<in> set (objectType # atts). NUL \<notin> set a"
    using assms(1) attributeOk_no_NUL by (auto simp: list_all_iff)
  from split_loop_concat [OF this, of "[NUL]" "[]"] show ?thesis
    using assms(2) by (simp add: splitCompositeKey_def shimConstants_def)
qed

section \<open>The range of a partial composite key\<close>

text \<open>Go compares strings byte by byte.\<close>

definition strLess :: "string \<Rightarrow> string \<Rightarrow> bool" where
  "strLess a b \<longleftrightarrow> ord_class.lexordp (codes a) (codes b)"

definition inRange :: "string \<Rightarrow> string \<Rightarrow> string \<Rightarrow> bool" where
  "inRange startKey endKey k \<longleftrightarrow> (k = startKey \<or> strLess startKey k) \<and> strLess k endKey"

lemma codes_append [simp]: "codes (a @ b) = codes a @ codes b" "codes [] = []" "codes (c # a) = of_char c # codes a"
  by (simp_all add: codes_def)

lemma codes_inj: "codes a = codes b \<longleftrightarrow> a = b"
  unfolding codes_def by (simp add: inj_map_eq_map inj_of_char)

text \<open>Bytes that decode to a rune below the largest one come before its encoding.\<close>

lemma decodeRune_below_max:
  assumes "decodeRune bs = Some (r, n)" "r \<noteq> 0x10FFFF"
  shows "ord_class.lexordp (bs @ xs) [0xF4, 0x8F, 0xBF, 0xBF :: nat]"
  using assms
  by (auto simp: decodeRune_def cont_def split: list.splits if_splits)

lemma max_rune_string: "codes (string_of_rune 0x10FFFF) = [0xF4, 0x8F, 0xBF, 0xBF]"
  by (simp add: codes_def string_of_rune_def encodeRune_def Let_def)

lemma attributes_below_max:
  assumes "list_all attributeOk ext"
  shows "ord_class.lexordp (codes (concat (map (\<lambda>a. a @ [NUL]) ext))) [0xF4, 0x8F, 0xBF, 0xBF :: nat]"
proof (cases ext)
  case (Cons a r)
  have ok: "attributeOk a" using assms Cons by simp
  show ?thesis
  proof (cases "a = []")
    case False
    then have ne: "codes a \<noteq> []" by (simp add: codes_def)
    with ok obtain rn n where d: "decodeRune (codes a) = Some (rn, n)"
      by (auto simp: attributeOk_def ValidString_def validUtf8.simps [of "codes a"] split: option.splits)
    then have "(0, rn) \<in> set (range_runes a)"
      using ne by (simp add: range_runes_def runesFrom.simps [of 0 "codes a"])
    then have "rn \<noteq> 0x10FFFF" using ok by (auto simp: attributeOk_def)
    from decodeRune_below_max [OF d this] show ?thesis by (simp add: Cons)
  qed (simp add: Cons)
qed simp

text \<open>A string between a prefix and an extension of it has that prefix.\<close>

lemma between_prefix:
  "ord_class.lexordp p k \<Longrightarrow> ord_class.lexordp k (p @ q) \<Longrightarrow> \<exists>r. k = p @ (r :: nat list)"
proof (induction p arbitrary: k)
  case (Cons x p)
  then show ?case by (cases k) auto
qed auto

text \<open>The keys between a prefix and an extension of it.\<close>

lemma prefix_range: "inRange p (p @ q) k \<longleftrightarrow> (\<exists>r. k = p @ r \<and> strLess r q)"
proof
  assume in_range: "inRange p (p @ q) k"
  then have "codes k = codes p \<or> (\<exists>r. codes k = codes p @ r)"
    using between_prefix [of "codes p" "codes k" "codes q"] unfolding inRange_def strLess_def codes_append by blast
  then have "take (length p) (codes k) = codes p" by (auto simp: codes_def)
  then have "codes (take (length p) k) = codes p" by (simp add: codes_def take_map)
  then have "k = p @ drop (length p) k" by (metis append_take_drop_id codes_inj)
  then show "\<exists>r. k = p @ r \<and> strLess r q"
    using in_range unfolding inRange_def strLess_def by (metis codes_append(1) lexordp_append_left_rightI lexordp_append_leftD lexordp_irreflexive nat_neq_iff)
next
  assume "\<exists>r. k = p @ r \<and> strLess r q"
  then obtain r where r: "k = p @ r" "strLess r q" by blast
  have "k = p \<or> strLess p k"
  proof (cases "r = []")
    case False
    then have "codes r \<noteq> []" by (simp add: codes_def)
    then show ?thesis unfolding strLess_def r(1) codes_append by (simp only: lexordp_append_rightI simp_thms)
  qed (simp add: r)
  moreover have "strLess k (p @ q)"
    using r(2) unfolding strLess_def r(1) codes_append by (rule lexordp_append_leftI)
  ultimately show "inRange p (p @ q) k" by (simp add: inRange_def)
qed

lemma first_NUL_unique:
  "a @ NUL # r = b @ NUL # r' \<Longrightarrow> NUL \<notin> set a \<Longrightarrow> NUL \<notin> set b \<Longrightarrow> a = b \<and> r = r'"
proof (induction a arbitrary: b)
  case Nil
  then show ?case by (cases b) auto
next
  case (Cons x a)
  then show ?case by (cases b) auto
qed

lemma joined_prefix:
  assumes "\<forall>a \<in> set xs \<union> set ys. NUL \<notin> set a"
    and "concat (map (\<lambda>a. a @ [NUL]) ys) = concat (map (\<lambda>a. a @ [NUL]) xs) @ r"
  shows "\<exists>ext. ys = xs @ ext \<and> r = concat (map (\<lambda>a. a @ [NUL]) ext)"
  using assms
proof (induction xs arbitrary: ys)
  case (Cons x xs)
  then obtain y ys' where ys: "ys = y # ys'" by (cases ys) auto
  with Cons.prems have "y = x \<and> concat (map (\<lambda>a. a @ [NUL]) ys') = concat (map (\<lambda>a. a @ [NUL]) xs) @ r"
    by (intro first_NUL_unique) auto
  with Cons.IH [of ys'] Cons.prems(1) ys show ?case by auto
qed auto

lemma partial_range:
  assumes "shimConstants env" "createRangeKeysForPartialCompositeKey env ot as = Inr (sk, ek)"
    and "CreateCompositeKey env ot' as' = Inr k"
  shows "inRange sk ek k \<longleftrightarrow> (\<exists>ext. ot' # as' = (ot # as) @ ext)"
proof -
  let ?join = "\<lambda>xs. concat (map (\<lambda>a. a @ [NUL]) xs)"
  have c: "CreateCompositeKey env ot as = Inr sk" and ek: "ek = sk @ string_of_rune 0x10FFFF"
    using assms(1,2)
    by (simp_all add: createRangeKeysForPartialCompositeKey_def shimConstants_def split: sum.splits)
  have sk: "list_all attributeOk (ot # as)" "sk = NUL # ?join (ot # as)"
    using c CreateCompositeKey_Inr [OF assms(1), of ot as sk] by blast+
  have k: "list_all attributeOk (ot' # as')" "k = NUL # ?join (ot' # as')"
    using assms(3) CreateCompositeKey_Inr [OF assms(1), of ot' as' k] by blast+
  have noNUL: "\<forall>a \<in> set (ot # as) \<union> set (ot' # as'). NUL \<notin> set a"
    using sk(1) k(1) attributeOk_no_NUL by (auto simp: list_all_iff)
  show ?thesis
  proof
    assume "inRange sk ek k"
    then obtain r where "k = sk @ r" unfolding ek prefix_range by blast
    then have "?join (ot' # as') = ?join (ot # as) @ r" using k(2) sk(2) by (simp only: append_Cons list.inject)
    from joined_prefix [OF noNUL this] show "\<exists>ext. ot' # as' = (ot # as) @ ext" by blast
  next
    assume "\<exists>ext. ot' # as' = (ot # as) @ ext"
    then obtain ext where ext: "ot' # as' = (ot # as) @ ext" by blast
    have ks: "k = sk @ ?join ext" unfolding k(2) sk(2) ext by simp
    have "list_all attributeOk ((ot # as) @ ext)" using k(1) by (simp only: ext)
    then have "list_all attributeOk ext" by simp
    from attributes_below_max [OF this] show "inRange sk ek k"
      unfolding ek prefix_range ks strLess_def max_rune_string by blast
  qed
qed

section \<open>Iterators\<close>

text \<open>
  The results a peer delivers page by page from a response on: every page but the last is non-empty,
  and asking for the next one succeeds.
\<close>

inductive delivers ::
  "'w stub_env \<Rightarrow> string \<Rightarrow> string \<Rightarrow> 'w Handler \<Rightarrow> QueryResponse \<Rightarrow> bytes list \<Rightarrow> bool" for env ch tx where
  last_page: "\<not> qr_HasMore r \<Longrightarrow> delivers env ch tx h r (qr_Results r)"
| next_page: "qr_HasMore r \<Longrightarrow> qr_Results r \<noteq> [] \<Longrightarrow>
     handleQueryStateNext (shim_env.truncate env) (qr_Id r) ch tx h = (Return (Inr r'), h') \<Longrightarrow>
     delivers env ch tx h' r' bs \<Longrightarrow> delivers env ch tx h r (qr_Results r @ bs)"

text \<open>\<open>for it.HasNext() { it.Next() }\<close>, at most \<open>n\<close> times.\<close>

fun drain :: "nat \<Rightarrow> 'w stub_env \<Rightarrow> resultType \<Rightarrow> 'w Handler \<times> CommonIterator \<Rightarrow> (string + queryResult) list" where
  "drain 0 env rType st = []"
| "drain (Suc n) env rType st =
     (if HasNext (snd st)
      then (case nextResult env rType st of
              (Return r, st') \<Rightarrow> r # drain n env rType st'
            | (Panic p, st') \<Rightarrow> [])
      else [])"

abbreviation iterAt :: "string \<Rightarrow> string \<Rightarrow> QueryResponse \<Rightarrow> nat \<Rightarrow> CommonIterator" where
  "iterAt ch tx r i \<equiv> \<lparr>it_channelID = ch, it_txid = tx, it_response = r, it_currentLoc = i\<rparr>"

lemma drain_end: "\<not> HasNext (snd st) \<Longrightarrow> drain n env rType st = []"
  by (cases n) auto

lemma drain_last_page:
  assumes "\<not> qr_HasMore r" "\<forall>b \<in> set (qr_Results r). getResultFromBytes env b rType = Inr (res b)"
  shows "i \<le> length (qr_Results r) \<Longrightarrow> length (qr_Results r) - i \<le> n \<Longrightarrow>
    drain n env rType (h, iterAt ch tx r i) = map (Inr \<circ> res) (drop i (qr_Results r))"
proof (induction n arbitrary: i)
  case (Suc n)
  show ?case
  proof (cases "i = length (qr_Results r)")
    case True
    then show ?thesis using assms(1) by (simp add: HasNext_def)
  next
    case False
    then have i: "i < length (qr_Results r)" using Suc.prems by simp
    then have "nextResult env rType (h, iterAt ch tx r i) = (Return (Inr (res (qr_Results r ! i))), (h, iterAt ch tx r (i + 1)))"
      using assms by (simp add: nextResult_def Let_def)
    with i Suc show ?thesis by (simp add: HasNext_def Cons_nth_drop_Suc [symmetric])
  qed
qed simp

lemma drain_next_page:
  assumes "qr_HasMore r" "\<forall>b \<in> set (qr_Results r). getResultFromBytes env b rType = Inr (res b)"
    and "handleQueryStateNext (shim_env.truncate env) (qr_Id r) ch tx h = (Return (Inr r'), h')"
    and rest: "\<And>n. m \<le> n \<Longrightarrow> drain n env rType (h', iterAt ch tx r' 0) = out"
  shows "i < length (qr_Results r) \<Longrightarrow> length (qr_Results r) - i + m \<le> n \<Longrightarrow>
    drain n env rType (h, iterAt ch tx r i) = map (Inr \<circ> res) (drop i (qr_Results r)) @ out"
proof (induction n arbitrary: i)
  case (Suc n)
  let ?x = "res (qr_Results r ! i)"
  show ?case
  proof (cases "i + 1 = length (qr_Results r)")
    case True
    then have "nextResult env rType (h, iterAt ch tx r i) = (Return (Inr ?x), (h', iterAt ch tx r' 0))"
      using assms(1-3) by (simp add: nextResult_def fetchNextQueryResult_def go_defs Let_def)
    moreover have "drain n env rType (h', iterAt ch tx r' 0) = out" using Suc.prems by (intro rest) simp
    moreover have "drop i (qr_Results r) = [qr_Results r ! i]"
      using True Suc.prems(1) by (simp add: Cons_nth_drop_Suc [symmetric])
    ultimately show ?thesis using Suc.prems by (simp add: HasNext_def)
  next
    case False
    then have "nextResult env rType (h, iterAt ch tx r i) = (Return (Inr ?x), (h, iterAt ch tx r (i + 1)))"
      using assms(1,2) Suc.prems by (simp add: nextResult_def Let_def)
    moreover have "drain n env rType (h, iterAt ch tx r (i + 1)) = map (Inr \<circ> res) (drop (i + 1) (qr_Results r)) @ out"
      using False Suc.prems by (intro Suc.IH) auto
    ultimately show ?thesis using Suc.prems by (simp add: HasNext_def Cons_nth_drop_Suc [symmetric])
  qed
qed simp

lemma drain_delivers:
  "delivers env ch tx h r bs \<Longrightarrow> \<forall>b \<in> set bs. getResultFromBytes env b rType = Inr (res b) \<Longrightarrow>
     length bs \<le> n \<Longrightarrow> drain n env rType (h, iterAt ch tx r 0) = map (Inr \<circ> res) bs"
proof (induction arbitrary: n rule: delivers.induct)
  case (last_page r h)
  then show ?case using drain_last_page [of r env rType res 0 n h ch tx] by simp
next
  case (next_page r h r' h' bs)
  have "drain n env rType (h, iterAt ch tx r 0) = map (Inr \<circ> res) (drop 0 (qr_Results r)) @ map (Inr \<circ> res) bs"
    by (rule drain_next_page [of _ _ _ _ _ _ _ _ _ "length bs", OF next_page.hyps(1) _ next_page.hyps(3)])
       (use next_page in auto)
  then show ?case by simp
qed

section \<open>Descriptors\<close>

lemma buildShimDelta_Inr:
  "buildShimDelta typeID op arg sv = Inr d \<longleftrightarrow>
     (op = DeltaDescriptor_ADD \<or> op = DeltaDescriptor_SUB) \<and> length arg = 8 \<and> 0 \<le> sint (Uint64 arg) \<and>
     d = \<lparr>dd_TypeId = typeID, dd_SchemaVersion = sv, dd_Op = op, dd_Arg = arg\<rparr>"
  by (auto simp: buildShimDelta_def word_sless_iff Let_def)

lemma toDelta_shim:
  assumes "buildShimDelta typeID op arg sv = Inr d"
  shows "\<exists>x. toDelta d = Inr x \<and> validDelta x \<and> exactAmount x =
    (if op = DeltaDescriptor_SUB then - sint (Uint64 arg) else sint (Uint64 arg))"
  using assms by (auto simp: buildShimDelta_Inr toDelta_def UnmarshalInt64_def Int64Width_def validDelta_def exactAmount_def)

section \<open>Properties of keys, descriptors and iterators\<close>

text \<open>
  C23 (composite keys round trip). With the shim's constants, whenever \<open>CreateCompositeKey\<close>
  succeeds, \<open>SplitCompositeKey\<close> of the result returns the same object type and attributes, without
  panicking, and the key is not accepted as a simple key.
\<close>

theorem composite_key_roundtrip:
  assumes "shimConstants env" and "CreateCompositeKey env objectType attributes = Inr k"
  shows "splitCompositeKey env k = Return (objectType, attributes) \<and> validateSimpleKeys env [k] \<noteq> None"
proof -
  have "list_all attributeOk (objectType # attributes)"
    "k = NUL # concat (map (\<lambda>a. a @ [NUL]) (objectType # attributes))"
    using assms(2) CreateCompositeKey_Inr [OF assms(1), of objectType attributes k] by blast+
  with split_composite [OF _ assms(1)] assms(1) show ?thesis by (simp add: shimConstants_def)
qed

definition exKeyEnv :: "unit stub_env" where
  "exKeyEnv =
     \<lparr>env_Marshal = (\<lambda>_. Inr []), env_StateMetadataResult = (\<lambda>_. Inl ''''),
      env_QueryResponse = (\<lambda>b. Inr \<lparr>qr_Results = [[2]], qr_HasMore = False, qr_Id = ''q'', qr_Metadata = []\<rparr>),
      env_ChaincodeMessage = (\<lambda>_. Inl ''''), env_Response = (\<lambda>_. Inl ''''),
      env_Send = (\<lambda>m w. (None, w)),
      env_Await = (\<lambda>c w. (mkMessage ChaincodeMessage_RESPONSE [] '''' '''', w)), env_ERROR = 500,
      se_Proposal = (\<lambda>_. Inl ''''), se_Header = (\<lambda>_. Inl ''''), se_ChannelHeader = (\<lambda>_. Inl ''''),
      se_SignatureHeader = (\<lambda>_. Inl ''''), se_TransientMap = (\<lambda>_. Inl ''''),
      se_QueryMetadata = (\<lambda>_ _. Inl ''''), se_QueryResponseMetadata = (\<lambda>_. Inl ''''),
      se_KV = (\<lambda>b. Inr \<lparr>kv_Namespace = '''', kv_Key = ''k'', kv_Value = b\<rparr>), se_KeyModification = (\<lambda>_. Inl ''''),
      se_HeaderType_String = (\<lambda>_. ''''),
      se_ENDORSER_TRANSACTION = 3, se_CONFIG = 1, se_compositeKeyNamespace = [CHR 0x00],
      se_emptyKeySubstitute = [CHR 0x01], se_minUnicodeRuneValue = 0, se_maxUnicodeRuneValue = 0x10FFFF\<rparr>"

lemma exKeyEnv_constants: "shimConstants exKeyEnv"
  by (simp add: shimConstants_def exKeyEnv_def)

lemma ascii_runes:
  "\<forall>b \<in> set bs. b < 0x80 \<Longrightarrow> validUtf8 bs \<and> (\<forall>x \<in> set (runesFrom i bs). snd x \<in> set bs)"
proof (induction bs arbitrary: i)
  case (Cons b bs)
  then have d: "decodeRune (b # bs) = Some (b, 1)" by (simp add: decodeRune_def)
  have "validUtf8 (b # bs) = validUtf8 bs" "runesFrom i (b # bs) = (i, b) # runesFrom (i + 1) bs"
    by (simp_all add: validUtf8.simps [of "b # bs"] runesFrom.simps [of i "b # bs"] d)
  with Cons show ?case by auto
qed (simp add: validUtf8.simps runesFrom.simps)

lemma attributeOk_ascii:
  assumes "\<And>c. c \<in> set s \<Longrightarrow> of_char c < (0x80 :: nat)" "NUL \<notin> set s"
  shows "attributeOk s"
proof -
  have lt: "\<forall>b \<in> set (codes s). b < 0x80" using assms(1) by (simp add: codes_def)
  have nz: "0 \<notin> set (codes s)"
  proof
    assume "0 \<in> set (codes s)"
    then obtain c where "c \<in> set s" "of_char c = (0 :: nat)" by (metis codes_def imageE list.set_map)
    then show False using assms(2) by (simp only: of_char_zero_iff)
  qed
  have v: "validUtf8 (codes s)" and r: "\<forall>x \<in> set (runesFrom 0 (codes s)). snd x \<in> set (codes s)"
    using ascii_runes [OF lt, of 0] by simp_all
  have "snd x \<noteq> 0 \<and> snd x \<noteq> 0x10FFFF" if "x \<in> set (runesFrom 0 (codes s))" for x
  proof -
    have m: "snd x \<in> set (codes s)" using r that by (rule bspec)
    from lt m have "snd x < 0x80" by (rule bspec)
    moreover have "snd x \<noteq> 0" using m nz by metis
    ultimately show ?thesis by simp
  qed
  with v show ?thesis unfolding attributeOk_def ValidString_def range_runes_def by (simp add: case_prod_beta)
qed

lemma exCompositeKey:
  "CreateCompositeKey exKeyEnv ''acct'' [''alice'', ''1''] = Inr (NUL # ''acct'' @ NUL # ''alice'' @ NUL # ''1'' @ [NUL])"
  "CreateCompositeKey exKeyEnv ''acct'' [''alice''] = Inr (NUL # ''acct'' @ NUL # ''alice'' @ [NUL])"
  by (auto simp: CreateCompositeKey_Inr [OF exKeyEnv_constants] intro!: attributeOk_ascii)

theorem composite_key_roundtrip_witness:
  "splitCompositeKey exKeyEnv (NUL # ''acct'' @ NUL # ''alice'' @ NUL # ''1'' @ [NUL]) =
     Return (''acct'', [''alice'', ''1''])"
  using composite_key_roundtrip [OF exKeyEnv_constants exCompositeKey(1)] by simp

text \<open>
  Partial composite queries return exactly the extensions. The range
  \<open>createRangeKeysForPartialCompositeKey\<close> computes contains, in byte order, exactly those composite
  keys whose object type is the given one and whose attribute list starts with the given attributes.
\<close>

theorem partial_composite_range:
  assumes "shimConstants env"
    and "createRangeKeysForPartialCompositeKey env objectType attributes = Inr (startKey, endKey)"
    and "CreateCompositeKey env objectType' attributes' = Inr k"
  shows "inRange startKey endKey k \<longleftrightarrow>
    objectType' = objectType \<and> (\<exists>rest. attributes' = attributes @ rest)"
  using partial_range [OF assms] by auto

theorem partial_composite_range_witness:
  "\<exists>sk ek. createRangeKeysForPartialCompositeKey exKeyEnv ''acct'' [''alice''] = Inr (sk, ek) \<and>
     inRange sk ek (NUL # ''acct'' @ NUL # ''alice'' @ NUL # ''1'' @ [NUL])"
proof -
  obtain sk ek where r: "createRangeKeysForPartialCompositeKey exKeyEnv ''acct'' [''alice''] = Inr (sk, ek)"
    using exCompositeKey(2) by (simp add: createRangeKeysForPartialCompositeKey_def)
  with partial_composite_range [OF exKeyEnv_constants r exCompositeKey(1)] show ?thesis by auto
qed

text \<open>
  C20 (the two descriptor builders agree). On an 8-byte argument, the shim's \<open>buildShimDelta\<close>
  and the endorsement package's \<open>BuildDescriptor\<close> accept the same operations and magnitudes and
  build the same descriptor, and what they accept the validator's \<open>toDelta\<close> reads back as a
  well-formed delta of that magnitude; arguments of any other length are refused.
\<close>

theorem descriptor_builders_agree:
  "(length arg = 8 \<longrightarrow>
      (buildShimDelta typeID (if add then DeltaDescriptor_ADD else DeltaDescriptor_SUB) arg sv = Inr d \<longleftrightarrow>
       BuildDescriptor typeID (if add then OpAdd else OpSub) (Uint64 arg) sv = Inr d)) \<and>
   (buildShimDelta typeID op arg sv = Inr d \<longrightarrow>
      length arg = 8 \<and>
      toDelta d = Inr \<lparr>d_Op = (if op = DeltaDescriptor_ADD then OpAdd else OpSub), d_Arg = Uint64 arg\<rparr> \<and>
      0 \<le> sint (Uint64 arg))"
proof -
  have "MarshalInt64 (Uint64 arg) = arg" if "length arg = 8"
    using that td_codec.dec_Inr_iff [of arg "Uint64 arg"] by (simp add: UnmarshalInt64_def Int64Width_def)
  then show ?thesis
    by (auto simp: buildShimDelta_Inr BuildDescriptor_Inr toDelta_def UnmarshalInt64_def Int64Width_def)
qed

theorem descriptor_builders_agree_witness:
  "\<exists>d. buildShimDelta ''t'' DeltaDescriptor_SUB [0, 0, 0, 0, 0, 0, 0, 5] [] = Inr d \<and>
     BuildDescriptor ''t'' OpSub 5 [] = Inr d"
proof -
  have u: "Uint64 [0, 0, 0, 0, 0, 0, 0, 5] = 5" by code_simp
  obtain d where d: "BuildDescriptor ''t'' OpSub 5 [] = Inr d"
    by (simp add: BuildDescriptor_def word_sless_alt)
  with descriptor_builders_agree [of "[0, 0, 0, 0, 0, 0, 0, 5]" "''t''" False "[]" d] u show ?thesis by simp
qed

text \<open>
  C22 (iterators return everything once, in order). When the peer delivers the results of a query
  page by page and they decode, the loop \<open>for it.HasNext() { it.Next() }\<close> returns exactly the
  results of all pages in order and then ends; the number of iterations is the number of results.
\<close>

theorem iterator_complete:
  assumes "delivers env ch tx h r bs"
    and "\<forall>b \<in> set bs. getResultFromBytes env b rType = Inr (res b)" and "length bs \<le> n"
  shows "drain n env rType (h, \<lparr>it_channelID = ch, it_txid = tx, it_response = r, it_currentLoc = 0\<rparr>) =
    map (\<lambda>b. Inr (res b)) bs"
  using drain_delivers [OF assms] by (simp add: comp_def)

theorem iterator_complete_witness:
  "drain 5 exKeyEnv StateQueryResult (newChaincodeHandler (),
     iterAt ''ch'' ''tx'' \<lparr>qr_Results = [[1]], qr_HasMore = True, qr_Id = ''q'', qr_Metadata = []\<rparr> 0) =
   [Inr (ResultKV \<lparr>kv_Namespace = '''', kv_Key = ''k'', kv_Value = [1]\<rparr>),
    Inr (ResultKV \<lparr>kv_Namespace = '''', kv_Key = ''k'', kv_Value = [2]\<rparr>)]"
proof -
  let ?r = "\<lparr>qr_Results = [[1]], qr_HasMore = True, qr_Id = ''q'', qr_Metadata = []\<rparr>"
  let ?r' = "\<lparr>qr_Results = [[2]], qr_HasMore = False, qr_Id = ''q'', qr_Metadata = []\<rparr>"
  let ?h = "newChaincodeHandler ()"
  have "handleQueryStateNext (shim_env.truncate exKeyEnv) ''q'' ''ch'' ''tx'' ?h = (Return (Inr ?r'), ?h)"
    by (simp add: handleQueryStateNext_def createResponseChannel_def deleteResponseChannel_def sendReceive_def
        serialSend_def marshalOrPanic_def readResponse_def readQueryResponse_def exKeyEnv_def shim_env.truncate_def
        newChaincodeHandler_def mkMessage_def go_defs Let_def)
  then have "delivers exKeyEnv ''ch'' ''tx'' ?h ?r ([[1]] @ [[2]])"
    using delivers.next_page [of ?r exKeyEnv "''ch''" "''tx''" ?h ?r' ?h "[[2]]"]
      delivers.last_page [of ?r' exKeyEnv "''ch''" "''tx''" ?h] by simp
  from iterator_complete [OF this, of StateQueryResult
      "\<lambda>b. ResultKV \<lparr>kv_Namespace = '''', kv_Key = ''k'', kv_Value = b\<rparr>" 5]
  show ?thesis by (simp add: getResultFromBytes_def exKeyEnv_def)
qed

text \<open>
  A failed prefetch loses a result. On the last element of a page with more to come,
  \<open>nextResult\<close> has already decoded the element when it fetches the next page: if that fetch fails,
  the element is not returned, \<open>HasNext\<close> stays true, and every later call fails with
  \<open>invalid iterator state\<close> without contacting the peer again.
\<close>

theorem prefetch_error_loses_result:
  assumes "qr_HasMore r" and "i + 1 = length (qr_Results r)"
    and "getResultFromBytes env (qr_Results r ! i) rType = Inr x"
    and "handleQueryStateNext (shim_env.truncate env) (qr_Id r) ch tx h = (Return (Inl err), h')"
  shows "\<exists>iter'. nextResult env rType (h, \<lparr>it_channelID = ch, it_txid = tx, it_response = r, it_currentLoc = i\<rparr>) =
      (Return (Inl err), (h', iter')) \<and> HasNext iter' \<and>
    nextResult env rType (h', iter') = (Return (Inl ''invalid iterator state''), (h', iter'))"
  using assms
  by (intro exI [of _ "iterAt ch tx r (i + 1)"])
     (simp add: nextResult_def fetchNextQueryResult_def HasNext_def go_defs Let_def)

theorem prefetch_error_loses_result_witness:
  "\<exists>iter'. nextResult (exKeyEnv\<lparr>env_Send := \<lambda>m w. (Some ''EOF'', w)\<rparr>) StateQueryResult
     (newChaincodeHandler (), iterAt ''ch'' ''tx'' \<lparr>qr_Results = [[1]], qr_HasMore = True, qr_Id = ''q'', qr_Metadata = []\<rparr> 0) =
   (Return (Inl ''[tx] error sending QUERY_STATE_NEXT''), (newChaincodeHandler (), iter')) \<and> HasNext iter'"
proof -
  let ?env = "exKeyEnv\<lparr>env_Send := \<lambda>m w. (Some ''EOF'', w)\<rparr>"
  let ?r = "\<lparr>qr_Results = [[1]], qr_HasMore = True, qr_Id = ''q'', qr_Metadata = []\<rparr>"
  have "handleQueryStateNext (shim_env.truncate ?env) (qr_Id ?r) ''ch'' ''tx'' (newChaincodeHandler ()) =
      (Return (Inl ''[tx] error sending QUERY_STATE_NEXT''), newChaincodeHandler ())"
    by (simp add: handleQueryStateNext_def createResponseChannel_def deleteResponseChannel_def sendReceive_def
        serialSend_def marshalOrPanic_def exKeyEnv_def shim_env.truncate_def newChaincodeHandler_def
        shorttxid_def go_defs Let_def)
  moreover have "getResultFromBytes ?env (qr_Results ?r ! 0) StateQueryResult =
      Inr (ResultKV \<lparr>kv_Namespace = '''', kv_Key = ''k'', kv_Value = [1]\<rparr>)"
    by (simp add: getResultFromBytes_def exKeyEnv_def)
  ultimately show ?thesis using prefetch_error_loses_result [of ?r 0 ?env StateQueryResult] by fastforce
qed

end
