(* ===== verification/CC_Common.thy ===== *)
theory CC_Common
  imports Shim_Discipline Shim_Keys
begin

text \<open>
  What the three chaincodes share: the encoding of balances, the response constructors of the shim
  and the functions of the standard library and of the shim package they call whose code is not
  modelled (PEM and X.509 parsing, \<open>json.Marshal\<close>, \<open>%q\<close>), as the fields of \<open>cc_lib\<close>.

  A chaincode function is a computation on the stub. Go's nil byte slice is the empty list: the
  peer's answer to \<open>GetState\<close> for a missing key is a message without payload.
\<close>

record Certificate =
  ct_OrganizationalUnit :: "string list"
  ct_CommonName :: string

record cc_lib =
  cl_Success :: "bytes \<Rightarrow> Response"
  cl_Error :: "string \<Rightarrow> Response"
  cl_PemDecode :: "bytes \<Rightarrow> bytes option"
  cl_ParseCertificate :: "bytes \<Rightarrow> string + Certificate"
  cl_JsonMarshal :: "storedSchema \<Rightarrow> string + bytes"
  cl_Quote :: "string \<Rightarrow> string"

definition int64BE :: "int64 \<Rightarrow> bytes" where
  "int64BE n = PutUint64 n"

type_synonym 'w chaincode_fn = "('w ChaincodeStub, Response) goM"

text \<open>\<open>if err != nil { return shim.Error(err.Error()) }\<close>\<close>

definition orError :: "cc_lib \<Rightarrow> ('w ChaincodeStub, string + 'a) goM \<Rightarrow> ('a \<Rightarrow> 'w chaincode_fn) \<Rightarrow> 'w chaincode_fn" where
  "orError lib m k = gbind m (\<lambda>r. case r of Inl err \<Rightarrow> gret (cl_Error lib err) | Inr a \<Rightarrow> k a)"

section \<open>The effect of a single request\<close>

text \<open>A stream that records every message it takes, and only those.\<close>

definition recordsAll :: "('w, 'z) shim_env_scheme \<Rightarrow> ('w \<Rightarrow> ChaincodeMessage list) \<Rightarrow> bool" where
  "recordsAll env sent \<longleftrightarrow>
     (\<forall>m w. sent (snd (env_Send env m w)) = sent w @ [m]) \<and> (\<forall>c w. sent (snd (env_Await env c w)) = sent w)"

lemma recordsAll_records: "recordsAll env sent \<Longrightarrow> recordsSent env sent"
  by (simp add: recordsAll_def recordsSent_def)

abbreviation sentBy :: "('w \<Rightarrow> ChaincodeMessage list) \<Rightarrow> 'w ChaincodeStub \<Rightarrow> ChaincodeMessage list" where
  "sentBy sent s \<equiv> sent (h_chatStream (cs_handler s))"

lemma callPeer_sent:
  assumes "recordsAll env sent" "callPeerWithChaincodeMsg env msg c t h = (Return (Inr m), h')"
  shows "sent (h_chatStream h') = sent (h_chatStream h) @ [msg]"
proof -
  obtain e w m' w' where s: "env_Send env msg (h_chatStream h) = (e, w)" and a: "env_Await env (c @ t) w = (m', w')"
    by fastforce
  have "sent w = sent (h_chatStream h) @ [msg]" "sent w' = sent w"
    using assms(1) s a unfolding recordsAll_def by (metis snd_conv)+
  then show ?thesis using assms(2) s a by (auto simp: callPeer_result split: option.splits if_splits)
qed

text \<open>A successful PUT has sent exactly one message, with that request.\<close>

lemma put_sent:
  assumes "recordsAll env sent"
  shows "handlePutState env c k v ch t h = (Return (Inr u), h') \<Longrightarrow>
      \<exists>m. sent (h_chatStream h') = sent (h_chatStream h) @ [m] \<and>
        carries env ChaincodeMessage_PUT_STATE (PutState c k v None) m"
    "handlePutDelta env k d ch t h = (Return (Inr u), h') \<Longrightarrow>
      \<exists>m. sent (h_chatStream h') = sent (h_chatStream h) @ [m] \<and>
        carries env ChaincodeMessage_PUT_STATE (PutState '''' k [] (Some d)) m"
  using callPeer_sent [OF assms]
  by (fastforce simp: handlePutState_def handlePutDelta_def marshalOrPanic_def go_defs
      split: sum.splits go.splits prod.splits)+

lemma recordsAll_truncate [simp]: "recordsAll (shim_env.truncate env) sent = recordsAll env sent"
  by (simp add: recordsAll_def shim_env.truncate_def)

lemma cs_PutState_sent:
  assumes "recordsAll env sent" "cs_PutState env k v s = (Return (Inr u), s')"
  shows "\<exists>m. sentBy sent s' = sentBy sent s @ [m] \<and> carries env ChaincodeMessage_PUT_STATE (PutState '''' k v None) m"
  using assms put_sent(1) [of "shim_env.truncate env" sent]
  by (fastforce simp: cs_PutState_def withStub_def viaHandler_def go_defs split: if_splits prod.splits)

lemma cs_PutDelta_sent:
  assumes "recordsAll env sent" "cs_PutDelta env k tid op arg sv s = (Return (Inr u), s')"
  shows "\<exists>m d. sentBy sent s' = sentBy sent s @ [m] \<and> buildShimDelta tid op arg sv = Inr d \<and>
    carries env ChaincodeMessage_PUT_STATE (PutState '''' k [] (Some d)) m"
  using assms put_sent(2) [of "shim_env.truncate env" sent]
  by (fastforce simp: cs_PutDelta_def withStub_def viaHandler_def go_defs split: if_splits prod.splits sum.splits)

text \<open>The key sets after each method.\<close>

lemma cs_PutState_keys:
  "cs_PutState env k v s = (r, s') \<Longrightarrow>
     cs_deltaKeys s' = cs_deltaKeys s \<and> cs_plainKeys s' \<subseteq> insert k (cs_plainKeys s)"
  using sstub.plain_step [of env s "PlPutState k v"] by (auto simp: accepted_def)

lemma cs_PutDelta_keys:
  "cs_PutDelta env k tid op arg sv s = (r, s') \<Longrightarrow>
     cs_plainKeys s' = cs_plainKeys s \<and> cs_deltaKeys s' \<subseteq> insert k (cs_deltaKeys s)"
  using sstub.delta_step [of env s "(k, tid, op, arg, sv)"] by (auto simp: accepted_def)

lemma cs_GetState_keys:
  "cs_GetState env k s = (r, s') \<Longrightarrow> cs_deltaKeys s' = cs_deltaKeys s \<and> cs_plainKeys s' = cs_plainKeys s"
  using sstub.read_step [of env s "RdGetState k"] by (auto simp: accepted_def)

text \<open>Key sets grow only by \<open>K\<close>.\<close>

definition growsBy :: "string set \<Rightarrow> 'w ChaincodeStub \<Rightarrow> 'w ChaincodeStub \<Rightarrow> bool" where
  "growsBy K s s' \<longleftrightarrow> cs_plainKeys s' \<subseteq> K \<union> cs_plainKeys s \<and> cs_deltaKeys s' \<subseteq> K \<union> cs_deltaKeys s"

lemma growsBy_rel [simp]: "reflp (growsBy K)" "transp (growsBy K)"
  by (auto simp: growsBy_def reflp_def transp_def)

lemma growsBy_methods:
  "k \<in> K \<Longrightarrow> keeps (growsBy K) (cs_PutState env k v)"
  "k \<in> K \<Longrightarrow> keeps (growsBy K) (cs_PutDelta env k tid op arg sv)"
  "keeps (growsBy K) (cs_GetState env x)"
proof -
  show "k \<in> K \<Longrightarrow> keeps (growsBy K) (cs_PutState env k v)"
    by (rule keepsI) (drule cs_PutState_keys, auto simp: growsBy_def)
  show "k \<in> K \<Longrightarrow> keeps (growsBy K) (cs_PutDelta env k tid op arg sv)"
    by (rule keepsI) (drule cs_PutDelta_keys, auto simp: growsBy_def)
  show "keeps (growsBy K) (cs_GetState env x)"
    by (rule keepsI) (drule cs_GetState_keys, auto simp: growsBy_def)
qed

lemma keeps_orError:
  "reflp R \<Longrightarrow> transp R \<Longrightarrow> keeps R m \<Longrightarrow> (\<And>a. keeps R (k a)) \<Longrightarrow> keeps R (orError lib m k)"
  unfolding orError_def by (intro keeps_gbind) (auto split: sum.splits intro: keeps_gret)

lemma orError_cases:
  "orError lib m k s = (r, s') \<Longrightarrow>
     (\<exists>p. m s = (Panic p, s') \<and> r = Panic p) \<or>
     (\<exists>e. m s = (Return (Inl e), s') \<and> r = Return (cl_Error lib e)) \<or>
     (\<exists>a s1. m s = (Return (Inr a), s1) \<and> k a s1 = (r, s'))"
  by (auto simp: orError_def go_defs split: prod.splits go.splits sum.splits)

text \<open>Success and error responses differ (status 200 and 500 in the shim).\<close>

definition responsesDiffer :: "cc_lib \<Rightarrow> bool" where
  "responsesDiffer lib \<longleftrightarrow> (\<forall>e p. cl_Error lib e \<noteq> cl_Success lib p)"

lemma orError_success:
  assumes "orError lib m k s = (Return (cl_Success lib p), s')" "responsesDiffer lib"
  shows "\<exists>a s1. m s = (Return (Inr a), s1) \<and> k a s1 = (Return (cl_Success lib p), s')"
  using orError_cases [OF assms(1)] assms(2) unfolding responsesDiffer_def by (metis go.distinct(1) go.inject(2))

section \<open>The end of a writing function\<close>

text \<open>\<open>if err := stub.PutState(k, v); err != nil { return shim.Error(...) }; return shim.Success(nil)\<close>\<close>

definition putAndSucceed :: "cc_lib \<Rightarrow> 'w stub_env \<Rightarrow> string \<Rightarrow> bytes \<Rightarrow> 'w chaincode_fn" where
  "putAndSucceed lib env k v = orError lib (cs_PutState env k v) (\<lambda>_. gret (cl_Success lib []))"

lemma putAndSucceed_success:
  assumes "recordsAll env sent" "responsesDiffer lib" "putAndSucceed lib env k v s = (Return (cl_Success lib p), s')"
  shows "\<exists>m. sentBy sent s' = sentBy sent s @ [m] \<and> carries env ChaincodeMessage_PUT_STATE (PutState '''' k v None) m"
proof -
  from orError_success [OF assms(3) [unfolded putAndSucceed_def] assms(2)]
  have "cs_PutState env k v s = (Return (Inr ()), s')" by (auto simp: gret_def)
  from cs_PutState_sent [OF assms(1) this] show ?thesis .
qed

section \<open>An example peer\<close>

text \<open>
  A peer that accepts every request and answers with given bytes (those of 5 in \<open>exCCEnv\<close>), a stub
  of a schema administrator, and a library in which every certificate is that administrator's.
\<close>

definition exPeer :: "bytes \<Rightarrow> ChaincodeMessage list stub_env" where
  "exPeer b = exStubEnv\<lparr>env_Marshal := \<lambda>_. Inr [],
     env_Await := \<lambda>c w. (mkMessage ChaincodeMessage_RESPONSE b '''' '''', w)\<rparr>"

definition exCCEnv :: "ChaincodeMessage list stub_env" where
  "exCCEnv = exPeer (int64BE 5)"

definition exCCLib :: cc_lib where
  "exCCLib = \<lparr>cl_Success = (\<lambda>p. \<lparr>rs_Status = 200, rs_Message = '''', rs_Payload = p\<rparr>),
     cl_Error = (\<lambda>e. \<lparr>rs_Status = 500, rs_Message = e, rs_Payload = []\<rparr>),
     cl_PemDecode = Some, cl_ParseCertificate = (\<lambda>_. Inr \<lparr>ct_OrganizationalUnit = [''admin''],
       ct_CommonName = ''Admin@org1.example.com''\<rparr>),
     cl_JsonMarshal = (\<lambda>_. Inr [1]), cl_Quote = id\<rparr>"

definition exCCStub :: "string list \<Rightarrow> ChaincodeMessage list ChaincodeStub" where
  "exCCStub args = exStub\<lparr>cs_args := map bytes_of_string args, cs_creator := bytes_of_string ''-----BEGIN''\<rparr>"

lemma exPeer_facts: "recordsAll (exPeer b) (\<lambda>w. w)" "responsesDiffer exCCLib"
  by (simp_all add: recordsAll_def exPeer_def exStubEnv_def responsesDiffer_def exCCLib_def)

lemma exCC_facts: "recordsAll exCCEnv (\<lambda>w. w)" "responsesDiffer exCCLib"
  unfolding exCCEnv_def by (rule exPeer_facts)+

lemma exStub_fields:
  "cs_handler exStub = newChaincodeHandler []" "cs_ChannelID exStub = ''ch''" "cs_TxID exStub = ''tx''"
  "cs_didRead exStub = False" "cs_plainKeys exStub = {}" "cs_deltaKeys exStub = {}"
  by (simp_all add: exStub_def newChaincodeStub_def Let_def)

lemmas exCC_evals = exCCEnv_def exPeer_def exCCLib_def exCCStub_def exStubEnv_def exStub_fields withStub_def
  viaHandler_def cs_PutState_def cs_PutDelta_def cs_GetState_def markRead_def handlePutState_def handlePutDelta_def
  handleGetState_def buildShimDelta_def callPeer_result marshalOrPanic_def shim_env.truncate_def
  readResponse_def mkMessage_def newChaincodeHandler_def go_defs orError_def Let_def

text \<open>A state from which the example peer accepts further writes.\<close>

definition exOpen :: "ChaincodeMessage list ChaincodeStub \<Rightarrow> bool" where
  "exOpen s \<longleftrightarrow> h_responseChannels (cs_handler s) = Some {} \<and> \<not> cs_didRead s \<and> cs_plainKeys s = {} \<and> cs_deltaKeys s = {}"

lemma exOpen_stub: "exOpen (exCCStub args)"
  by (simp add: exOpen_def exCCStub_def exStub_fields newChaincodeHandler_def)

lemma exCC_PutDelta:
  assumes "h_responseChannels (cs_handler s) = Some {}" "key \<noteq> ''''" "\<not> cs_didRead s" "key \<notin> cs_plainKeys s"
    and "buildShimDelta tid op arg sv = Inr d"
  shows "\<exists>s'. cs_PutDelta exCCEnv key tid op arg sv s = (Return (Inr ()), s') \<and>
    h_responseChannels (cs_handler s') = Some {} \<and> \<not> cs_didRead s' \<and> cs_plainKeys s' = cs_plainKeys s"
proof -
  obtain h where h: "handlePutDelta (shim_env.truncate exCCEnv) key d (cs_ChannelID s) (cs_TxID s) (cs_handler s) = (Return (Inr ()), h)"
    "h_responseChannels h = Some {}"
    using assms(1) by (simp add: handlePutDelta_def callPeer_result marshalOrPanic_def exCCEnv_def exPeer_def exStubEnv_def
        shim_env.truncate_def readResponse_def mkMessage_def go_defs)
  then show ?thesis using assms(2-) by (simp add: cs_PutDelta_def withStub_def viaHandler_def go_defs)
qed

lemma exPeer_GetState:
  assumes "h_responseChannels (cs_handler s) = Some {}"
  shows "\<exists>s'. cs_GetState (exPeer b) key s = (Return (Inr b), s') \<and>
    h_responseChannels (cs_handler s') = Some {} \<and> cs_deltaKeys s' = cs_deltaKeys s"
  using assms by (simp add: exCC_evals)

lemma exPeer_PutState:
  assumes "h_responseChannels (cs_handler s) = Some {}" "key \<noteq> ''''" "key \<notin> cs_deltaKeys s"
  shows "\<exists>s'. cs_PutState (exPeer b) key v s = (Return (Inr ()), s') \<and> key \<in> cs_plainKeys s'"
  using assms by (simp add: exCC_evals)

lemma exPeer_rmw:
  assumes "key \<noteq> ''''"
  shows "\<exists>s1. cs_GetState (exPeer b) key (exCCStub args) = (Return (Inr b), s1) \<and>
    (\<forall>v. \<exists>s'. cs_PutState (exPeer b) key v s1 = (Return (Inr ()), s'))"
proof -
  obtain s1 where s1: "cs_GetState (exPeer b) key (exCCStub args) = (Return (Inr b), s1)"
    "h_responseChannels (cs_handler s1) = Some {}" "cs_deltaKeys s1 = {}"
    using exPeer_GetState [of "exCCStub args" b key] exOpen_stub [of args] by (auto simp: exOpen_def)
  with exPeer_PutState [OF s1(2) assms, of b] show ?thesis by auto
qed

end
