(* ===== verification/CC_TypedDelta.thy ===== *)
theory CC_TypedDelta
  imports CC_Common
begin

text \<open>
  \<open>chaincode/typed-delta-cc.go\<close>: the chaincode that uses typed deltas. Schema administration
  behind an identity check, deltas and transfers without a read, plain writes and the
  read-modify-write \<open>RevealDebit\<close>.
\<close>

section \<open>Keys and encodings\<close>

definition tdcc_typeID :: string where
  "tdcc_typeID = ''balance_int64''"

definition defaultVersion :: string where
  "defaultVersion = ''v1''"

definition schemaKeyPrefix :: string where
  "schemaKeyPrefix = ''typeddelta~schema~''"

definition tdcc_schemaStorageKey :: "string \<Rightarrow> string" where
  "tdcc_schemaStorageKey dataKey = schemaKeyPrefix @ RawURLEncodeToString (bytes_of_string dataKey)"

definition decodeBE :: "bytes \<Rightarrow> string + int64" where
  "decodeBE b =
     (if length b \<noteq> 8 then Inl (''expected 8-byte int64, got '' @ natString (length b) @ '' bytes'')
      else Inr (Uint64 b))"

interpretation cc_codec: int64_codec int64BE decodeBE
  by unfold_locales (auto simp: int64BE_def decodeBE_def split: if_splits)

definition reservedKey :: "string \<Rightarrow> bool" where
  "reservedKey key = HasPrefix key schemaKeyPrefix"

section \<open>The identity check\<close>

text \<open>\<open>bytes.Index\<close> and \<open>strings.LastIndex\<close> for a single character.\<close>

fun bytes_Index :: "bytes \<Rightarrow> bytes \<Rightarrow> nat option" where
  "bytes_Index s sep =
     (if take (length sep) s = sep then Some 0
      else (case s of [] \<Rightarrow> None | _ # r \<Rightarrow> (case bytes_Index r sep of None \<Rightarrow> None | Some i \<Rightarrow> Some (i + 1))))"

fun LastIndex :: "string \<Rightarrow> char \<Rightarrow> nat option" where
  "LastIndex [] c = None"
| "LastIndex (x # r) c =
     (case LastIndex r c of Some i \<Rightarrow> Some (i + 1) | None \<Rightarrow> if x = c then Some 0 else None)"

definition allowedSchemaAdminOrgs :: "string set" where
  "allowedSchemaAdminOrgs = {''org1.example.com'', ''org2.example.com''}"

definition requireSchemaAdmin :: "cc_lib \<Rightarrow> 'w ChaincodeStub \<Rightarrow> string option" where
  "requireSchemaAdmin lib stub =
     (case GetCreator stub of
        Inl err \<Rightarrow> Some (''schema-admin check: '' @ err)
      | Inr creator \<Rightarrow>
     (case bytes_Index creator (bytes_of_string ''-----BEGIN'') of
        None \<Rightarrow> Some ''schema write denied: no X.509 identity in creator''
      | Some i \<Rightarrow>
     (case cl_PemDecode lib (drop i creator) of
        None \<Rightarrow> Some ''schema write denied: malformed identity certificate''
      | Some block \<Rightarrow>
     (case cl_ParseCertificate lib block of
        Inl err \<Rightarrow> Some (''schema write denied: '' @ err)
      | Inr cert \<Rightarrow>
          (let isAdmin = list_ex (\<lambda>ou. ou = ''admin'') (ct_OrganizationalUnit cert);
               org = (case LastIndex (ct_CommonName cert) (CHR ''@'') of
                        Some at \<Rightarrow> drop (at + 1) (ct_CommonName cert) | None \<Rightarrow> '''')
           in if \<not> isAdmin
              then Some (''schema write denied: identity '' @ cl_Quote lib (ct_CommonName cert) @ '' lacks admin OU'')
              else if org \<notin> allowedSchemaAdminOrgs
              then Some (''schema write denied: org '' @ cl_Quote lib org @ '' is not a schema admin'')
              else None)))))"

section \<open>The functions\<close>

definition tdcc_Init :: "cc_lib \<Rightarrow> 'w chaincode_fn" where
  "tdcc_Init lib = gret (cl_Success lib [])"

definition reservedError :: string where
  "reservedError = ''key uses the reserved schema prefix''"

text \<open>Marshalling a schema and storing it under the data key's schema key.\<close>

definition putSchema :: "cc_lib \<Rightarrow> 'w stub_env \<Rightarrow> string \<Rightarrow> storedSchema \<Rightarrow> 'w chaincode_fn" where
  "putSchema lib env dataKey s =
     (case cl_JsonMarshal lib s of
        Inl err \<Rightarrow> gret (cl_Error lib err)
      | Inr js \<Rightarrow> putAndSucceed lib env (tdcc_schemaStorageKey dataKey) js)"

definition nonNegSchema :: "string \<Rightarrow> storedSchema" where
  "nonNegSchema ver =
     \<lparr>sc_TypeID = tdcc_typeID, sc_AllowedOps = [1, 2], sc_Invariant = ''NONNEG'', sc_Lo = 0, sc_Hi = 0,
      sc_Version = ver\<rparr>"

definition seedSchema :: "cc_lib \<Rightarrow> 'w stub_env \<Rightarrow> string list \<Rightarrow> 'w chaincode_fn" where
  "seedSchema lib env args =
     (if length args < 1 \<or> length args > 2 then gret (cl_Error lib ''usage: SeedSchema(key [,version])'')
      else withStub (\<lambda>stub.
        case requireSchemaAdmin lib stub of
          Some err \<Rightarrow> gret (cl_Error lib err)
        | None \<Rightarrow>
            if reservedKey (args ! 0) then gret (cl_Error lib reservedError)
            else putSchema lib env (args ! 0)
                   (nonNegSchema (if length args = 2 then args ! 1 else defaultVersion))))"

definition minInt64 :: int64 where
  "minInt64 = - 9223372036854775808"

definition maxInt64 :: int64 where
  "maxInt64 = 9223372036854775807"

definition rangeSchema :: storedSchema where
  "rangeSchema =
     \<lparr>sc_TypeID = tdcc_typeID, sc_AllowedOps = [1, 2], sc_Invariant = ''RANGE'', sc_Lo = minInt64, sc_Hi = maxInt64,
      sc_Version = defaultVersion\<rparr>"

definition seedRangeSchema :: "cc_lib \<Rightarrow> 'w stub_env \<Rightarrow> string list \<Rightarrow> 'w chaincode_fn" where
  "seedRangeSchema lib env args =
     (if length args \<noteq> 1 then gret (cl_Error lib ''usage: SeedRangeSchema(key)'')
      else withStub (\<lambda>stub.
        case requireSchemaAdmin lib stub of
          Some err \<Rightarrow> gret (cl_Error lib err)
        | None \<Rightarrow>
            if reservedKey (args ! 0) then gret (cl_Error lib reservedError)
            else putSchema lib env (args ! 0) rangeSchema))"

text \<open>\<open>shim.PutDelta\<close> on the stub the shim hands to the chaincode, which is a \<open>*ChaincodeStub\<close>.\<close>

definition tdcc_PutDelta ::
  "'w stub_env \<Rightarrow> string \<Rightarrow> DeltaDescriptor_Op \<Rightarrow> int64 \<Rightarrow> string \<Rightarrow> ('w ChaincodeStub, string + unit) goM" where
  "tdcc_PutDelta env key op n ver s =
     (case shim_PutDelta env key tdcc_typeID op (int64BE n) (bytes_of_string ver) (Some s) of
        (r, s') \<Rightarrow> (r, the s'))"

definition delta :: "cc_lib \<Rightarrow> 'w stub_env \<Rightarrow> string list \<Rightarrow> DeltaDescriptor_Op \<Rightarrow> 'w chaincode_fn" where
  "delta lib env args op =
     (if length args < 2 \<or> length args > 3 then gret (cl_Error lib ''usage: Add|Sub(key, n [,version])'')
      else if reservedKey (args ! 0) then gret (cl_Error lib reservedError)
      else
        (case ParseInt (args ! 1) of
           None \<Rightarrow> gret (cl_Error lib ''n must be a non-negative int64'')
         | Some n \<Rightarrow>
             if n <s 0 then gret (cl_Error lib ''n must be a non-negative int64'')
             else
               (let ver = (if length args = 3 then args ! 2 else defaultVersion)
                in orError lib (tdcc_PutDelta env (args ! 0) op n ver) (\<lambda>_. gret (cl_Success lib [])))))"

definition transfer :: "cc_lib \<Rightarrow> 'w stub_env \<Rightarrow> string list \<Rightarrow> 'w chaincode_fn" where
  "transfer lib env args =
     (if length args < 3 \<or> length args > 4 then gret (cl_Error lib ''usage: Transfer(from, to, n [,version])'')
      else if reservedKey (args ! 0) \<or> reservedKey (args ! 1) then gret (cl_Error lib reservedError)
      else
        (case ParseInt (args ! 2) of
           None \<Rightarrow> gret (cl_Error lib ''n must be a non-negative int64'')
         | Some n \<Rightarrow>
             if n <s 0 then gret (cl_Error lib ''n must be a non-negative int64'')
             else
               (let ver = (if length args = 4 then args ! 3 else defaultVersion)
                in orError lib (tdcc_PutDelta env (args ! 0) DeltaDescriptor_SUB n ver) (\<lambda>_.
                   orError lib (tdcc_PutDelta env (args ! 1) DeltaDescriptor_ADD n ver) (\<lambda>_.
                   gret (cl_Success lib []))))))"

definition putPlain :: "cc_lib \<Rightarrow> 'w stub_env \<Rightarrow> string list \<Rightarrow> 'w chaincode_fn" where
  "putPlain lib env args =
     (if length args \<noteq> 2 then gret (cl_Error lib ''usage: PutPlain(key, n)'')
      else if reservedKey (args ! 0) then gret (cl_Error lib reservedError)
      else
        (case ParseInt (args ! 1) of
           None \<Rightarrow> gret (cl_Error lib ''n must be an int64'')
         | Some n \<Rightarrow>
             putAndSucceed lib env (args ! 0) (int64BE n)))"

definition revealDebit :: "cc_lib \<Rightarrow> 'w stub_env \<Rightarrow> string list \<Rightarrow> 'w chaincode_fn" where
  "revealDebit lib env args =
     (if length args \<noteq> 2 then gret (cl_Error lib ''usage: RevealDebit(key, n)'')
      else if reservedKey (args ! 0) then gret (cl_Error lib reservedError)
      else
        (case ParseInt (args ! 1) of
           None \<Rightarrow> gret (cl_Error lib ''n must be a non-negative int64'')
         | Some n \<Rightarrow>
             if n <s 0 then gret (cl_Error lib ''n must be a non-negative int64'')
             else
               orError lib (cs_GetState env (args ! 0)) (\<lambda>cur.
                 if cur = [] then gret (cl_Error lib (''key not found: '' @ args ! 0))
                 else
                   (case decodeBE cur of
                      Inl err \<Rightarrow> gret (cl_Error lib err)
                    | Inr bal \<Rightarrow>
                        if bal <s n then gret (cl_Error lib ''insufficient balance'')
                        else putAndSucceed lib env (args ! 0) (int64BE (bal - n))))))"

definition tdcc_get :: "cc_lib \<Rightarrow> 'w stub_env \<Rightarrow> string list \<Rightarrow> 'w chaincode_fn" where
  "tdcc_get lib env args =
     (if length args \<noteq> 1 then gret (cl_Error lib ''usage: Get(key)'')
      else
        orError lib (cs_GetState env (args ! 0)) (\<lambda>v.
          if v = [] then gret (cl_Error lib (''key not found: '' @ args ! 0))
          else
            (case decodeBE v of
               Inl err \<Rightarrow> gret (cl_Error lib err)
             | Inr n \<Rightarrow> gret (cl_Success lib (bytes_of_string (FormatInt n))))))"

definition tdcc_Invoke :: "cc_lib \<Rightarrow> 'w stub_env \<Rightarrow> 'w chaincode_fn" where
  "tdcc_Invoke lib env =
     withStub (\<lambda>stub.
       case GetFunctionAndParameters stub of
         (fn, args) \<Rightarrow>
           if fn = ''SeedSchema'' then seedSchema lib env args
           else if fn = ''SeedRangeSchema'' then seedRangeSchema lib env args
           else if fn = ''Add'' then delta lib env args DeltaDescriptor_ADD
           else if fn = ''Sub'' then delta lib env args DeltaDescriptor_SUB
           else if fn = ''Transfer'' then transfer lib env args
           else if fn = ''PutPlain'' then putPlain lib env args
           else if fn = ''RevealDebit'' then revealDebit lib env args
           else if fn = ''Get'' then tdcc_get lib env args
           else gret (cl_Error lib (''unknown function: '' @ fn)))"

section \<open>What the functions write\<close>

lemma tdcc_PutDelta_eq:
  "tdcc_PutDelta env key op n ver s = cs_PutDelta env key tdcc_typeID op (int64BE n) (bytes_of_string ver) s"
  by (simp add: tdcc_PutDelta_def shim_PutDelta_def split: prod.splits)

lemma growsBy_PutDelta: "k \<in> K \<Longrightarrow> keeps (growsBy K) (tdcc_PutDelta env k op n ver)"
  using growsBy_methods(2) [of k K env] by (simp add: keeps_def tdcc_PutDelta_eq)

lemma keeps_prod_case: "(\<And>u v. keeps R (k u v)) \<Longrightarrow> keeps R (case p of (u, v) \<Rightarrow> k u v)"
  by (cases p) simp

lemma keeps_ite:
  "(c \<Longrightarrow> keeps R a) \<Longrightarrow> (\<not> c \<Longrightarrow> keeps R b) \<Longrightarrow> keeps R (if c then a else b)"
  by simp

lemmas grow_rules = keeps_orError growsBy_methods growsBy_PutDelta keeps_gret growsBy_rel
  keeps_withStub keeps_ite keeps_cases(1-3)

text \<open>Outside the two seeding functions no key with the schema prefix is ever written.\<close>

lemma unreserved_functions:
  "keeps (growsBy {k. \<not> reservedKey k}) (delta lib env args op)"
  "keeps (growsBy {k. \<not> reservedKey k}) (transfer lib env args)"
  "keeps (growsBy {k. \<not> reservedKey k}) (putPlain lib env args)"
  "keeps (growsBy {k. \<not> reservedKey k}) (revealDebit lib env args)"
  "keeps (growsBy {k. \<not> reservedKey k}) (tdcc_get lib env args)"
  unfolding delta_def transfer_def putPlain_def revealDebit_def tdcc_get_def putAndSucceed_def Let_def
  by (intro grow_rules; simp)+

lemma seed_denied:
  assumes "requireSchemaAdmin lib s = Some e"
  shows "snd (seedSchema lib env args s) = s" "snd (seedRangeSchema lib env args s) = s"
  using assms by (simp_all add: seedSchema_def seedRangeSchema_def withStub_def gret_def)

lemma putSchema_success:
  assumes "recordsAll env sent" "responsesDiffer lib" "putSchema lib env key sc s = (Return (cl_Success lib p), s')"
  shows "\<exists>m js. cl_JsonMarshal lib sc = Inr js \<and> sentBy sent s' = sentBy sent s @ [m] \<and>
    carries env ChaincodeMessage_PUT_STATE (PutState '''' (tdcc_schemaStorageKey key) js None) m"
proof -
  obtain js where js: "cl_JsonMarshal lib sc = Inr js"
    using assms(2,3) by (cases "cl_JsonMarshal lib sc") (auto simp: putSchema_def gret_def responsesDiffer_def)
  then have "putAndSucceed lib env (tdcc_schemaStorageKey key) js s = (Return (cl_Success lib p), s')"
    using assms(3) by (simp add: putSchema_def)
  from putAndSucceed_success [OF assms(1,2) this] js show ?thesis by auto
qed

lemma seedSchema_success:
  assumes "responsesDiffer lib" "seedSchema lib env args s = (Return (cl_Success lib p), s')"
  shows "requireSchemaAdmin lib s = None" "\<not> reservedKey (args ! 0)" "length args \<in> {1, 2}"
    "putSchema lib env (args ! 0) (nonNegSchema (if length args = 2 then args ! 1 else defaultVersion)) s =
      (Return (cl_Success lib p), s')"
proof -
  have *: "\<not> (length args < 1 \<or> length args > 2)" "requireSchemaAdmin lib s = None" "\<not> reservedKey (args ! 0)"
    using assms by (auto simp: seedSchema_def withStub_def gret_def responsesDiffer_def split: if_splits option.splits)
  then show "requireSchemaAdmin lib s = None" "\<not> reservedKey (args ! 0)" by auto
  show "length args \<in> {1, 2}" using *(1) by (simp, linarith)
  from *(1) show "putSchema lib env (args ! 0) (nonNegSchema (if length args = 2 then args ! 1 else defaultVersion)) s =
      (Return (cl_Success lib p), s')"
    using assms(2) *(2,3) by (simp add: seedSchema_def withStub_def)
qed

lemma schemaStorageKey_agree: "tdcc_schemaStorageKey = schemaStorageKey"
  by (intro ext) (simp add: tdcc_schemaStorageKey_def schemaStorageKey_def schemaKeyPrefix_def typedDeltaSchemaKeyPrefix_def)

section \<open>Properties of the typed-delta chaincode\<close>

lemma exAdmin: "requireSchemaAdmin exCCLib (exCCStub args) = None"
proof -
  have "bytes_Index (bytes_of_string ''-----BEGIN'') (bytes_of_string ''-----BEGIN'') = Some 0" by simp
  moreover have "LastIndex ''Admin@org1.example.com'' (CHR ''@'') = Some 5" by code_simp
  ultimately show ?thesis
    by (simp add: requireSchemaAdmin_def GetCreator_def exCCStub_def exCCLib_def allowedSchemaAdminOrgs_def)
qed

text \<open>
  C9 (only administrators write schemas). After any invocation of the chaincode, the keys written or
  changed by a delta that carry the reserved schema prefix were written by \<open>SeedSchema\<close> or
  \<open>SeedRangeSchema\<close> by a caller whose certificate passed \<open>requireSchemaAdmin\<close>: every other
  function, and every other caller, leaves schema records alone.
\<close>

theorem schema_writes_need_admin:
  assumes "tdcc_Invoke lib env s = (r, s')"
    and "k \<in> cs_plainKeys s' \<union> cs_deltaKeys s'" and "k \<notin> cs_plainKeys s \<union> cs_deltaKeys s"
    and "reservedKey k"
  shows "requireSchemaAdmin lib s = None \<and> fst (GetFunctionAndParameters s) \<in> {''SeedSchema'', ''SeedRangeSchema''}"
proof (rule ccontr)
  let ?U = "{k. \<not> reservedKey k}"
  assume no: "\<not> ?thesis"
  obtain fn args where fa: "GetFunctionAndParameters s = (fn, args)" by fastforce
  have s': "s' = snd (tdcc_Invoke lib env s)" using assms(1) by simp
  have refl: "growsBy ?U s s" using growsBy_rel(1) by (rule reflpD)
  have "growsBy ?U s (snd (tdcc_Invoke lib env s))"
  proof (cases "fn \<in> {''SeedSchema'', ''SeedRangeSchema''}")
    case True
    then obtain e where "requireSchemaAdmin lib s = Some e" using no fa by auto
    with True fa seed_denied [OF this] refl show ?thesis by (auto simp: tdcc_Invoke_def withStub_def)
  next
    case False
    have *: "growsBy ?U s (snd (f s))" if "keeps (growsBy ?U) f" for f :: "('a ChaincodeStub, Response) goM"
      using that by (simp add: keeps_def)
    from False fa refl show ?thesis
      by (auto simp: tdcc_Invoke_def withStub_def gret_def intro!: * unreserved_functions)
  qed
  then show False using assms(2-4) s' by (auto simp: growsBy_def)
qed

theorem schema_writes_need_admin_witness:
  "\<exists>s'. tdcc_Invoke exCCLib exCCEnv (exCCStub [''SeedSchema'', ''A'']) = (Return (cl_Success exCCLib []), s') \<and>
     tdcc_schemaStorageKey ''A'' \<in> cs_plainKeys s' \<and>
     requireSchemaAdmin exCCLib (exCCStub [''SeedSchema'', ''A'']) = None"
proof -
  let ?s = "exCCStub [''SeedSchema'', ''A'']"
  have f: "GetFunctionAndParameters ?s = (''SeedSchema'', [''A''])"
    by (simp add: GetFunctionAndParameters_def GetStringArgs_def GetArgs_def exCCStub_def)
  have k: "tdcc_schemaStorageKey ''A'' \<noteq> ''''" by (simp add: tdcc_schemaStorageKey_def schemaKeyPrefix_def)
  have nr: "\<not> reservedKey ''A''" by code_simp
  have inv: "tdcc_Invoke exCCLib exCCEnv ?s = putSchema exCCLib exCCEnv ''A'' (nonNegSchema ''v1'') ?s"
    using exAdmin nr by (simp add: tdcc_Invoke_def withStub_def f seedSchema_def defaultVersion_def)
  obtain s' where run: "putSchema exCCLib exCCEnv ''A'' (nonNegSchema ''v1'') ?s = (Return (cl_Success exCCLib []), s')"
    and key: "tdcc_schemaStorageKey ''A'' \<in> cs_plainKeys s'"
    using exPeer_PutState [where b = "int64BE 5", folded exCCEnv_def, of ?s "tdcc_schemaStorageKey ''A''" "[1]"] exOpen_stub [of "[''SeedSchema'', ''A'']"] k
    by (auto simp: putSchema_def putAndSucceed_def exCCLib_def orError_def go_defs exOpen_def)
  have "reservedKey (tdcc_schemaStorageKey ''A'')" by (simp add: reservedKey_def tdcc_schemaStorageKey_def)
  then have "requireSchemaAdmin exCCLib ?s = None"
    using schema_writes_need_admin [OF run [folded inv], of "tdcc_schemaStorageKey ''A''"] key
    by (simp add: exCCStub_def exStub_fields)
  with run inv key show ?thesis by auto
qed

lemma seeded_schema_checks:
  "schema_invariant (nonNegSchema ver) = Inr NonNeg" "allowsOp (nonNegSchema ver) op \<longleftrightarrow> op = OpAdd \<or> op = OpSub"
proof -
  have "(ucast (1 :: int32) :: Op) = OpAdd" "(ucast (2 :: int32) :: Op) = OpSub" by (simp_all add: OpAdd_def OpSub_def)
  then show "allowsOp (nonNegSchema ver) op \<longleftrightarrow> op = OpAdd \<or> op = OpSub"
    by (auto simp: allowsOp_def nonNegSchema_def)
  show "schema_invariant (nonNegSchema ver) = Inr NonNeg" by (simp add: schema_invariant_def nonNegSchema_def)
qed

text \<open>
  C10 (what is seeded is what the validator reads). When \<open>SeedSchema\<close> reports success, the caller
  was an administrator and the one message sent stores the marshalled NONNEG schema under the key at
  which the validator looks up the schema of the data key; a validator that finds those bytes there
  and decodes them back then enforces NONNEG, allows exactly ADD and SUB, and expects the seeded
  version.
\<close>

theorem seeded_schema_governs:
  assumes "recordsAll env sent" and "responsesDiffer lib"
    and "seedSchema lib env args s = (Return (cl_Success lib p), s')"
  shows "requireSchemaAdmin lib s = None \<and>
    (\<exists>m js sc. sc = nonNegSchema (if length args = 2 then args ! 1 else ''v1'') \<and>
       cl_JsonMarshal lib sc = Inr js \<and> sentBy sent s' = sentBy sent s @ [m] \<and>
       carries env ChaincodeMessage_PUT_STATE (PutState '''' (schemaStorageKey (args ! 0)) js None) m \<and>
       (\<forall>unmarshal v updates ns.
          ns \<noteq> '''' \<and> js \<noteq> [] \<and> unmarshal js = Inr sc \<and>
          updates ns (schemaStorageKey (args ! 0)) = Some \<lparr>vv_Value = js\<rparr> \<longrightarrow>
          stateSchemaLookup unmarshal v updates ns (args ! 0) = Inr (Some sc)) \<and>
       schema_invariant sc = Inr NonNeg \<and> (\<forall>op. allowsOp sc op \<longleftrightarrow> op = OpAdd \<or> op = OpSub))"
proof -
  note ok = seedSchema_success [OF assms(2,3)]
  let ?sc = "nonNegSchema (if length args = 2 then args ! 1 else ''v1'')"
  obtain m js where "cl_JsonMarshal lib ?sc = Inr js" "sentBy sent s' = sentBy sent s @ [m]"
    "carries env ChaincodeMessage_PUT_STATE (PutState '''' (schemaStorageKey (args ! 0)) js None) m"
    using putSchema_success [OF assms(1,2) ok(4)] unfolding schemaStorageKey_agree defaultVersion_def by blast
  moreover have "\<forall>unmarshal v updates ns.
      ns \<noteq> '''' \<and> js \<noteq> [] \<and> unmarshal js = Inr ?sc \<and>
      updates ns (schemaStorageKey (args ! 0)) = Some \<lparr>vv_Value = js\<rparr> \<longrightarrow>
      stateSchemaLookup unmarshal v updates ns (args ! 0) = Inr (Some ?sc)"
    by (simp add: stateSchemaLookup_def shouldSkipTypedDeltaSchemaLookup_def pendingOrCommitted_def)
  ultimately show ?thesis
    using ok(1) seeded_schema_checks
    by (intro conjI exI [of _ m] exI [of _ js] exI [of _ ?sc] allI) simp_all
qed

theorem seeded_schema_governs_witness:
  "\<exists>s'. seedSchema exCCLib exCCEnv [''A''] (exCCStub []) = (Return (cl_Success exCCLib []), s') \<and>
     requireSchemaAdmin exCCLib (exCCStub []) = None \<and> length (sentBy (\<lambda>w. w) s') = 1"
proof -
  have k: "tdcc_schemaStorageKey ''A'' \<noteq> ''''" by (simp add: tdcc_schemaStorageKey_def schemaKeyPrefix_def)
  have nr: "\<not> reservedKey ''A''" by code_simp
  obtain s' where run: "seedSchema exCCLib exCCEnv [''A''] (exCCStub []) = (Return (cl_Success exCCLib []), s')"
    using exAdmin [of "[]"] nr exPeer_PutState [where b = "int64BE 5", folded exCCEnv_def, of "exCCStub []" "tdcc_schemaStorageKey ''A''" "[1]"] exOpen_stub [of "[]"] k
    by (auto simp: seedSchema_def putSchema_def putAndSucceed_def withStub_def exCCLib_def orError_def go_defs exOpen_def)
  note gov = seeded_schema_governs [OF exCC_facts run]
  from conjunct2 [OF gov] obtain m where "sentBy (\<lambda>w. w) s' = sentBy (\<lambda>w. w) (exCCStub []) @ [m]"
    by (elim exE conjE) (rule that)
  then have "length (sentBy (\<lambda>w. w) s') = 1" by (simp add: exCCStub_def exStub_fields newChaincodeHandler_def)
  with run conjunct1 [OF gov] show ?thesis by (intro exI [of _ s'] conjI)
qed

lemma toDelta_int64BE:
  assumes "buildShimDelta tid op (int64BE n) sv = Inr d"
  shows "\<exists>x. toDelta d = Inr x \<and> validDelta x \<and>
    exactAmount x = (if op = DeltaDescriptor_SUB then - sint n else sint n)"
proof -
  have "Uint64 (int64BE n) = n" by (simp add: int64BE_def)
  with toDelta_shim [OF assms] show ?thesis by metis
qed

lemma transfer_sends:
  assumes "recordsAll env sent" "responsesDiffer lib" "transfer lib env args s = (Return (cl_Success lib p), s')"
  shows "\<exists>n ver m m' d d'. 0 \<le> sint n \<and> sentBy sent s' = sentBy sent s @ [m, m'] \<and> cs_didRead s' = cs_didRead s \<and>
    buildShimDelta tdcc_typeID DeltaDescriptor_SUB (int64BE n) ver = Inr d \<and>
    buildShimDelta tdcc_typeID DeltaDescriptor_ADD (int64BE n) ver = Inr d' \<and>
    carries env ChaincodeMessage_PUT_STATE (PutState '''' (args ! 0) [] (Some d)) m \<and>
    carries env ChaincodeMessage_PUT_STATE (PutState '''' (args ! 1) [] (Some d')) m'"
proof -
  let ?put = "\<lambda>i op n. tdcc_PutDelta env (args ! i) op n (if length args = 4 then args ! 3 else defaultVersion)"
  obtain n where n: "ParseInt (args ! 2) = Some n" "0 \<le> sint n"
    and run: "orError lib (?put 0 DeltaDescriptor_SUB n) (\<lambda>_. orError lib (?put 1 DeltaDescriptor_ADD n)
        (\<lambda>_. gret (cl_Success lib []))) s = (Return (cl_Success lib p), s')"
    using assms(2,3)
    by (auto simp: transfer_def Let_def gret_def responsesDiffer_def word_sless_iff split: if_splits option.splits)
  from orError_success [OF run assms(2)] obtain u s1 where
    p1: "?put 0 DeltaDescriptor_SUB n s = (Return (Inr u), s1)"
    and run1: "orError lib (?put 1 DeltaDescriptor_ADD n) (\<lambda>_. gret (cl_Success lib [])) s1 = (Return (cl_Success lib p), s')"
    by blast
  from orError_success [OF run1 assms(2)] obtain u' where p2: "?put 1 DeltaDescriptor_ADD n s1 = (Return (Inr u'), s')"
    by (auto simp: gret_def)
  obtain m d where m: "sentBy sent s1 = sentBy sent s @ [m]"
    "buildShimDelta tdcc_typeID DeltaDescriptor_SUB (int64BE n) (bytes_of_string (if length args = 4 then args ! 3 else defaultVersion)) = Inr d"
    "carries env ChaincodeMessage_PUT_STATE (PutState '''' (args ! 0) [] (Some d)) m"
    using cs_PutDelta_sent [OF assms(1) p1 [unfolded tdcc_PutDelta_eq]] by blast
  obtain m' d' where m': "sentBy sent s' = sentBy sent s1 @ [m']"
    "buildShimDelta tdcc_typeID DeltaDescriptor_ADD (int64BE n) (bytes_of_string (if length args = 4 then args ! 3 else defaultVersion)) = Inr d'"
    "carries env ChaincodeMessage_PUT_STATE (PutState '''' (args ! 1) [] (Some d')) m'"
    using cs_PutDelta_sent [OF assms(1) p2 [unfolded tdcc_PutDelta_eq]] by blast
  have "cs_didRead s' = cs_didRead s"
    using p1 p2 sstub.delta_step [of env] unfolding tdcc_PutDelta_eq
    by (metis (no_types, lifting) accepted_def shim_delta_step.simps shim_step.simps(3) snd_conv)
  moreover have "sentBy sent s' = sentBy sent s @ [m, m']" using m(1) m'(1) by simp
  ultimately show ?thesis using n(2) m(2,3) m'(2,3) by blast
qed

text \<open>
  Transfers conserve the total: When \<open>Transfer\<close> reports success, the chaincode has made no
  read and has sent exactly two messages: a SUB delta on the source and an ADD delta on the target.
  Their exact amounts, as the validator reads them, are non-negative in magnitude and add up to 0.
\<close>

theorem transfer_conserves:
  assumes "recordsAll env sent" and "responsesDiffer lib"
    and "transfer lib env args s = (Return (cl_Success lib p), s')"
  shows "\<exists>m m' d d' x x'. sentBy sent s' = sentBy sent s @ [m, m'] \<and> cs_didRead s' = cs_didRead s \<and>
    carries env ChaincodeMessage_PUT_STATE (PutState '''' (args ! 0) [] (Some d)) m \<and>
    carries env ChaincodeMessage_PUT_STATE (PutState '''' (args ! 1) [] (Some d')) m' \<and>
    toDelta d = Inr x \<and> toDelta d' = Inr x' \<and> exactAmount x \<le> 0 \<and> exactAmount x + exactAmount x' = 0"
proof -
  obtain n ver m m' d d' where t: "0 \<le> sint n" "sentBy sent s' = sentBy sent s @ [m, m']" "cs_didRead s' = cs_didRead s"
    "buildShimDelta tdcc_typeID DeltaDescriptor_SUB (int64BE n) ver = Inr d"
    "buildShimDelta tdcc_typeID DeltaDescriptor_ADD (int64BE n) ver = Inr d'"
    "carries env ChaincodeMessage_PUT_STATE (PutState '''' (args ! 0) [] (Some d)) m"
    "carries env ChaincodeMessage_PUT_STATE (PutState '''' (args ! 1) [] (Some d')) m'"
    using transfer_sends [OF assms] by blast
  then obtain x x' where "toDelta d = Inr x" "toDelta d' = Inr x'" "exactAmount x = - sint n" "exactAmount x' = sint n"
    using toDelta_int64BE [OF t(4)] toDelta_int64BE [OF t(5)] by auto
  with t show ?thesis
    by (intro exI [of _ m] exI [of _ m'] exI [of _ d] exI [of _ d'] exI [of _ x] exI [of _ x']) auto
qed

theorem transfer_conserves_witness:
  "\<exists>s'. transfer exCCLib exCCEnv [''A'', ''B'', ''7''] (exCCStub []) = (Return (cl_Success exCCLib []), s') \<and>
     length (sentBy (\<lambda>w. w) s') = 2"
proof -
  have facts: "\<not> reservedKey ''A''" "\<not> reservedKey ''B''"
    by (simp_all add: reservedKey_def schemaKeyPrefix_def HasPrefix_def)
  have parse: "ParseInt ''7'' = Some 7" by (simp add: ParseInt_def ParseUint_def digitVal_def Let_def)
  have b: "\<exists>d. buildShimDelta tdcc_typeID op (int64BE 7) (bytes_of_string defaultVersion) = Inr d"
    if "op = DeltaDescriptor_ADD \<or> op = DeltaDescriptor_SUB" for op
    using that by (simp add: buildShimDelta_Inr int64BE_def)
  have open1: "h_responseChannels (cs_handler (exCCStub [])) = Some {}" "\<not> cs_didRead (exCCStub [])"
    "cs_plainKeys (exCCStub []) = {}" using exOpen_stub [of "[]"] by (simp_all add: exOpen_def)
  obtain d where d: "buildShimDelta tdcc_typeID DeltaDescriptor_SUB (int64BE 7) (bytes_of_string defaultVersion) = Inr d"
    using b by blast
  obtain d' where d': "buildShimDelta tdcc_typeID DeltaDescriptor_ADD (int64BE 7) (bytes_of_string defaultVersion) = Inr d'"
    using b by blast
  obtain s1 where s1: "tdcc_PutDelta exCCEnv ''A'' DeltaDescriptor_SUB 7 defaultVersion (exCCStub []) = (Return (Inr ()), s1)"
    "h_responseChannels (cs_handler s1) = Some {}" "\<not> cs_didRead s1" "cs_plainKeys s1 = {}"
    using exCC_PutDelta [OF open1(1) _ open1(2) _ d, of "''A''"] open1(3) unfolding tdcc_PutDelta_eq by auto
  obtain s' where s': "tdcc_PutDelta exCCEnv ''B'' DeltaDescriptor_ADD 7 defaultVersion s1 = (Return (Inr ()), s')"
    using exCC_PutDelta [OF s1(2) _ s1(3) _ d', of "''B''"] s1(4) unfolding tdcc_PutDelta_eq by auto
  have run: "transfer exCCLib exCCEnv [''A'', ''B'', ''7''] (exCCStub []) = (Return (cl_Success exCCLib []), s')"
    by (simp add: transfer_def facts parse s1(1) s' orError_def go_defs word_sless_alt)
  from transfer_conserves [OF exCC_facts run] obtain m m' where
    "sentBy (\<lambda>w. w) s' = sentBy (\<lambda>w. w) (exCCStub []) @ [m, m']"
    by (elim exE conjE) (rule that)
  then have "length (sentBy (\<lambda>w. w) s') = 2" by (simp add: exCCStub_def exStub_fields newChaincodeHandler_def)
  with run show ?thesis by (intro exI [of _ s'] conjI)
qed

lemma revealDebit_success:
  assumes "responsesDiffer lib" "revealDebit lib env args s = (Return (cl_Success lib p), s')"
  shows "\<exists>n cur bal s1. \<not> reservedKey (args ! 0) \<and> ParseInt (args ! 1) = Some n \<and> 0 \<le> sint n \<and>
    cs_GetState env (args ! 0) s = (Return (Inr cur), s1) \<and> decodeBE cur = Inr bal \<and> \<not> bal <s n \<and>
    putAndSucceed lib env (args ! 0) (int64BE (bal - n)) s1 = (Return (cl_Success lib p), s')"
proof -
  let ?rest = "\<lambda>n cur. if cur = [] then gret (cl_Error lib (''key not found: '' @ args ! 0))
     else (case decodeBE cur of Inl err \<Rightarrow> gret (cl_Error lib err)
           | Inr bal \<Rightarrow> if bal <s n then gret (cl_Error lib ''insufficient balance'')
                        else putAndSucceed lib env (args ! 0) (int64BE (bal - n)))"
  obtain n where n: "\<not> reservedKey (args ! 0)" "length args = 2" "ParseInt (args ! 1) = Some n" "0 \<le> sint n"
    using assms by (auto simp: revealDebit_def gret_def responsesDiffer_def word_sless_iff split: if_splits option.splits)
  have "\<exists>cur s1. cs_GetState env (args ! 0) s = (Return (Inr cur), s1) \<and> ?rest n cur s1 = (Return (cl_Success lib p), s')"
    using n assms(2) by (intro orError_success [OF _ assms(1)]) (simp add: revealDebit_def word_sless_iff)
  then obtain cur s1 where g: "cs_GetState env (args ! 0) s = (Return (Inr cur), s1)"
    and rest: "?rest n cur s1 = (Return (cl_Success lib p), s')" by blast
  from rest assms(1) obtain bal where "decodeBE cur = Inr bal" "\<not> bal <s n"
    "putAndSucceed lib env (args ! 0) (int64BE (bal - n)) s1 = (Return (cl_Success lib p), s')"
    by (auto simp: gret_def responsesDiffer_def split: sum.splits if_splits)
  with n g show ?thesis by blast
qed

lemma sint_diff64: "0 \<le> sint n \<Longrightarrow> sint n \<le> sint bal \<Longrightarrow> sint (bal - n :: int64) = sint bal - sint n"
  using sint_add64 [of bal "- n"] sint_neg64 [of n] sint_bounds64 [of bal] by (simp add: in_int64_def)

text \<open>
  The revealing debit is exact. When \<open>RevealDebit\<close> reports success it has read the balance,
  found it to cover the amount, and sent one plain write of the exact, non-negative difference; the
  stub is marked as having read, so no delta can follow in the same transaction.
\<close>

theorem revealDebit_exact:
  assumes "recordsAll env sent" and "responsesDiffer lib"
    and "revealDebit lib env args s = (Return (cl_Success lib p), s')"
  shows "\<exists>n cur bal s1 m next. ParseInt (args ! 1) = Some n \<and>
    cs_GetState env (args ! 0) s = (Return (Inr cur), s1) \<and> decodeBE cur = Inr bal \<and>
    sentBy sent s' = sentBy sent s1 @ [m] \<and>
    carries env ChaincodeMessage_PUT_STATE (PutState '''' (args ! 0) (int64BE next) None) m \<and>
    sint next = sint bal - sint n \<and> 0 \<le> sint next \<and> sint next \<le> sint bal \<and> cs_didRead s1"
proof -
  obtain n cur bal s1 where run: "ParseInt (args ! 1) = Some n" "0 \<le> sint n"
    "cs_GetState env (args ! 0) s = (Return (Inr cur), s1)" "decodeBE cur = Inr bal" "\<not> bal <s n"
    "putAndSucceed lib env (args ! 0) (int64BE (bal - n)) s1 = (Return (cl_Success lib p), s')"
    using revealDebit_success [OF assms(2,3)] by blast
  obtain m where m: "sentBy sent s' = sentBy sent s1 @ [m]"
    "carries env ChaincodeMessage_PUT_STATE (PutState '''' (args ! 0) (int64BE (bal - n)) None) m"
    using putAndSucceed_success [OF assms(1,2) run(6)] by blast
  have "cs_didRead s1"
    using run(3) sstub.read_step [of env s "RdGetState (args ! 0)"] by (auto simp: accepted_def)
  with run(1-5) m sint_diff64 [of n bal] show ?thesis
    by (intro exI [of _ n] exI [of _ cur] exI [of _ bal] exI [of _ s1] exI [of _ m] exI [of _ "bal - n"])
       (simp add: word_sless_iff)
qed

theorem revealDebit_exact_witness:
  "\<exists>s' next :: int64. revealDebit exCCLib exCCEnv [''A'', ''5''] (exCCStub []) = (Return (cl_Success exCCLib []), s') \<and>
     sint next = 0 \<and> (\<exists>m. carries exCCEnv ChaincodeMessage_PUT_STATE (PutState '''' ''A'' (int64BE next) None) m)"
proof -
  have p: "ParseInt ''5'' = Some 5" by (simp add: ParseInt_def ParseUint_def digitVal_def Let_def)
  have nr: "\<not> reservedKey ''A''" by (simp add: reservedKey_def schemaKeyPrefix_def HasPrefix_def)
  have ne: "int64BE 5 \<noteq> []" using cc_codec.length_enc [of 5] by (metis length_0_conv zero_neq_numeral)
  obtain s1 s' where g: "cs_GetState exCCEnv ''A'' (exCCStub []) = (Return (Inr (int64BE 5)), s1)"
    and put: "cs_PutState exCCEnv ''A'' (int64BE (5 - 5)) s1 = (Return (Inr ()), s')"
    using exPeer_rmw [of "''A''" "int64BE 5" "[]", folded exCCEnv_def] by (metis list.distinct(1))
  have run: "revealDebit exCCLib exCCEnv [''A'', ''5''] (exCCStub []) = (Return (cl_Success exCCLib []), s')"
    using g put ne by (simp add: revealDebit_def nr p word_sless_alt putAndSucceed_def orError_def go_defs)
  from revealDebit_exact [OF exCC_facts run] obtain n cur bal m "next" where r: "ParseInt ''5'' = Some n"
    "cs_GetState exCCEnv ''A'' (exCCStub []) = (Return (Inr cur), s1)" "decodeBE cur = Inr bal"
    "carries exCCEnv ChaincodeMessage_PUT_STATE (PutState '''' ''A'' (int64BE next) None) m" "sint next = sint bal - sint n"
    using g by auto
  then have "sint next = 0" using g p by auto
  with run r(4) show ?thesis by auto
qed

end
