(* ===== verification/End_To_End.thy ===== *)
theory End_To_End
  imports CC_TypedDelta Validation
begin

text \<open>
  From the chaincode to the committed state: the messages a transfer sends, the transaction the peer
  simulates from them, the verdict of the commit-time hooks and the values they materialise.
\<close>

text \<open>
  What the peer's simulation makes of the messages of a chaincode that only sends deltas: one write
  for each of them in the namespace of the chaincode, in some order (the read-write set is sorted by
  key).
\<close>

definition simulatedAs :: "('w, 'z) shim_env_scheme \<Rightarrow> string \<Rightarrow> ChaincodeMessage list \<Rightarrow> KVRWSet TxRwSet \<Rightarrow> bool" where
  "simulatedAs env ns msgs tx \<longleftrightarrow>
     (\<exists>ws. mset ws = mset (allWrites tx) \<and>
        list_all2 (\<lambda>m (n, w). n = ns \<and>
          (\<forall>k d. carries env ChaincodeMessage_PUT_STATE (PutState '''' k [] (Some d)) m \<longrightarrow> w_Key w = k \<and> w_Delta w = Some d)) msgs ws)"

lemma mset_two: "mset [a, b] = mset xs \<Longrightarrow> xs = [a, b] \<or> xs = [b, a]"
proof -
  assume m: "mset [a, b] = mset xs"
  then have "length xs = 2" by (metis size_mset length_Cons list.size(3) numeral_2_eq_2)
  then obtain x y where "xs = [x, y]" by (auto simp: numeral_2_eq_2 length_Suc_conv)
  with m show ?thesis by (auto simp: add_eq_conv_ex)
qed

lemma transfer_deltas:
  assumes "allWrites tx = [(ns, w), (ns, w')] \<or> allWrites tx = [(ns, w'), (ns, w)]"
    and "w_Key w = a" "w_Delta w = Some d" "w_Key w' = b" "w_Delta w' = Some d'"
    and "toDelta d = Inr x" "toDelta d' = Inr x'"
  shows "exactSum (deltasOf (pubKey ns a) (allWrites tx)) = exactAmount x + (if a = b then exactAmount x' else 0)"
    "exactSum (deltasOf (pubKey ns b) (allWrites tx)) = exactAmount x' + (if a = b then exactAmount x else 0)"
    "deltaKeysOf (allWrites tx) = {pubKey ns a, pubKey ns b}"
  using assms by auto

text \<open>
  C3 (committed transfers conserve the total). When \<open>Transfer(from, to, n)\<close> reports success and the
  commit-time hooks accept the transaction simulated from the messages it sent, the hooks
  materialise it without error: the committed balances of \<open>from\<close> and \<open>to\<close> add up to what they were
  before, \<open>from\<close> does not gain, both satisfy the invariant of their schema, and no other key is
  written. This holds for every iteration order of the maps and also when \<open>from\<close> is \<open>to\<close>.
\<close>

theorem committed_transfer_conserves:
  assumes "recordsAll env sent" and "responsesDiffer lib"
    and "transfer lib env args s = (Return (cl_Success lib p), s')"
    and "sentBy sent s' = sentBy sent s @ msgs" and "simulatedAs env ns msgs tx"
    and "validateTypedDeltaTx ord v tx updates lookup = Inr VALID"
    and "is_range_order ord" and "is_range_order ord'"
    and "\<And>k b ops. get (upsert k b ops) = (get ops)(k \<mapsto> b)"
  shows "\<exists>ops' cf ct nf nt. applyTypedDeltas ord' upsert ops tx updates (v_db v) = (None, ops') \<and>
    currentInt64 ns (args ! 0) updates (v_db v) = Inr cf \<and> currentInt64 ns (args ! 1) updates (v_db v) = Inr ct \<and>
    get ops' (pubKey ns (args ! 0)) = Some (MarshalInt64 nf) \<and> get ops' (pubKey ns (args ! 1)) = Some (MarshalInt64 nt) \<and>
    sint nf + sint nt = sint cf + sint ct \<and> sint nf \<le> sint cf \<and>
    (\<exists>sc inva. lookup ns (args ! 0) = Inr (Some sc) \<and> schema_invariant sc = Inr inva \<and> Holds inva nf) \<and>
    (\<exists>sc inva. lookup ns (args ! 1) = Inr (Some sc) \<and> schema_invariant sc = Inr inva \<and> Holds inva nt) \<and>
    (\<forall>k. k \<noteq> pubKey ns (args ! 0) \<longrightarrow> k \<noteq> pubKey ns (args ! 1) \<longrightarrow> get ops' k = get ops k)"
proof -
  obtain n ver m m' d d' where n: "0 \<le> sint n" and sent: "sentBy sent s' = sentBy sent s @ [m, m']"
    and b: "buildShimDelta tdcc_typeID DeltaDescriptor_SUB (int64BE n) ver = Inr d"
      "buildShimDelta tdcc_typeID DeltaDescriptor_ADD (int64BE n) ver = Inr d'"
    and c: "carries env ChaincodeMessage_PUT_STATE (PutState '''' (args ! 0) [] (Some d)) m"
      "carries env ChaincodeMessage_PUT_STATE (PutState '''' (args ! 1) [] (Some d')) m'"
    using transfer_sends [OF assms(1-3)] by blast
  obtain x x' where x: "toDelta d = Inr x" "toDelta d' = Inr x'" "exactAmount x = - sint n" "exactAmount x' = sint n"
    using toDelta_int64BE [OF b(1)] toDelta_int64BE [OF b(2)] by auto
  have "msgs = [m, m']" using sent assms(4) by simp
  then obtain w w' where ws: "mset [(ns, w), (ns, w')] = mset (allWrites tx)"
    and w: "w_Key w = args ! 0" "w_Delta w = Some d" "w_Key w' = args ! 1" "w_Delta w' = Some d'"
    using assms(5) c by (auto simp: simulatedAs_def list_all2_Cons1)
  note sums = transfer_deltas [OF mset_two [OF ws] w x(1,2)]
  let ?good = "\<lambda>ops' k cur nxt. currentInt64 ns k updates (v_db v) = Inr cur \<and> get ops' (pubKey ns k) = Some (MarshalInt64 nxt) \<and>
    sint nxt = sint cur + exactSum (deltasOf (pubKey ns k) (allWrites tx)) \<and>
    (\<exists>sc inva. lookup ns k = Inr (Some sc) \<and> schema_invariant sc = Inr inva \<and> Holds inva nxt)"
  obtain ops' where app: "applyTypedDeltas ord' upsert ops tx updates (v_db v) = (None, ops')"
    and rest: "\<forall>k. k \<notin> deltaKeysOf (allWrites tx) \<longrightarrow> get ops' k = get ops k"
    and vals: "\<And>k. pubKey ns k \<in> deltaKeysOf (allWrites tx) \<Longrightarrow> \<exists>cur nxt. ?good ops' k cur nxt"
    using materialised_values [OF assms(6-9), of ops] by fastforce
  obtain cf nf where f: "?good ops' (args ! 0) cf nf" using vals [of "args ! 0"] sums(3) by auto
  obtain ct nt where t: "?good ops' (args ! 1) ct nt" using vals [of "args ! 1"] sums(3) by auto
  have "sint nf + sint nt = sint cf + sint ct" "sint nf \<le> sint cf" using f t sums(1,2) x(3,4) n by auto
  with app rest f t sums(3) show ?thesis by blast
qed

section \<open>An example\<close>

text \<open>A wire format for the two messages of a transfer of 7 from A to B, and a database that holds 10 and 1.\<close>

definition exMarshal :: "request \<Rightarrow> string + bytes" where
  "exMarshal r =
     (if r = PutState '''' ''A'' [] (w_Delta (exWrite ''A'' DeltaDescriptor_SUB 7)) then Inr [1]
      else if r = PutState '''' ''B'' [] (w_Delta (exWrite ''B'' DeltaDescriptor_ADD 7)) then Inr [2]
      else Inl ''unsupported'')"

definition exWireEnv :: "ChaincodeMessage list stub_env" where
  "exWireEnv = exCCEnv\<lparr>env_Marshal := exMarshal\<rparr>"

definition exFunded :: stateDB where
  "exFunded ns key = Inr (if key = ''A'' then Some \<lparr>vv_Value = MarshalInt64 10\<rparr> else if key = ''B'' then Some \<lparr>vv_Value = MarshalInt64 1\<rparr> else None)"

definition exTransferTx :: "KVRWSet TxRwSet" where
  "exTransferTx = exTx [exWrite ''A'' DeltaDescriptor_SUB 7, exWrite ''B'' DeltaDescriptor_ADD 7]"

lemma exWire_PutDelta:
  assumes "h_responseChannels (cs_handler s) = Some {}" "key \<noteq> ''''" "\<not> cs_didRead s" "key \<notin> cs_plainKeys s"
    and "buildShimDelta tid op arg sv = Inr d" "exMarshal (PutState '''' key [] (Some d)) = Inr b"
  shows "\<exists>s' m. cs_PutDelta exWireEnv key tid op arg sv s = (Return (Inr ()), s') \<and>
    h_responseChannels (cs_handler s') = Some {} \<and> \<not> cs_didRead s' \<and> cs_plainKeys s' = cs_plainKeys s \<and>
    h_chatStream (cs_handler s') = h_chatStream (cs_handler s) @ [m] \<and> cm_Payload m = b"
  using assms by (simp add: exWireEnv_def exCC_evals)

lemma exTransfer_runs:
  "\<exists>s' m m'. transfer exCCLib exWireEnv [''A'', ''B'', ''7''] (exCCStub []) = (Return (cl_Success exCCLib []), s') \<and>
     h_chatStream (cs_handler s') = h_chatStream (cs_handler (exCCStub [])) @ [m, m'] \<and> cm_Payload m = [1] \<and> cm_Payload m' = [2]"
proof -
  have facts: "\<not> reservedKey ''A''" "\<not> reservedKey ''B''"
    by (simp_all add: reservedKey_def schemaKeyPrefix_def HasPrefix_def)
  have parse: "ParseInt ''7'' = Some 7" by (simp add: ParseInt_def ParseUint_def digitVal_def Let_def)
  let ?d = "\<lambda>op. \<lparr>dd_TypeId = tdcc_typeID, dd_SchemaVersion = bytes_of_string defaultVersion, dd_Op = op, dd_Arg = int64BE 7\<rparr>"
  have d: "buildShimDelta tdcc_typeID DeltaDescriptor_SUB (int64BE 7) (bytes_of_string defaultVersion) = Inr (?d DeltaDescriptor_SUB)"
    "buildShimDelta tdcc_typeID DeltaDescriptor_ADD (int64BE 7) (bytes_of_string defaultVersion) = Inr (?d DeltaDescriptor_ADD)"
    by (simp_all add: buildShimDelta_Inr int64BE_def)
  have b: "exMarshal (PutState '''' ''A'' [] (Some (?d DeltaDescriptor_SUB))) = Inr [1]"
    "exMarshal (PutState '''' ''B'' [] (Some (?d DeltaDescriptor_ADD))) = Inr [2]"
    by (simp_all add: exMarshal_def exWrite_def tdcc_typeID_def defaultVersion_def int64BE_def MarshalInt64_def)
  have open1: "h_responseChannels (cs_handler (exCCStub [])) = Some {}" "\<not> cs_didRead (exCCStub [])" "cs_plainKeys (exCCStub []) = {}"
    using exOpen_stub [of "[]"] by (simp_all add: exOpen_def)
  obtain s1 m where s1: "tdcc_PutDelta exWireEnv ''A'' DeltaDescriptor_SUB 7 defaultVersion (exCCStub []) = (Return (Inr ()), s1)"
    "h_responseChannels (cs_handler s1) = Some {}" "\<not> cs_didRead s1" "cs_plainKeys s1 = {}"
    "h_chatStream (cs_handler s1) = h_chatStream (cs_handler (exCCStub [])) @ [m]" "cm_Payload m = [1]"
    using exWire_PutDelta [OF open1(1) _ open1(2) _ d(1) b(1)] open1(3) unfolding tdcc_PutDelta_eq by auto
  obtain s' m' where s': "tdcc_PutDelta exWireEnv ''B'' DeltaDescriptor_ADD 7 defaultVersion s1 = (Return (Inr ()), s')"
    "h_chatStream (cs_handler s') = h_chatStream (cs_handler s1) @ [m']" "cm_Payload m' = [2]"
    using exWire_PutDelta [OF s1(2) _ s1(3) _ d(2) b(2)] s1(4) unfolding tdcc_PutDelta_eq by auto
  have "transfer exCCLib exWireEnv [''A'', ''B'', ''7''] (exCCStub []) = (Return (cl_Success exCCLib []), s')"
    by (simp add: transfer_def facts parse s1(1) s'(1) orError_def go_defs word_sless_alt)
  with s1(5,6) s'(2,3) show ?thesis by auto
qed

lemma exTransfer_simulated:
  assumes "cm_Payload m = [1]" "cm_Payload m' = [2]"
  shows "simulatedAs exWireEnv ''acct'' [m, m'] exTransferTx"
  unfolding simulatedAs_def
  by (rule exI [of _ "allWrites exTransferTx"])
     (use assms in \<open>simp add: exTransferTx_def exTx_def allWrites_def carries_def exWireEnv_def exMarshal_def exWrite_def\<close>)

theorem committed_transfer_conserves_witness:
  "\<exists>ops' nf nt. applyTypedDeltas id (\<lambda>k b ops. ops(k \<mapsto> b)) Map.empty exTransferTx (\<lambda>_ _. None) exFunded = (None, ops') \<and>
     ops' (pubKey ''acct'' ''A'') = Some (MarshalInt64 nf) \<and> ops' (pubKey ''acct'' ''B'') = Some (MarshalInt64 nt) \<and>
     sint nf + sint nt = 11"
proof -
  let ?v = "\<lparr>v_db = exFunded, v_typedDeltaEnabled = True\<rparr>"
  obtain s' m m' where run: "transfer exCCLib exWireEnv [''A'', ''B'', ''7''] (exCCStub []) = (Return (cl_Success exCCLib []), s')"
    and sent: "sentBy (\<lambda>w. w) s' = sentBy (\<lambda>w. w) (exCCStub []) @ [m, m']" and p: "cm_Payload m = [1]" "cm_Payload m' = [2]"
    using exTransfer_runs by blast
  have rec: "recordsAll exWireEnv (\<lambda>w. w)" using exCC_facts(1) by (simp add: recordsAll_def exWireEnv_def)
  have valid: "validateTypedDeltaTx rev ?v exTransferTx (\<lambda>_ _. None) exLookup = Inr VALID" by code_simp
  have cur: "currentInt64 ''acct'' ''A'' (\<lambda>_ _. None) exFunded = Inr 10" "currentInt64 ''acct'' ''B'' (\<lambda>_ _. None) exFunded = Inr 1"
    by code_simp+
  from committed_transfer_conserves [OF rec exCC_facts(2) run sent exTransfer_simulated [OF p] valid is_range_order_rev
      is_range_order_id(1), of "\<lambda>ops. ops" "\<lambda>k b ops. ops(k \<mapsto> b)" Map.empty] cur
  show ?thesis by fastforce
qed

end
