(* ===== verification/History.thy ===== *)
theory History
  imports Protos Validation
begin

text \<open>
  \<open>history/query_executer.go\<close>: the history query, which replays the writes to one key in
  commit order, folds typed deltas onto a running value and returns the modifications newest first.
  The history index, the block store, the protobuf parsers and \<open>rwsetutil.IsKVWriteDelete\<close> are
  arguments.
\<close>

section \<open>One transaction\<close>

text \<open>Errors handed up or built here, and the run-time panics of an unguarded access.\<close>

datatype hist_error = HistError string | HistNegativeArg | HistUnsupportedOp DeltaDescriptor_Op
  | HistTd td_error | HistPanic string

definition deltaFromDescriptor :: "DeltaDescriptor \<Rightarrow> hist_error + Delta" where
  "deltaFromDescriptor d =
     (case UnmarshalInt64 (dd_Arg d) of
        Inl err \<Rightarrow> Inl (HistTd err)
      | Inr arg \<Rightarrow>
          if arg <s 0 then Inl HistNegativeArg
          else (case dd_Op d of
                  DeltaDescriptor_ADD \<Rightarrow> Inr \<lparr>d_Op = OpAdd, d_Arg = arg\<rparr>
                | DeltaDescriptor_SUB \<Rightarrow> Inr \<lparr>d_Op = OpSub, d_Arg = arg\<rparr>
                | DeltaDescriptor_OTHER n \<Rightarrow> Inl (HistUnsupportedOp (dd_Op d))))"

text \<open>The first namespace entry with the right name supplies the writes.\<close>

fun nsWrites_loop :: "string \<Rightarrow> string \<Rightarrow> KVRWSet NsRwSet list \<Rightarrow> KVWrite list option" where
  "nsWrites_loop namespace key [] = None"
| "nsWrites_loop namespace key (nsRWSet # r) =
     (if NameSpace nsRWSet = namespace
      then Some (filter (\<lambda>w. w_Key w = key) (Writes (KvRwSet nsRWSet)))
      else nsWrites_loop namespace key r)"

definition getKeyWritesFromTran ::
  "protoutil \<Rightarrow> (bytes \<Rightarrow> string + KVRWSet TxRwSet) \<Rightarrow> Envelope \<Rightarrow> string \<Rightarrow> string \<Rightarrow>
     hist_error + KVWrite list \<times> string \<times> int" where
  "getKeyWritesFromTran pu fromProtoBytes tranEnvelope namespace key =
     (case UnmarshalPayload pu (env_Payload tranEnvelope) of
        Inl err \<Rightarrow> Inl (HistError err)
      | Inr payload \<Rightarrow>
     (case UnmarshalTransaction pu (pl_Data payload) of
        Inl err \<Rightarrow> Inl (HistError err)
      | Inr tx \<Rightarrow>
     (case tx_Actions tx of
        [] \<Rightarrow> Inl (HistPanic ''index out of range'')
      | action # _ \<Rightarrow>
     (case GetPayloads pu action of
        Inl err \<Rightarrow> Inl (HistError err)
      | Inr results \<Rightarrow>
     (case pl_Header payload of
        None \<Rightarrow> Inl (HistPanic ''nil pointer dereference'')
      | Some hdr \<Rightarrow>
     (case UnmarshalChannelHeader pu (h_ChannelHeader hdr) of
        Inl err \<Rightarrow> Inl (HistError err)
      | Inr chdr \<Rightarrow>
     (case fromProtoBytes results of
        Inl err \<Rightarrow> Inl (HistError err)
      | Inr txRWSet \<Rightarrow>
     (case nsWrites_loop namespace key (NsRwSets txRWSet) of
        Some writes \<Rightarrow> Inr (writes, ch_TxId chdr, ch_Timestamp chdr)
      | None \<Rightarrow> Inr ([], '''', 0)))))))))"

text \<open>The first loop of the fold: the first write without a delta decides.\<close>

fun firstPlain :: "KVWrite list \<Rightarrow> KVWrite option" where
  "firstPlain [] = None"
| "firstPlain (w # ws) = (if w_Delta w \<noteq> None then firstPlain ws else Some w)"

text \<open>The second loop, reached only when every write carries a delta.\<close>

fun descriptorDeltas :: "KVWrite list \<Rightarrow> hist_error + Delta list" where
  "descriptorDeltas [] = Inr []"
| "descriptorDeltas (w # ws) =
     (case deltaFromDescriptor (the (w_Delta w)) of
        Inl err \<Rightarrow> Inl err
      | Inr d \<Rightarrow> (case descriptorDeltas ws of Inl err \<Rightarrow> Inl err | Inr ds \<Rightarrow> Inr (d # ds)))"

definition foldWrites ::
  "(KVWrite \<Rightarrow> bool) \<Rightarrow> KVWrite list \<Rightarrow> string \<Rightarrow> int \<Rightarrow> int64 \<Rightarrow> KeyModification option \<times> int64" where
  "foldWrites isDelete writes txID ts running =
     (if length writes = 0 then (None, running)
      else
        (case firstPlain writes of
           Some w \<Rightarrow>
             if isDelete w
             then (Some \<lparr>km_TxId = txID, km_Value = [], km_Timestamp = ts, km_IsDelete = True\<rparr>, 0)
             else
               (let next' = (case UnmarshalInt64 (w_Value w) of Inr v \<Rightarrow> v | Inl _ \<Rightarrow> running)
                in (Some \<lparr>km_TxId = txID, km_Value = w_Value w, km_Timestamp = ts, km_IsDelete = False\<rparr>, next'))
         | None \<Rightarrow>
             (case descriptorDeltas writes of
                Inl derr \<Rightarrow>
                  (Some \<lparr>km_TxId = txID, km_Value = w_Value (hd writes), km_Timestamp = ts,
                         km_IsDelete = isDelete (hd writes)\<rparr>, running)
              | Inr deltas \<Rightarrow>
                  (let next' = (case Apply running deltas of Inr v \<Rightarrow> v | Inl _ \<Rightarrow> running)
                   in (Some \<lparr>km_TxId = txID, km_Value = MarshalInt64 next', km_Timestamp = ts,
                             km_IsDelete = False\<rparr>, next')))))"

definition foldKeyModificationFromTran ::
  "protoutil \<Rightarrow> (bytes \<Rightarrow> string + KVRWSet TxRwSet) \<Rightarrow> (KVWrite \<Rightarrow> bool) \<Rightarrow> Envelope \<Rightarrow> string \<Rightarrow> string \<Rightarrow>
     int64 \<Rightarrow> hist_error + KeyModification option \<times> int64" where
  "foldKeyModificationFromTran pu fromProtoBytes isDelete tranEnvelope namespace key running =
     (case getKeyWritesFromTran pu fromProtoBytes tranEnvelope namespace key of
        Inl err \<Rightarrow> Inl err
      | Inr (writes, txID, ts) \<Rightarrow> Inr (foldWrites isDelete writes txID ts running))"

section \<open>The query\<close>

text \<open>
  The iterator over the history index: the keys it yields in order and the error it ends with, if
  any.
\<close>

record history_iterator =
  itr_keys :: "bytes list"
  itr_Error :: "string option"

record history_store =
  hs_GetIterator :: "string \<Rightarrow> string \<Rightarrow> string + history_iterator"
  hs_decodeBlockNumTranNum :: "bytes \<Rightarrow> string + uint64 \<times> uint64"
  hs_RetrieveTx :: "uint64 \<Rightarrow> uint64 \<Rightarrow> string + Envelope"

fun history_loop ::
  "history_store \<Rightarrow> (Envelope \<Rightarrow> int64 \<Rightarrow> hist_error + KeyModification option \<times> int64) \<Rightarrow>
     int64 \<Rightarrow> KeyModification list \<Rightarrow> bytes list \<Rightarrow> hist_error + KeyModification list" where
  "history_loop hs fold1 running mods [] = Inr mods"
| "history_loop hs fold1 running mods (historyKey # r) =
     (case hs_decodeBlockNumTranNum hs historyKey of
        Inl err \<Rightarrow> Inl (HistError err)
      | Inr (blockNum, tranNum) \<Rightarrow>
     (case hs_RetrieveTx hs blockNum tranNum of
        Inl err \<Rightarrow> Inl (HistError err)
      | Inr tranEnvelope \<Rightarrow>
     (case fold1 tranEnvelope running of
        Inl err \<Rightarrow> Inl err
      | Inr (None, next') \<Rightarrow> history_loop hs fold1 running mods r
      | Inr (Some m, next') \<Rightarrow> history_loop hs fold1 next' (mods @ [m]) r)))"

text \<open>The in-place reversal: \<open>i\<close> runs up, \<open>j\<close> runs down, and the two entries swap.\<close>

function swap_loop :: "nat \<Rightarrow> nat \<Rightarrow> 'a list \<Rightarrow> 'a list" where
  "swap_loop i j xs = (if i < j then swap_loop (i + 1) (j - 1) (xs[i := xs ! j, j := xs ! i]) else xs)"
  by pat_completeness auto
termination by (relation "measure (\<lambda>(i, j, xs). j - i)") auto

declare swap_loop.simps [simp del]

record historyScanner =
  sc_mods :: "KeyModification list"
  sc_pos :: nat

definition GetHistoryForKey ::
  "protoutil \<Rightarrow> (bytes \<Rightarrow> string + KVRWSet TxRwSet) \<Rightarrow> (KVWrite \<Rightarrow> bool) \<Rightarrow> history_store \<Rightarrow> string \<Rightarrow> string \<Rightarrow>
     hist_error + historyScanner" where
  "GetHistoryForKey pu fromProtoBytes isDelete hs namespace key =
     (case hs_GetIterator hs namespace key of
        Inl err \<Rightarrow> Inl (HistError err)
      | Inr dbItr \<Rightarrow>
     (case history_loop hs
             (\<lambda>env running. foldKeyModificationFromTran pu fromProtoBytes isDelete env namespace key running)
             0 [] (itr_keys dbItr) of
        Inl err \<Rightarrow> Inl err
      | Inr mods \<Rightarrow>
     (case itr_Error dbItr of
        Some err \<Rightarrow> Inl (HistError (''error iterating history db: '' @ err))
      | None \<Rightarrow> Inr \<lparr>sc_mods = swap_loop 0 (length mods - 1) mods, sc_pos = 0\<rparr>)))"

definition historyScanner_Next :: "historyScanner \<Rightarrow> KeyModification option \<times> historyScanner" where
  "historyScanner_Next scanner =
     (if sc_pos scanner \<ge> length (sc_mods scanner) then (None, scanner)
      else (Some (sc_mods scanner ! sc_pos scanner), scanner\<lparr>sc_pos := sc_pos scanner + 1\<rparr>))"

definition historyScanner_Close :: "historyScanner \<Rightarrow> historyScanner" where
  "historyScanner_Close scanner = scanner"

section \<open>The reversal and the scanner\<close>

lemma length_swap_loop [simp]: "length (swap_loop i j xs) = length xs"
proof (induction i j xs rule: swap_loop.induct)
  case (1 i j xs)
  then show ?case by (simp add: swap_loop.simps [of i j xs])
qed

lemma swap_loop_nth:
  "j < length xs \<Longrightarrow> k < length xs \<Longrightarrow>
     swap_loop i j xs ! k = (if i \<le> k \<and> k \<le> j then xs ! (i + j - k) else xs ! k)"
proof (induction i j xs rule: swap_loop.induct)
  case (1 i j xs)
  show ?case
  proof (cases "i < j")
    case True
    let ?ys = "xs[i := xs ! j, j := xs ! i]"
    have "swap_loop i j xs ! k = swap_loop (i + 1) (j - 1) ?ys ! k"
      using True by (simp add: swap_loop.simps [of i j xs])
    also have "\<dots> = (if i + 1 \<le> k \<and> k \<le> j - 1 then ?ys ! (i + j - k) else ?ys ! k)"
      using "1.IH" [OF True] "1.prems" True by simp
    also have "\<dots> = (if i \<le> k \<and> k \<le> j then xs ! (i + j - k) else xs ! k)"
      using True "1.prems" by (auto simp: nth_list_update)
    finally show ?thesis .
  next
    case False
    then have "swap_loop i j xs = xs" by (simp add: swap_loop.simps [of i j xs])
    moreover have "i \<le> k \<and> k \<le> j \<Longrightarrow> i + j - k = k" using False by linarith
    ultimately show ?thesis by auto
  qed
qed

lemma swap_loop_rev: "swap_loop 0 (length xs - 1) xs = rev xs"
proof (cases "xs = []")
  case True
  then show ?thesis by (simp add: swap_loop.simps [of 0 0])
next
  case False
  show ?thesis
  proof (rule nth_equalityI)
    fix k assume "k < length (swap_loop 0 (length xs - 1) xs)"
    then have "k < length xs" by simp
    moreover from this have "k \<le> length xs - 1" by linarith
    ultimately show "swap_loop 0 (length xs - 1) xs ! k = rev xs ! k"
      by (simp add: swap_loop_nth rev_nth)
  qed simp
qed

text \<open>The results of \<open>n\<close> successive calls of \<open>Next\<close>.\<close>

fun scan :: "nat \<Rightarrow> historyScanner \<Rightarrow> KeyModification option list" where
  "scan 0 scanner = []"
| "scan (Suc n) scanner = (case historyScanner_Next scanner of (m, scanner') \<Rightarrow> m # scan n scanner')"

lemma scan_all:
  "sc_pos sc \<le> length (sc_mods sc) \<Longrightarrow>
     scan (length (sc_mods sc) - sc_pos sc + n) sc = map Some (drop (sc_pos sc) (sc_mods sc)) @ replicate n None"
proof (induction "length (sc_mods sc) - sc_pos sc" arbitrary: sc)
  case 0
  then have "historyScanner_Next sc = (None, sc)" by (simp add: historyScanner_Next_def)
  then have "scan n sc = replicate n None" by (induction n) auto
  with 0 show ?case by simp
next
  case (Suc x)
  let ?sc = "sc\<lparr>sc_pos := sc_pos sc + 1\<rparr>"
  have lt: "sc_pos sc < length (sc_mods sc)" using Suc.hyps(2) by simp
  then have "historyScanner_Next sc = (Some (sc_mods sc ! sc_pos sc), ?sc)"
    by (simp add: historyScanner_Next_def)
  moreover have "length (sc_mods sc) - sc_pos sc + n = Suc (length (sc_mods ?sc) - sc_pos ?sc + n)"
    using lt by simp
  moreover have "scan (length (sc_mods ?sc) - sc_pos ?sc + n) ?sc =
      map Some (drop (sc_pos ?sc) (sc_mods ?sc)) @ replicate n None"
    using Suc.hyps(1) [of ?sc] Suc.hyps(2) lt by simp
  ultimately show ?case using lt by (simp add: Cons_nth_drop_Suc [symmetric])
qed

section \<open>The loop over the index\<close>

text \<open>What the index entry of one commit leads to: the writes to the key, transaction id, time.\<close>

type_synonym key_commit = "KVWrite list \<times> string \<times> int"

definition readsTo ::
  "protoutil \<Rightarrow> (bytes \<Rightarrow> string + KVRWSet TxRwSet) \<Rightarrow> history_store \<Rightarrow> string \<Rightarrow> string \<Rightarrow> bytes \<Rightarrow>
     key_commit \<Rightarrow> bool" where
  "readsTo pu fromProtoBytes hs namespace key historyKey t \<longleftrightarrow>
     (\<exists>b n env. hs_decodeBlockNumTranNum hs historyKey = Inr (b, n) \<and> hs_RetrieveTx hs b n = Inr env \<and>
        getKeyWritesFromTran pu fromProtoBytes env namespace key = Inr t)"

text \<open>The modifications in commit order, and the running value after them.\<close>

fun modsOf :: "(KVWrite \<Rightarrow> bool) \<Rightarrow> int64 \<Rightarrow> key_commit list \<Rightarrow> KeyModification list" where
  "modsOf isDelete running [] = []"
| "modsOf isDelete running ((writes, txID, ts) # r) =
     (case foldWrites isDelete writes txID ts running of
        (None, _) \<Rightarrow> modsOf isDelete running r
      | (Some m, next') \<Rightarrow> m # modsOf isDelete next' r)"

definition runningAfter :: "(KVWrite \<Rightarrow> bool) \<Rightarrow> int64 \<Rightarrow> KVWrite list list \<Rightarrow> int64" where
  "runningAfter isDelete = foldl (\<lambda>running ws. snd (foldWrites isDelete ws '''' 0 running))"

lemma history_loop_modsOf:
  assumes "list_all2 (readsTo pu fpb hs ns key) ks ts"
  shows "history_loop hs (\<lambda>env running. foldKeyModificationFromTran pu fpb isDelete env ns key running)
    running mods ks = Inr (mods @ modsOf isDelete running ts)"
  using assms
proof (induction arbitrary: running mods rule: list_all2_induct)
  case (Cons k ks t ts)
  obtain ws txID tm where t: "t = (ws, txID, tm)" by (cases t)
  with Cons(1,3) show ?case
    by (auto simp: readsTo_def foldKeyModificationFromTran_def split: prod.splits option.splits)
qed simp

section \<open>One commit\<close>

lemma foldWrites_snd: "snd (foldWrites isDelete ws txID ts r) = snd (foldWrites isDelete ws '''' 0 r)"
  by (auto simp: foldWrites_def Let_def split: option.splits sum.splits)

lemma firstPlain_None: "firstPlain ws = None \<longleftrightarrow> (\<forall>w \<in> set ws. w_Delta w \<noteq> None)"
  by (induction ws rule: firstPlain.induct) auto

text \<open>Reading a descriptor here agrees with \<open>toDelta\<close> of the validator on a non-negative amount.\<close>

lemma deltaFromDescriptor_Inr:
  "deltaFromDescriptor d = Inr x \<longleftrightarrow> toDelta d = Inr x \<and> 0 \<le> sint (d_Arg x)"
  by (auto simp: deltaFromDescriptor_def toDelta_def word_sless_iff
      split: sum.splits DeltaDescriptor_Op.splits)

lemma nsWrites_loop_allWrites:
  "distinct (map NameSpace nss) \<Longrightarrow>
     (case nsWrites_loop ns key nss of Some ws \<Rightarrow> ws | None \<Rightarrow> []) =
     map snd (filter (\<lambda>(n, w). n = ns \<and> w_Key w = key) (allWrites \<lparr>NsRwSets = nss\<rparr>))"
proof (induction ns key nss rule: nsWrites_loop.induct)
  case (2 ns key x r)
  have none: "nsWrites_loop ns key r = None" if "ns \<notin> set (map NameSpace r)" for r
    using that by (induction ns key r rule: nsWrites_loop.induct) auto
  have hd: "filter (\<lambda>(n, w). n = ns \<and> w_Key w = key) (map (Pair (NameSpace x)) (Writes (KvRwSet x))) =
      (if NameSpace x = ns then map (Pair ns) (filter (\<lambda>w. w_Key w = key) (Writes (KvRwSet x))) else [])"
    by (auto simp: filter_map comp_def)
  show ?case
  proof (cases "NameSpace x = ns")
    case True
    with "2.prems" have "ns \<notin> set (map NameSpace r)" by auto
    then have "filter (\<lambda>(n, w). n = ns \<and> w_Key w = key) (allWrites \<lparr>NsRwSets = r\<rparr>) = []"
      by (auto simp: filter_empty_conv allWrites_iff)
    with True hd show ?thesis by (simp add: allWrites_def comp_def)
  next
    case False
    with "2" hd show ?thesis by (simp add: allWrites_def)
  qed
qed (simp add: allWrites_def)

definition keyWrites :: "string \<Rightarrow> string \<Rightarrow> KVRWSet TxRwSet \<Rightarrow> KVWrite list" where
  "keyWrites ns key tx = (case nsWrites_loop ns key (NsRwSets tx) of Some ws \<Rightarrow> ws | None \<Rightarrow> [])"

lemma keyWrites_eq:
  "distinct (map NameSpace (NsRwSets tx)) \<Longrightarrow>
     keyWrites ns key tx = map snd (filter (\<lambda>(n, w). n = ns \<and> w_Key w = key) (allWrites tx))"
  using nsWrites_loop_allWrites [of "NsRwSets tx" ns key] by (simp add: keyWrites_def allWrites_def)

text \<open>When every write to the key carries a readable delta, both components fold the same list.\<close>

lemma descriptorDeltas_deltasOf:
  assumes "\<forall>w \<in> set (map snd (filter (\<lambda>(n, w). n = ns \<and> w_Key w = key) aw)).
      \<exists>dd d. w_Delta w = Some dd \<and> toDelta dd = Inr d"
    and "list_all validDelta (deltasOf (pubKey ns key) aw)"
  shows "descriptorDeltas (map snd (filter (\<lambda>(n, w). n = ns \<and> w_Key w = key) aw)) =
    Inr (deltasOf (pubKey ns key) aw)"
  using assms
proof (induction aw)
  case (Cons a aw)
  obtain n w where a: "a = (n, w)" by (cases a)
  show ?case
  proof (cases "n = ns \<and> w_Key w = key")
    case True
    with Cons.prems(1) a obtain dd d where d: "w_Delta w = Some dd" "toDelta dd = Inr d" by auto
    with True Cons.prems(2) a have "validDelta d" by simp
    then have "deltaFromDescriptor dd = Inr d"
      using d(2) by (auto simp: deltaFromDescriptor_Inr validDelta_def)
    with Cons True a d show ?thesis by auto
  next
    case False
    then have "deltasOf (pubKey ns key) (a # aw) = deltasOf (pubKey ns key) aw"
      using a by (auto split: option.splits sum.splits)
    with Cons False a show ?thesis by auto
  qed
qed simp

lemma modsOf_snoc:
  "modsOf isDelete r (ts @ [(ws, txID, tm)]) =
     modsOf isDelete r ts @
     (case foldWrites isDelete ws txID tm (runningAfter isDelete r (map fst ts)) of
        (None, _) \<Rightarrow> [] | (Some m, _) \<Rightarrow> [m])"
proof (induction ts arbitrary: r)
  case Nil
  then show ?case by (simp add: runningAfter_def split: prod.splits option.splits)
next
  case (Cons t ts)
  obtain ws' i' t' where t: "t = (ws', i', t')" by (cases t)
  obtain mo n where f: "foldWrites isDelete ws' i' t' r = (mo, n)" by fastforce
  have n: "runningAfter isDelete r (map fst (t # ts)) = runningAfter isDelete n (map fst ts)"
    using foldWrites_snd [of isDelete ws' i' t' r] t f by (simp add: runningAfter_def)
  have "mo = None \<Longrightarrow> n = r"
    using f by (auto simp: foldWrites_def Let_def split: if_splits option.splits sum.splits)
  with Cons t f n show ?case by (cases mo) auto
qed

lemma runningAfter_snoc:
  "runningAfter isDelete r (wss @ [ws]) = snd (foldWrites isDelete ws '''' 0 (runningAfter isDelete r wss))"
  by (simp add: runningAfter_def)

text \<open>
  The values a key takes while transactions commit, as the commit-time hooks make them: a
  transaction that does not write it, one whose deltas for it were validated and materialised on
  the current value, and one that writes it once, plainly, under a schema.
\<close>

inductive commits :: "string \<Rightarrow> string \<Rightarrow> KVRWSet TxRwSet list \<Rightarrow> int64 \<Rightarrow> bool" for ns key where
  genesis: "commits ns key [] 0"
| untouched: "commits ns key txs cur \<Longrightarrow> keyWrites ns key tx = [] \<Longrightarrow> commits ns key (txs @ [tx]) cur"
| deltas: "commits ns key txs cur \<Longrightarrow> distinct (map NameSpace (NsRwSets tx)) \<Longrightarrow>
     is_range_order ord \<Longrightarrow> is_range_order ord' \<Longrightarrow>
     validateTypedDeltaTx ord v tx updates lookup = Inr VALID \<Longrightarrow>
     currentInt64 ns key updates (v_db v) = Inr cur \<Longrightarrow> pubKey ns key \<in> deltaKeysOf (allWrites tx) \<Longrightarrow>
     applyTypedDeltas ord' (\<lambda>k b ops. ops(k \<mapsto> b)) Map.empty tx updates (v_db v) = (None, ops) \<Longrightarrow>
     ops (pubKey ns key) = Some (MarshalInt64 nxt) \<Longrightarrow> commits ns key (txs @ [tx]) nxt"
| plain: "commits ns key txs cur \<Longrightarrow> keyWrites ns key tx = [w] \<Longrightarrow> w_Delta w = None \<Longrightarrow>
     distinct (map NameSpace (NsRwSets tx)) \<Longrightarrow> is_range_order ord \<Longrightarrow>
     validateTypedDeltaTx ord v tx updates lookup = Inr VALID \<Longrightarrow> lookup ns key = Inr (Some sc) \<Longrightarrow>
     nxt = (if w_IsDelete w then 0 else Uint64 (w_Value w)) \<Longrightarrow> commits ns key (txs @ [tx]) nxt"

text \<open>What the newest modification says about the current value.\<close>

definition showsValue :: "KeyModification option \<Rightarrow> int64 \<Rightarrow> bool" where
  "showsValue mo cur \<longleftrightarrow>
     (case mo of
        None \<Rightarrow> cur = 0
      | Some m \<Rightarrow> if km_IsDelete m then cur = 0 else km_Value m = MarshalInt64 cur)"

lemma foldWrites_deltas:
  assumes "distinct (map NameSpace (NsRwSets tx))" "is_range_order ord" "is_range_order ord'"
    and "validateTypedDeltaTx ord v tx updates lookup = Inr VALID"
    and "currentInt64 ns key updates (v_db v) = Inr cur" "pubKey ns key \<in> deltaKeysOf (allWrites tx)"
    and "applyTypedDeltas ord' (\<lambda>k b ops. ops(k \<mapsto> b)) Map.empty tx updates (v_db v) = (None, ops)"
    and "ops (pubKey ns key) = Some (MarshalInt64 nxt)"
  shows "foldWrites isDelete (keyWrites ns key tx) txID ts cur =
    (Some \<lparr>km_TxId = txID, km_Value = MarshalInt64 nxt, km_Timestamp = ts, km_IsDelete = False\<rparr>, nxt)"
proof -
  let ?k = "pubKey ns key" let ?aw = "allWrites tx"
  have acc: "txAcceptable v tx updates lookup" using assms(2,4) validate_VALID_iff by blast
  then obtain w0 where app: "Apply cur (deltasOf ?k ?aw) = Inr w0"
    using assms(5,6) by (fastforce simp: txAcceptable_def keyAccepts_def)
  have nxt: "w0 = nxt"
    using valid_tx_materialises [OF assms(4,2,3), of "\<lambda>ops. ops" "\<lambda>k b ops. ops(k \<mapsto> b)" Map.empty]
      assms(5-8) app by (fastforce simp: td_codec.enc_inj)
  have kw: "keyWrites ns key tx = map snd (filter (\<lambda>(n, w). n = ns \<and> w_Key w = key) ?aw)"
    by (rule keyWrites_eq [OF assms(1)])
  have "\<forall>w \<in> set (keyWrites ns key tx). \<exists>dd d. w_Delta w = Some dd \<and> toDelta dd = Inr d"
    using accepted_key_deltas [OF acc assms(1,6)] unfolding kw by auto
  then have dd: "descriptorDeltas (keyWrites ns key tx) = Inr (deltasOf ?k ?aw)"
    and fp: "firstPlain (keyWrites ns key tx) = None"
    using descriptorDeltas_deltasOf [of ns key ?aw] app
    by (auto simp: kw Apply_Inr firstPlain_None)
  have "keyWrites ns key tx \<noteq> []" using dd app by (auto simp: Apply_Inr)
  then show ?thesis using dd fp app nxt by (simp add: foldWrites_def)
qed

lemma foldWrites_plain:
  assumes "keyWrites ns key tx = [w]" "w_Delta w = None" "distinct (map NameSpace (NsRwSets tx))"
    and "is_range_order ord" "validateTypedDeltaTx ord v tx updates lookup = Inr VALID"
    and "lookup ns key = Inr (Some sc)" "nxt = (if w_IsDelete w then 0 else Uint64 (w_Value w))"
    and isDelete: "\<And>w. isDelete w \<longleftrightarrow> w_IsDelete w \<or> w_Value w = []"
  shows "\<exists>m. foldWrites isDelete (keyWrites ns key tx) txID ts cur = (Some m, nxt) \<and> showsValue (Some m) nxt"
proof -
  have "w \<in> set (keyWrites ns key tx)" by (simp add: assms(1))
  then have "(ns, w) \<in> set (allWrites tx)" "w_Key w = key"
    unfolding keyWrites_eq [OF assms(3)] by auto
  then have "plainWriteOk lookup ns w"
    using assms(2,4,5) validate_VALID_iff by (fastforce simp: txAcceptable_def)
  then have "w_IsDelete w \<or> length (w_Value w) = 8 \<and> UnmarshalInt64 (w_Value w) = Inr (Uint64 (w_Value w))"
    using assms(6) \<open>w_Key w = key\<close>
    by (auto simp: plainWriteOk_def UnmarshalInt64_def Int64Width_def split: if_splits)
  moreover have "MarshalInt64 (Uint64 (w_Value w)) = w_Value w" if "length (w_Value w) = 8"
    using that td_codec.dec_Inr_iff [of "w_Value w" "Uint64 (w_Value w)"]
    by (simp add: UnmarshalInt64_def Int64Width_def)
  ultimately show ?thesis
    using assms(1,2,7) by (auto simp: foldWrites_def isDelete showsValue_def Let_def)
qed

lemma commits_shown:
  assumes "commits ns key txs cur" "map fst ts = map (keyWrites ns key) txs"
    and isDelete: "\<And>w. isDelete w \<longleftrightarrow> w_IsDelete w \<or> w_Value w = []"
  shows "runningAfter isDelete 0 (map (keyWrites ns key) txs) = cur \<and>
    (let ms = modsOf isDelete 0 ts in showsValue (if ms = [] then None else Some (last ms)) cur)"
  using assms(1,2)
proof (induction arbitrary: ts)
  case genesis
  then show ?case by (simp add: runningAfter_def showsValue_def)
next
  case (untouched txs cur tx)
  obtain ts' ws i tm where ts: "ts = ts' @ [(ws, i, tm)]" "map fst ts' = map (keyWrites ns key) txs" "ws = []"
    using untouched.prems untouched.hyps(2) by (cases ts rule: rev_cases) auto
  from untouched.IH [OF ts(2)] show ?case
    by (simp add: ts(1,3) modsOf_snoc runningAfter_snoc foldWrites_def untouched.hyps(2))
next
  case (deltas txs cur tx ord ord' v updates lookup ops nxt)
  obtain ts' ws i tm where ts: "ts = ts' @ [(ws, i, tm)]" "map fst ts' = map (keyWrites ns key) txs"
    "ws = keyWrites ns key tx"
    using deltas.prems by (cases ts rule: rev_cases) auto
  from deltas.IH [OF ts(2)] show ?case
    by (simp add: ts modsOf_snoc runningAfter_snoc foldWrites_deltas [OF deltas.hyps(2-)] showsValue_def Let_def)
next
  case (plain txs cur tx w ord v updates lookup sc nxt)
  obtain ts' ws i tm where ts: "ts = ts' @ [(ws, i, tm)]" "map fst ts' = map (keyWrites ns key) txs"
    "ws = keyWrites ns key tx"
    using plain.prems by (cases ts rule: rev_cases) auto
  obtain m where m: "foldWrites isDelete (keyWrites ns key tx) i tm cur = (Some m, nxt)" "showsValue (Some m) nxt"
    using foldWrites_plain [OF plain.hyps(2-) isDelete] by blast
  have "snd (foldWrites isDelete (keyWrites ns key tx) '''' 0 cur) = nxt"
    using foldWrites_snd [of isDelete _ i tm cur] m(1) by (metis snd_conv)
  with plain.IH [OF ts(2)] m show ?case
    by (simp add: ts modsOf_snoc runningAfter_snoc Let_def)
qed

section \<open>Properties of the history query\<close>

text \<open>
  A block store with two transactions on the key \<open>A\<close> of the schema example: a plain write of 5
  and a transaction with the deltas SUB 10 and ADD 8.
\<close>

definition exPlainTx :: "KVRWSet TxRwSet" where
  "exPlainTx = exTx [\<lparr>w_Key = ''A'', w_IsDelete = False, w_Value = MarshalInt64 5, w_Delta = None\<rparr>]"

definition exDeltaTx :: "KVRWSet TxRwSet" where
  "exDeltaTx = exTx [exWrite ''A'' DeltaDescriptor_SUB 10, exWrite ''A'' DeltaDescriptor_ADD 8]"

definition exProtoutil :: protoutil where
  "exProtoutil =
     \<lparr>UnmarshalEnvelope = (\<lambda>b. Inr \<lparr>env_Payload = b\<rparr>),
      UnmarshalPayload = (\<lambda>b. Inr \<lparr>pl_Header = Some \<lparr>h_ChannelHeader = b, h_SignatureHeader = b\<rparr>, pl_Data = b\<rparr>),
      UnmarshalTransaction = (\<lambda>b. Inr \<lparr>tx_Actions = [b]\<rparr>),
      GetPayloads = Inr,
      UnmarshalChannelHeader = (\<lambda>b. Inr \<lparr>ch_Type = 3, ch_TxId = ''tx'', ch_Timestamp = uint (hd b), ch_Epoch = 0\<rparr>),
      GetActionResults = (\<lambda>e. Inr (env_Payload e))\<rparr>"

definition exFromProtoBytes :: "bytes \<Rightarrow> string + KVRWSet TxRwSet" where
  "exFromProtoBytes b = Inr (if b = [0] then exPlainTx else exDeltaTx)"

definition exHistoryStore :: history_store where
  "exHistoryStore =
     \<lparr>hs_GetIterator = (\<lambda>ns key. Inr \<lparr>itr_keys = [[0], [1]], itr_Error = None\<rparr>),
      hs_decodeBlockNumTranNum = (\<lambda>b. Inr (7, ucast (hd b))),
      hs_RetrieveTx = (\<lambda>b n. Inr \<lparr>env_Payload = [ucast n]\<rparr>)\<rparr>"

lemmas exHistory_defs = exProtoutil_def exFromProtoBytes_def exHistoryStore_def exPlainTx_def
  exDeltaTx_def exTx_def exWrite_def

definition exKeyCommits :: "key_commit list" where
  "exKeyCommits = [(keyWrites ''acct'' ''A'' exPlainTx, ''tx'', 0), (keyWrites ''acct'' ''A'' exDeltaTx, ''tx'', 1)]"

lemma exReads:
  "list_all2 (readsTo exProtoutil exFromProtoBytes exHistoryStore ''acct'' ''A'') [[0], [1]] exKeyCommits"
  by (simp add: readsTo_def getKeyWritesFromTran_def exHistory_defs exKeyCommits_def keyWrites_def)

lemma exCommits: "commits ''acct'' ''A'' [exPlainTx, exDeltaTx] 3"
proof -
  have kw: "keyWrites ''acct'' ''A'' exPlainTx =
      [\<lparr>w_Key = ''A'', w_IsDelete = False, w_Value = MarshalInt64 5, w_Delta = None\<rparr>]"
    by (simp add: keyWrites_def exPlainTx_def exTx_def)
  have "validateTypedDeltaTx id exValidator exPlainTx (\<lambda>_ _. None) exLookup = Inr VALID" by code_simp
  moreover have "exLookup ''acct'' ''A'' = Inr (Some exSchema)" by (simp add: exLookup_def)
  moreover have "Uint64 (MarshalInt64 5) = 5" by code_simp
  ultimately have one: "commits ''acct'' ''A'' [exPlainTx] 5"
    using commits.plain [OF commits.genesis kw, of id] by (simp add: exPlainTx_def exTx_def)
  obtain ops where ops: "applyTypedDeltas id (\<lambda>k b ops. ops(k \<mapsto> b)) Map.empty exDeltaTx (\<lambda>_ _. None) exDB = (None, ops)"
    "ops (pubKey ''acct'' ''A'') = Some (MarshalInt64 3)"
  proof -
    let ?r = "applyTypedDeltas id (\<lambda>k b ops. ops(k \<mapsto> b)) Map.empty exDeltaTx (\<lambda>_ _. None) exDB"
    have "fst ?r = None" "snd ?r (pubKey ''acct'' ''A'') = Some (MarshalInt64 3)" by code_simp+
    then show ?thesis using that by (metis prod.collapse)
  qed
  have v: "validateTypedDeltaTx id exValidator exDeltaTx (\<lambda>_ _. None) exLookup = Inr VALID"
    "currentInt64 ''acct'' ''A'' (\<lambda>_ _. None) (v_db exValidator) = Inr 5" by code_simp+
  have db: "v_db exValidator = exDB" by (simp add: exValidator_def)
  have "commits ''acct'' ''A'' ([exPlainTx] @ [exDeltaTx]) 3"
    by (rule commits.deltas [OF one _ is_range_order_id(1) is_range_order_id(1) v _ ops(1) [folded db] ops(2)])
       (simp_all add: exDeltaTx_def exTx_def exWrite_def allWrites_def)
  then show ?thesis by simp
qed

text \<open>
  C17 (newest first, nothing lost). When the index and the block store answer without error,
  \<open>GetHistoryForKey\<close> returns a scanner from which repeated \<open>Next\<close> calls yield the key's
  modifications in reverse commit order, one for each indexed transaction that writes the key, and
  nil from then on.
\<close>

theorem history_newest_first:
  assumes "hs_GetIterator hs ns key = Inr itr" and "itr_Error itr = None"
    and "list_all2 (readsTo pu fpb hs ns key) (itr_keys itr) ts"
  shows "\<exists>sc. GetHistoryForKey pu fpb isDelete hs ns key = Inr sc \<and>
    scan (length (modsOf isDelete 0 ts) + n) sc = map Some (rev (modsOf isDelete 0 ts)) @ replicate n None"
proof -
  let ?ms = "modsOf isDelete 0 ts" let ?sc = "\<lparr>sc_mods = rev ?ms, sc_pos = 0\<rparr>"
  have "GetHistoryForKey pu fpb isDelete hs ns key = Inr ?sc"
    using assms(1,2) history_loop_modsOf [OF assms(3), of isDelete 0 "[]"] swap_loop_rev [of ?ms]
    by (simp add: GetHistoryForKey_def)
  then show ?thesis using scan_all [of ?sc n] by simp
qed

theorem history_newest_first_witness:
  "\<exists>sc. GetHistoryForKey exProtoutil exFromProtoBytes (\<lambda>w. w_IsDelete w \<or> w_Value w = []) exHistoryStore ''acct'' ''A'' = Inr sc \<and>
     scan 3 sc = [Some \<lparr>km_TxId = ''tx'', km_Value = MarshalInt64 3, km_Timestamp = 1, km_IsDelete = False\<rparr>,
       Some \<lparr>km_TxId = ''tx'', km_Value = MarshalInt64 5, km_Timestamp = 0, km_IsDelete = False\<rparr>, None]"
proof -
  let ?d = "\<lambda>w. w_IsDelete w \<or> w_Value w = []"
  have m: "modsOf ?d 0 exKeyCommits =
      [\<lparr>km_TxId = ''tx'', km_Value = MarshalInt64 5, km_Timestamp = 0, km_IsDelete = False\<rparr>,
       \<lparr>km_TxId = ''tx'', km_Value = MarshalInt64 3, km_Timestamp = 1, km_IsDelete = False\<rparr>]"
    by code_simp
  have "\<exists>sc. GetHistoryForKey exProtoutil exFromProtoBytes ?d exHistoryStore ''acct'' ''A'' = Inr sc \<and>
    scan (length (modsOf ?d 0 exKeyCommits) + 1) sc =
      map Some (rev (modsOf ?d 0 exKeyCommits)) @ replicate 1 None"
    by (rule history_newest_first [of _ _ _ "\<lparr>itr_keys = [[0], [1]], itr_Error = None\<rparr>"])
       (use exReads in \<open>simp_all add: exHistoryStore_def\<close>)
  then show ?thesis unfolding m by (simp add: numeral_3_eq_3)
qed

text \<open>
  C7 (the history shows the committed value). Let the indexed transactions be the commits of a
  key as the commit-time hooks made them: validated deltas materialised on the current value, or
  single plain writes under a schema. Then \<open>GetHistoryForKey\<close> succeeds and its newest entry is
  the committed value: a delete for the value 0, or the canonical encoding of it; with no entry
  the value is 0. The law of \<open>isDelete\<close> is the documented behaviour of \<open>IsKVWriteDelete\<close>.
\<close>

theorem history_shows_committed_value:
  assumes "commits ns key txs cur" and "map fst ts = map (keyWrites ns key) txs"
    and "\<And>w. isDelete w \<longleftrightarrow> w_IsDelete w \<or> w_Value w = []"
    and "hs_GetIterator hs ns key = Inr itr" and "itr_Error itr = None"
    and "list_all2 (readsTo pu fpb hs ns key) (itr_keys itr) ts"
  shows "\<exists>sc. GetHistoryForKey pu fpb isDelete hs ns key = Inr sc \<and>
    showsValue (fst (historyScanner_Next sc)) cur"
proof -
  let ?ms = "modsOf isDelete 0 ts" let ?sc = "\<lparr>sc_mods = rev ?ms, sc_pos = 0\<rparr>"
  have "GetHistoryForKey pu fpb isDelete hs ns key = Inr ?sc"
    using assms(4,5) history_loop_modsOf [OF assms(6), of isDelete 0 "[]"] swap_loop_rev [of ?ms]
    by (simp add: GetHistoryForKey_def)
  moreover have "fst (historyScanner_Next ?sc) = (if ?ms = [] then None else Some (last ?ms))"
    by (simp add: historyScanner_Next_def hd_rev hd_conv_nth [symmetric])
  ultimately show ?thesis
    using commits_shown [OF assms(1,2,3)] by (auto simp: Let_def)
qed

theorem history_shows_committed_value_witness:
  "\<exists>sc. GetHistoryForKey exProtoutil exFromProtoBytes (\<lambda>w. w_IsDelete w \<or> w_Value w = []) exHistoryStore ''acct'' ''A'' = Inr sc \<and>
     showsValue (fst (historyScanner_Next sc)) 3"
  by (rule history_shows_committed_value [OF exCommits, of exKeyCommits _ _ "\<lparr>itr_keys = [[0], [1]], itr_Error = None\<rparr>"])
     (use exReads in \<open>simp_all add: exHistoryStore_def exKeyCommits_def\<close>)

end
