(* ===== verification/Shim_Dispatch.thy ===== *)
theory Shim_Dispatch
  imports Shim_Stub
begin

text \<open>
  \<open>shim/handler.go\<close>, the other direction: the loop that handles the peer's messages. Handing a
  request to the chaincode (\<open>handleInit\<close>, \<open>handleTransaction\<close>), routing responses to waiting
  requests, and the handler's state machine. The interleaving with the requests is in \<open>Shim_Race\<close>.
\<close>

section \<open>Running the chaincode\<close>

text \<open>The codecs of the chaincode's input and response, and the chaincode itself.\<close>

record 'w disp_env = "'w stub_env" +
  de_ChaincodeInput :: "bytes \<Rightarrow> string + ChaincodeInput"
  de_MarshalResponse :: "Response \<Rightarrow> string + bytes"

record 'w Chaincode =
  cc_Init :: "('w ChaincodeStub, Response) goM"
  cc_Invoke :: "('w ChaincodeStub, Response) goM"

text \<open>A chaincode function runs on the new stub; the handler afterwards is the one the stub holds.\<close>

definition runChaincode ::
  "('w ChaincodeStub, Response) goM \<Rightarrow> 'w ChaincodeStub \<Rightarrow> ('w Handler, Response \<times> 'w ChaincodeStub) goM" where
  "runChaincode f stub h =
     (case f (stub\<lparr>cs_handler := h\<rparr>) of
        (Panic p, s) \<Rightarrow> (Panic p, cs_handler s)
      | (Return res, s) \<Rightarrow> (Return (res, s), cs_handler s))"

definition newStubFor ::
  "'w disp_env \<Rightarrow> ChaincodeMessage \<Rightarrow> ('w Handler, string + 'w ChaincodeStub) goM" where
  "newStubFor env msg h =
     (case de_ChaincodeInput env (cm_Payload msg) of
        Inl err \<Rightarrow> (Return (Inl (''failed to unmarshal input: '' @ err)), h)
      | Inr input \<Rightarrow>
          (case newChaincodeStub (stub_env.truncate env) h (cm_ChannelId msg) (cm_Txid msg) input (cm_Proposal msg) of
             Inl err \<Rightarrow> (Return (Inl (''failed to create new ChaincodeStub: '' @ err)), h)
           | Inr stub \<Rightarrow> (Return (Inr stub), h)))"

definition completed :: "'w disp_env \<Rightarrow> ChaincodeMessage \<Rightarrow> Response \<Rightarrow> 'w ChaincodeStub \<Rightarrow> string + ChaincodeMessage" where
  "completed env msg res stub =
     (case de_MarshalResponse env res of
        Inl err \<Rightarrow> Inl (''failed to marshal response: '' @ err)
      | Inr resBytes \<Rightarrow>
          Inr \<lparr>cm_Type = ChaincodeMessage_COMPLETED, cm_Payload = resBytes, cm_Txid = cm_Txid msg,
               cm_ChannelId = cs_ChannelID stub, cm_ChaincodeEvent = cs_chaincodeEvent stub, cm_Proposal = None\<rparr>)"

definition handleInit ::
  "'w disp_env \<Rightarrow> 'w Chaincode \<Rightarrow> ChaincodeMessage \<Rightarrow> ('w Handler, string + ChaincodeMessage) goM" where
  "handleInit env cc msg =
     gtry (newStubFor env msg) (\<lambda>stub.
     gbind (runChaincode (cc_Init cc) stub) (\<lambda>(res, stub').
     gret (if env_ERROR env \<le>s rs_Status res
           then Inr \<lparr>cm_Type = ChaincodeMessage_ERROR, cm_Payload = bytes_of_string (rs_Message res),
                     cm_Txid = cm_Txid msg, cm_ChannelId = cm_ChannelId msg,
                     cm_ChaincodeEvent = cs_chaincodeEvent stub', cm_Proposal = None\<rparr>
           else completed env msg res stub')))"

definition handleTransaction ::
  "'w disp_env \<Rightarrow> 'w Chaincode \<Rightarrow> ChaincodeMessage \<Rightarrow> ('w Handler, string + ChaincodeMessage) goM" where
  "handleTransaction env cc msg =
     gtry (newStubFor env msg) (\<lambda>stub.
     gbind (runChaincode (cc_Invoke cc) stub) (\<lambda>(res, stub').
     gret (completed env msg res stub')))"

section \<open>Handling a message\<close>

text \<open>
  What a message makes the handler start: a goroutine for \<open>handleStubInteraction\<close>, an asynchronous
  send, or the delivery of a response on a channel.
\<close>

datatype action = GoInit ChaincodeMessage | GoTransaction ChaincodeMessage
  | SendAsync ChaincodeMessage | Deliver string ChaincodeMessage

text \<open>The goroutine of \<open>handleStubInteraction\<close>, with what it hands to \<open>serialSendAsync\<close>.\<close>

definition handleStubInteraction ::
  "(ChaincodeMessage \<Rightarrow> ('w Handler, string + ChaincodeMessage) goM) \<Rightarrow> ChaincodeMessage \<Rightarrow> ('w Handler, action list) goM" where
  "handleStubInteraction handler msg =
     gbind (handler msg) (\<lambda>r.
       gret [SendAsync (case r of
               Inl err \<Rightarrow> mkMessage ChaincodeMessage_ERROR (bytes_of_string err) (cm_Txid msg) (cm_ChannelId msg)
             | Inr resp \<Rightarrow> resp)])"

definition handleResponse :: "ChaincodeMessage \<Rightarrow> 'w Handler \<Rightarrow> string option \<times> action list" where
  "handleResponse msg h =
     (case h_responseChannels h of
        None \<Rightarrow> (Some (bracket (shorttxid (cm_Txid msg)) @ '' Cannot send message response channel''), [])
      | Some chans \<Rightarrow>
          (let txCtxID = transactionContextID (cm_ChannelId msg) (cm_Txid msg)
           in if txCtxID \<notin> chans
              then (Some (bracket (shorttxid (cm_Txid msg)) @ '' responseChannel does not exist''), [])
              else (None, [Deliver txCtxID msg])))"

definition cannotHandle :: "ChaincodeMessage \<Rightarrow> 'w Handler \<Rightarrow> string" where
  "cannotHandle msg h =
     bracket (cm_Txid msg) @ '' Chaincode h cannot handle message ('' @ msgType_String (cm_Type msg) @
     '') while in state: '' @ h_state h"

text \<open>The result of a message handler: the error, the actions started and the handler.\<close>

type_synonym 'w handled = "string option \<times> action list \<times> 'w Handler"

definition handleReady :: "ChaincodeMessage \<Rightarrow> 'w Handler \<Rightarrow> 'w handled" where
  "handleReady msg h =
     (if cm_Type msg = ChaincodeMessage_RESPONSE \<or> cm_Type msg = ChaincodeMessage_ERROR
      then (case handleResponse msg h of (err, acts) \<Rightarrow> (err, acts, h))
      else if cm_Type msg = ChaincodeMessage_INIT then (None, [GoInit msg], h)
      else if cm_Type msg = ChaincodeMessage_TRANSACTION then (None, [GoTransaction msg], h)
      else (Some (cannotHandle msg h), [], h))"

definition handleEstablished :: "ChaincodeMessage \<Rightarrow> 'w Handler \<Rightarrow> 'w handled" where
  "handleEstablished msg h =
     (if cm_Type msg \<noteq> ChaincodeMessage_READY then (Some (cannotHandle msg h), [], h)
      else (None, [], h\<lparr>h_state := ready\<rparr>))"

definition handleCreated :: "ChaincodeMessage \<Rightarrow> 'w Handler \<Rightarrow> 'w handled" where
  "handleCreated msg h =
     (if cm_Type msg \<noteq> ChaincodeMessage_REGISTERED then (Some (cannotHandle msg h), [], h)
      else (None, [], h\<lparr>h_state := established\<rparr>))"

definition handleMessage ::
  "'w shim_env \<Rightarrow> ChaincodeMessage \<Rightarrow> ('w Handler, string option \<times> action list) goM" where
  "handleMessage env msg h =
     (if cm_Type msg = ChaincodeMessage_KEEPALIVE then (Return (None, [SendAsync msg]), h)
      else if h_state h = ready \<or> h_state h = established \<or> h_state h = created then
        (case (if h_state h = ready then handleReady msg h
               else if h_state h = established then handleEstablished msg h
               else handleCreated msg h) of
           (None, acts, h') \<Rightarrow> (Return (None, acts), h')
         | (Some err, acts, h') \<Rightarrow>
             gbind (serialSend env (mkMessage ChaincodeMessage_ERROR (bytes_of_string err) (cm_Txid msg) ''''))
               (\<lambda>_. gret (Some err, acts)) h')
      else (Panic (''invalid handler state: '' @ h_state h), h))"

text \<open>
  What the actions do to the stream when their goroutines run: the results of the asynchronous sends go to
  \<open>errc\<close>. The delivery of a response is the matter of \<open>Shim_Race\<close>.
\<close>

fun serialSendAsync :: "'w shim_env \<Rightarrow> action list \<Rightarrow> ('w Handler, string option list) goM" where
  "serialSendAsync env [] = gret []"
| "serialSendAsync env (SendAsync m # as) =
     gbind (serialSend env m) (\<lambda>e. gbind (serialSendAsync env as) (\<lambda>es. gret (e # es)))"
| "serialSendAsync env (_ # as) = serialSendAsync env as"

definition runAction :: "'w disp_env \<Rightarrow> 'w Chaincode \<Rightarrow> action \<Rightarrow> ('w Handler, string option list) goM" where
  "runAction env cc a =
     (case a of
        GoInit m \<Rightarrow> gbind (handleStubInteraction (handleInit env cc) m) (serialSendAsync (shim_env.truncate env))
      | GoTransaction m \<Rightarrow> gbind (handleStubInteraction (handleTransaction env cc) m) (serialSendAsync (shim_env.truncate env))
      | _ \<Rightarrow> serialSendAsync (shim_env.truncate env) [a])"

fun runActions :: "'w disp_env \<Rightarrow> 'w Chaincode \<Rightarrow> action list \<Rightarrow> ('w Handler, string option list) goM" where
  "runActions env cc [] = gret []"
| "runActions env cc (a # as) =
     gbind (runAction env cc a) (\<lambda>es. gbind (runActions env cc as) (\<lambda>es'. gret (es @ es')))"

definition onMessage :: "'w disp_env \<Rightarrow> 'w Chaincode \<Rightarrow> ChaincodeMessage \<Rightarrow> ('w Handler, string option \<times> string option list) goM" where
  "onMessage env cc msg =
     gbind (handleMessage (shim_env.truncate env) msg) (\<lambda>(err, acts).
     gbind (runActions env cc acts) (\<lambda>errs. gret (err, errs)))"

section \<open>The state machine\<close>

lemma states_distinct [simp]:
  "ready \<noteq> established" "established \<noteq> ready" "ready \<noteq> created" "created \<noteq> ready"
  "established \<noteq> created" "created \<noteq> established"
  by (simp_all add: ready_def established_def created_def)

text \<open>Everything that changes a handler: a message, or a request's effect on the stream.\<close>

inductive handler_step :: "'w shim_env \<Rightarrow> 'w Handler \<Rightarrow> 'w Handler \<Rightarrow> bool" for env where
  message: "handleMessage env msg h = (r, h') \<Longrightarrow> handler_step env h h'"
| stream: "handler_step env h (h\<lparr>h_chatStream := w\<rparr>)"
| open_channel: "createResponseChannel c t h = (r, h') \<Longrightarrow> handler_step env h h'"
| close_channel: "handler_step env h (deleteResponseChannel c t h)"

inductive reachable :: "'w shim_env \<Rightarrow> 'w Handler \<Rightarrow> bool" for env where
  init: "reachable env (newChaincodeHandler w)"
| step: "reachable env h \<Longrightarrow> handler_step env h h' \<Longrightarrow> reachable env h'"

definition stateRank :: "string \<Rightarrow> nat" where
  "stateRank s = (if s = created then 0 else if s = established then 1 else 2)"

definition validHandler :: "'w Handler \<Rightarrow> bool" where
  "validHandler h \<longleftrightarrow> h_state h \<in> {created, established, ready} \<and> h_responseChannels h \<noteq> None"

lemma handleMessage_state:
  assumes "handleMessage env msg h = (r, h')" "validHandler h"
  shows "h_responseChannels h' = h_responseChannels h \<and> r \<noteq> Panic p \<and>
    h_state h' = (if cm_Type msg = ChaincodeMessage_REGISTERED \<and> h_state h = created then established
                  else if cm_Type msg = ChaincodeMessage_READY \<and> h_state h = established then ready
                  else h_state h)"
  using assms
  by (auto simp: handleMessage_def handleReady_def handleEstablished_def handleCreated_def handleResponse_def
      serialSend_def validHandler_def go_defs Let_def split: if_splits option.splits prod.splits)

lemma handler_step_valid:
  assumes "handler_step env h h'" "validHandler h"
  shows "validHandler h' \<and> stateRank (h_state h) \<le> stateRank (h_state h') \<and>
    stateRank (h_state h') \<le> stateRank (h_state h) + 1"
  using assms
proof cases
  case (message msg r)
  from handleMessage_state [OF this assms(2)] assms(2) show ?thesis
    by (auto simp: validHandler_def stateRank_def)
next
  case (open_channel c t r)
  then show ?thesis using assms(2)
    by (auto simp: createResponseChannel_def validHandler_def Let_def split: option.splits if_splits)
next
  case (close_channel c t)
  then show ?thesis using assms(2)
    by (auto simp: deleteResponseChannel_def validHandler_def split: option.splits)
qed (use assms(2) in \<open>auto simp: validHandler_def\<close>)

lemma reachable_valid: "reachable env h \<Longrightarrow> validHandler h"
  by (induction rule: reachable.induct)
     (auto simp: newChaincodeHandler_def validHandler_def dest: handler_step_valid)

section \<open>Properties of the message loop\<close>

text \<open>
  C21 (the handler's life cycle). However messages, requests and stream activity interleave, a
  handler that started in \<open>created\<close> never reaches the panic on an invalid state: its state is one
  of the three, a message moves it only from \<open>created\<close> to \<open>established\<close> (on REGISTERED) and from
  \<open>established\<close> to \<open>ready\<close> (on READY), and it never goes back.
\<close>

theorem handler_lifecycle:
  assumes "reachable env h" and "handleMessage env msg h = (r, h')"
  shows "h_state h \<in> {created, established, ready} \<and> (\<forall>p. r \<noteq> Panic p) \<and>
    h_state h' = (if cm_Type msg = ChaincodeMessage_REGISTERED \<and> h_state h = created then established
                  else if cm_Type msg = ChaincodeMessage_READY \<and> h_state h = established then ready
                  else h_state h)"
  using handleMessage_state [OF assms(2) reachable_valid [OF assms(1)]] reachable_valid [OF assms(1)]
  by (simp add: validHandler_def)

definition exLoopEnv :: "nat shim_env" where
  "exLoopEnv =
     \<lparr>env_Marshal = (\<lambda>_. Inr []), env_StateMetadataResult = (\<lambda>_. Inl ''''), env_QueryResponse = (\<lambda>_. Inl ''''),
      env_ChaincodeMessage = (\<lambda>_. Inl ''''), env_Response = (\<lambda>_. Inl ''''), env_Send = (\<lambda>m w. (None, w + 1)),
      env_Await = (\<lambda>c w. (mkMessage ChaincodeMessage_RESPONSE [] '''' '''', w)), env_ERROR = 500\<rparr>"

theorem handler_lifecycle_witness:
  "h_state (snd (handleMessage exLoopEnv (mkMessage ChaincodeMessage_REGISTERED [] '''' '''') (newChaincodeHandler 0))) = established"
proof -
  obtain r h' where m: "handleMessage exLoopEnv (mkMessage ChaincodeMessage_REGISTERED [] '''' '''') (newChaincodeHandler 0) = (r, h')"
    by fastforce
  from handler_lifecycle [OF reachable.init m] have "h_state h' = established"
    by (simp add: mkMessage_def newChaincodeHandler_def)
  then show ?thesis unfolding m by simp
qed

text \<open>
  What a message can start. In a reachable handler: the chaincode is started only in state
  \<open>ready\<close> and only for the message at hand; a response is delivered only in \<open>ready\<close>, on the open
  channel of its own context; and a message that returns an error has started nothing and has been
  answered with exactly one ERROR message for its transaction.
\<close>

theorem message_effects:
  assumes "reachable env h" and "handleMessage env msg h = (Return (err, acts), h')"
  shows "(\<forall>m. GoInit m \<in> set acts \<or> GoTransaction m \<in> set acts \<longrightarrow> h_state h = ready \<and> m = msg) \<and>
    (\<forall>c m. Deliver c m \<in> set acts \<longrightarrow> h_state h = ready \<and> m = msg \<and>
       c = transactionContextID (cm_ChannelId msg) (cm_Txid msg) \<and> c \<in> the (h_responseChannels h)) \<and>
    (\<forall>e. err = Some e \<longrightarrow> acts = [] \<and>
       h' = h\<lparr>h_chatStream := snd (env_Send env
              (mkMessage ChaincodeMessage_ERROR (bytes_of_string e) (cm_Txid msg) '''') (h_chatStream h))\<rparr>)"
  using assms(2) reachable_valid [OF assms(1)]
  by (auto simp: handleMessage_def handleReady_def handleEstablished_def handleCreated_def handleResponse_def
      serialSend_def validHandler_def go_defs Let_def split: if_splits option.splits prod.splits)

theorem message_effects_witness:
  "\<exists>e. handleMessage exLoopEnv (mkMessage ChaincodeMessage_TRANSACTION [] ''tx'' ''ch'') (newChaincodeHandler 0) =
     (Return (Some e, []), (newChaincodeHandler 0)\<lparr>h_chatStream := 1\<rparr>)"
proof -
  obtain err acts h' where m: "handleMessage exLoopEnv (mkMessage ChaincodeMessage_TRANSACTION [] ''tx'' ''ch'')
      (newChaincodeHandler 0) = (Return (err, acts), h')" and e: "err \<noteq> None"
    by (auto simp: handleMessage_def handleCreated_def newChaincodeHandler_def mkMessage_def serialSend_def
        exLoopEnv_def go_defs)
  then obtain x where "err = Some x" by blast
  with message_effects [OF reachable.init m] m show ?thesis
    by (auto simp: exLoopEnv_def newChaincodeHandler_def)
qed

text \<open>How a new stub can be had for a message, and how the chaincode is run on it.\<close>

lemma newStubFor_cases:
  obtains (bad) e where "newStubFor env msg h = (Return (Inl e), h)"
      "\<forall>input. de_ChaincodeInput env (cm_Payload msg) = Inr input \<longrightarrow>
         isl (newChaincodeStub (stub_env.truncate env) h (cm_ChannelId msg) (cm_Txid msg) input (cm_Proposal msg))"
  | (good) input stub where "newStubFor env msg h = (Return (Inr stub), h)" "de_ChaincodeInput env (cm_Payload msg) = Inr input"
      "newChaincodeStub (stub_env.truncate env) h (cm_ChannelId msg) (cm_Txid msg) input (cm_Proposal msg) = Inr stub"
proof (cases "de_ChaincodeInput env (cm_Payload msg)")
  case (Inl e)
  then show thesis using bad by (simp add: newStubFor_def)
next
  case (Inr input)
  show thesis
  proof (cases "newChaincodeStub (stub_env.truncate env) h (cm_ChannelId msg) (cm_Txid msg) input (cm_Proposal msg)")
    case e: (Inl e)
    then show thesis using bad Inr by (simp add: newStubFor_def)
  next
    case stub: (Inr stub)
    then show thesis using good Inr by (simp add: newStubFor_def)
  qed
qed

lemma onMessage_ready:
  assumes "h_state h = ready" "cm_Type msg = (if isInit then ChaincodeMessage_INIT else ChaincodeMessage_TRANSACTION)"
    and "onMessage env cc msg h = (Return (err, errs), h')"
  obtains reply h3 where "err = None" "errs = [fst (env_Send env reply (h_chatStream h3))]"
    "h' = h3\<lparr>h_chatStream := snd (env_Send env reply (h_chatStream h3))\<rparr>"
    "handleStubInteraction (if isInit then handleInit env cc else handleTransaction env cc) msg h = (Return [SendAsync reply], h3)"
proof -
  let ?f = "if isInit then handleInit env cc else handleTransaction env cc"
  have m: "handleMessage (shim_env.truncate env) msg h = (Return (None, [if isInit then GoInit msg else GoTransaction msg]), h)"
    using assms(1,2) by (auto simp: handleMessage_def handleReady_def)
  obtain a h3 where a: "?f msg h = (a, h3)" by fastforce
  with m assms(3) obtain x where x: "a = Return x"
    by (cases a; cases isInit) (auto simp: onMessage_def runAction_def handleStubInteraction_def go_defs)
  let ?reply = "case x of Inl err \<Rightarrow> mkMessage ChaincodeMessage_ERROR (bytes_of_string err) (cm_Txid msg) (cm_ChannelId msg) | Inr resp \<Rightarrow> resp"
  have h: "handleStubInteraction ?f msg h = (Return [SendAsync ?reply], h3)"
    using a x by (simp add: handleStubInteraction_def go_defs)
  have "err = None \<and> errs = [fst (env_Send env ?reply (h_chatStream h3))] \<and> h' = h3\<lparr>h_chatStream := snd (env_Send env ?reply (h_chatStream h3))\<rparr>"
    using assms(3) m h by (cases isInit) (auto simp: onMessage_def runAction_def serialSend_def shim_env.defs go_defs split: prod.splits)
  then show thesis using that h by blast
qed

text \<open>
  C25 (a request is answered with what the chaincode says). In state \<open>ready\<close> an INIT runs \<open>Init\<close> and a
  TRANSACTION runs \<open>Invoke\<close>, on a new stub for the message, and after it, when it does not panic, exactly one message of the
  same transaction is sent, whose send result is all that reaches \<open>errc\<close>. The reply is COMPLETED exactly when the response can be
  encoded and is not an error response of \<open>Init\<close>; then its payload decodes to the chaincode's response, an error response of
  \<open>Invoke\<close> included, and it carries the event the chaincode set. An error response of \<open>Init\<close> is an ERROR with its message
  and the event. Without a stub the chaincode does not run and the reply is an ERROR.
\<close>

theorem request_answered:
  assumes "h_state h = ready" and "cm_Type msg = (if isInit then ChaincodeMessage_INIT else ChaincodeMessage_TRANSACTION)"
    and "\<forall>r b. de_MarshalResponse env r = Inr b \<longrightarrow> env_Response env b = Inr r"
    and "onMessage env cc msg h = (Return (err, errs), h')"
  shows "err = None \<and> (\<exists>reply h3. errs = [fst (env_Send env reply (h_chatStream h3))] \<and>
    h' = h3\<lparr>h_chatStream := snd (env_Send env reply (h_chatStream h3))\<rparr> \<and>
    cm_Txid reply = cm_Txid msg \<and> cm_Type reply \<in> {ChaincodeMessage_COMPLETED, ChaincodeMessage_ERROR} \<and>
    ((\<exists>input stub res s. de_ChaincodeInput env (cm_Payload msg) = Inr input \<and>
        newChaincodeStub (stub_env.truncate env) h (cm_ChannelId msg) (cm_Txid msg) input (cm_Proposal msg) = Inr stub \<and>
        (if isInit then cc_Init cc else cc_Invoke cc) (stub\<lparr>cs_handler := h\<rparr>) = (Return res, s) \<and> h3 = cs_handler s \<and>
        (cm_Type reply = ChaincodeMessage_COMPLETED \<longleftrightarrow>
           \<not> (isInit \<and> env_ERROR env \<le>s rs_Status res) \<and> \<not> isl (de_MarshalResponse env res)) \<and>
        (cm_Type reply = ChaincodeMessage_COMPLETED \<longrightarrow>
           env_Response env (cm_Payload reply) = Inr res \<and> cm_ChaincodeEvent reply = cs_chaincodeEvent s) \<and>
        (isInit \<and> env_ERROR env \<le>s rs_Status res \<longrightarrow>
           cm_Payload reply = bytes_of_string (rs_Message res) \<and> cm_ChaincodeEvent reply = cs_chaincodeEvent s)) \<or>
     (\<forall>input. de_ChaincodeInput env (cm_Payload msg) = Inr input \<longrightarrow>
        isl (newChaincodeStub (stub_env.truncate env) h (cm_ChannelId msg) (cm_Txid msg) input (cm_Proposal msg))) \<and>
     h3 = h \<and> cm_Type reply = ChaincodeMessage_ERROR))"
  using assms(1,2,4)
proof (cases rule: onMessage_ready)
  case (1 reply h3)
  note handled = 1(4)
  show ?thesis
  proof (cases rule: newStubFor_cases [of env msg h])
    case (bad e)
    then have "reply = mkMessage ChaincodeMessage_ERROR (bytes_of_string e) (cm_Txid msg) (cm_ChannelId msg) \<and> h3 = h"
      using handled by (auto simp: handleStubInteraction_def handleInit_def handleTransaction_def go_defs split: if_splits)
    then show ?thesis using 1(1-3) bad(2) by (intro conjI exI [of _ reply] exI [of _ h3] disjI2) (simp_all add: mkMessage_def)
  next
    case (good input stub)
    let ?run = "(if isInit then cc_Init cc else cc_Invoke cc) (stub\<lparr>cs_handler := h\<rparr>)"
    obtain a s where a: "?run = (a, s)" by fastforce
    with handled good(1) obtain res where res: "a = Return res"
      by (cases a) (auto simp: handleStubInteraction_def handleInit_def handleTransaction_def runChaincode_def go_defs split: if_splits)
    have rep: "h3 = cs_handler s \<and> reply =
        (case (if isInit \<and> env_ERROR env \<le>s rs_Status res
               then Inr \<lparr>cm_Type = ChaincodeMessage_ERROR, cm_Payload = bytes_of_string (rs_Message res),
                     cm_Txid = cm_Txid msg, cm_ChannelId = cm_ChannelId msg,
                     cm_ChaincodeEvent = cs_chaincodeEvent s, cm_Proposal = None\<rparr>
               else completed env msg res s) of
           Inl err \<Rightarrow> mkMessage ChaincodeMessage_ERROR (bytes_of_string err) (cm_Txid msg) (cm_ChannelId msg) | Inr resp \<Rightarrow> resp)"
      using handled good(1) a res
      by (auto simp: handleStubInteraction_def handleInit_def handleTransaction_def runChaincode_def go_defs split: if_splits)
    show ?thesis
    proof (intro conjI exI [of _ reply] exI [of _ h3] disjI1)
      show "\<exists>input stub res s. de_ChaincodeInput env (cm_Payload msg) = Inr input \<and>
        newChaincodeStub (stub_env.truncate env) h (cm_ChannelId msg) (cm_Txid msg) input (cm_Proposal msg) = Inr stub \<and>
        (if isInit then cc_Init cc else cc_Invoke cc) (stub\<lparr>cs_handler := h\<rparr>) = (Return res, s) \<and> h3 = cs_handler s \<and>
        (cm_Type reply = ChaincodeMessage_COMPLETED \<longleftrightarrow>
           \<not> (isInit \<and> env_ERROR env \<le>s rs_Status res) \<and> \<not> isl (de_MarshalResponse env res)) \<and>
        (cm_Type reply = ChaincodeMessage_COMPLETED \<longrightarrow>
           env_Response env (cm_Payload reply) = Inr res \<and> cm_ChaincodeEvent reply = cs_chaincodeEvent s) \<and>
        (isInit \<and> env_ERROR env \<le>s rs_Status res \<longrightarrow>
           cm_Payload reply = bytes_of_string (rs_Message res) \<and> cm_ChaincodeEvent reply = cs_chaincodeEvent s)"
        using rep a res good(2,3) assms(3)
        by (intro exI [of _ input] exI [of _ stub] exI [of _ res] exI [of _ s])
           (auto simp: completed_def mkMessage_def split: sum.splits if_splits)
    qed (use 1(1-3) rep in \<open>auto simp: completed_def mkMessage_def split: sum.splits if_splits\<close>)
  qed
qed

text \<open>A chaincode that answers both functions with an error response, on a stream that keeps what is sent.\<close>

definition exResponse :: Response where
  "exResponse = \<lparr>rs_Status = 500, rs_Message = ''no'', rs_Payload = []\<rparr>"

definition exDispEnv :: "ChaincodeMessage list disp_env" where
  "exDispEnv =
     \<lparr>env_Marshal = (\<lambda>_. Inr []), env_StateMetadataResult = (\<lambda>_. Inl ''''), env_QueryResponse = (\<lambda>_. Inl ''''),
      env_ChaincodeMessage = (\<lambda>_. Inl ''''), env_Response = (\<lambda>_. Inr exResponse), env_Send = (\<lambda>m w. (None, w @ [m])),
      env_Await = (\<lambda>c w. (mkMessage ChaincodeMessage_RESPONSE [] '''' '''', w)), env_ERROR = 500,
      se_Proposal = (\<lambda>_. Inl ''''), se_Header = (\<lambda>_. Inl ''''), se_ChannelHeader = (\<lambda>_. Inl ''''),
      se_SignatureHeader = (\<lambda>_. Inl ''''), se_TransientMap = (\<lambda>_. Inl ''''),
      se_QueryMetadata = (\<lambda>_ _. Inl ''''), se_QueryResponseMetadata = (\<lambda>_. Inl ''''),
      se_KV = (\<lambda>_. Inl ''''), se_KeyModification = (\<lambda>_. Inl ''''), se_HeaderType_String = (\<lambda>_. ''''),
      se_ENDORSER_TRANSACTION = 3, se_CONFIG = 1, se_compositeKeyNamespace = [CHR 0x00],
      se_emptyKeySubstitute = [CHR 0x01], se_minUnicodeRuneValue = 0, se_maxUnicodeRuneValue = 0x10FFFF,
      de_ChaincodeInput = (\<lambda>b. Inr \<lparr>in_Args = [b], in_Decorations = Map.empty\<rparr>),
      de_MarshalResponse = (\<lambda>r. if r = exResponse then Inr [7] else Inl ''unknown'')\<rparr>"

definition exChaincode :: "ChaincodeMessage list Chaincode" where
  "exChaincode = \<lparr>cc_Init = gret exResponse, cc_Invoke = gret exResponse\<rparr>"

theorem request_answered_witness:
  "\<exists>reply h'. onMessage exDispEnv exChaincode (mkMessage ChaincodeMessage_TRANSACTION [1] ''tx'' ''ch'') ((newChaincodeHandler [])\<lparr>h_state := ready\<rparr>) =
       (Return (None, [None]), h') \<and>
     h_chatStream h' = [reply] \<and> cm_Type reply = ChaincodeMessage_COMPLETED \<and> env_Response exDispEnv (cm_Payload reply) = Inr exResponse"
proof -
  let ?msg = "mkMessage ChaincodeMessage_TRANSACTION [1] ''tx'' ''ch''" and ?h = "(newChaincodeHandler [])\<lparr>h_state := ready\<rparr>"
  have type: "cm_Type ?msg = (if False then ChaincodeMessage_INIT else ChaincodeMessage_TRANSACTION)" by (simp add: mkMessage_def)
  have codec: "\<forall>r b. de_MarshalResponse exDispEnv r = Inr b \<longrightarrow> env_Response exDispEnv b = Inr r" by (simp add: exDispEnv_def)
  obtain err errs h' where run: "onMessage exDispEnv exChaincode ?msg ?h = (Return (err, errs), h')"
    by (simp add: onMessage_def handleMessage_def handleReady_def runAction_def handleStubInteraction_def handleTransaction_def newStubFor_def
        newChaincodeStub_def runChaincode_def exChaincode_def completed_def serialSend_def exDispEnv_def shim_env.defs mkMessage_def go_defs)
  from request_answered [OF _ type codec run] run show ?thesis
    by (auto simp: exDispEnv_def exChaincode_def newChaincodeStub_def newChaincodeHandler_def mkMessage_def gret_def)
qed

end
