(* ===== verification/Shim_Race.thy ===== *)
theory Shim_Race
  imports Shim_Dispatch
begin

text \<open>
  The goroutines that meet at the response channels of \<open>shim/handler.go\<close>: any number of requests
  (\<open>callPeerWithChaincodeMsg\<close>), some perhaps of the same transaction, the goroutine that receives the
  peer's messages, and the peer. Taking the mutex, what is done under it, a send on the unbuffered
  channel and the release of the mutex are steps of their own, and all of them interleave. The channel map
  is the one of \<open>newChaincodeHandler\<close>, which is never nil.
\<close>

section \<open>Goroutines\<close>

text \<open>
  A request: \<open>createResponseChannel\<close> under the mutex, \<open>serialSend\<close>, the wait on the channel, and the deferred
  \<open>deleteResponseChannel\<close> under the mutex. A request that ends carries the request whose response it received, or
  \<open>None\<close> when its message could not be sent.
\<close>

datatype requester_pc =
    T_Absent
  | T_Start
  | T_Creating  \<comment> \<open>holds the mutex\<close>
  | T_Refused  \<comment> \<open>the channel of its context exists already\<close>
  | T_Sending
  | T_Sent  \<comment> \<open>the peer has the message, \<open>serialSend\<close> has not returned\<close>
  | T_Waiting
  | T_WantDelete "nat option"
  | T_Deleting "nat option"  \<comment> \<open>holds the mutex\<close>
  | T_Done "nat option"

text \<open>
  The receiver, with the request that its message answers: \<open>handleResponse\<close> holds the mutex while it looks up the
  channel and while it sends on it, here to the request that made the channel.
\<close>

datatype receiver_pc =
    R_Idle
  | R_WantLock nat
  | R_Locked nat
  | R_Sending nat nat
  | R_Unlock
  | R_ReportError

datatype holder = Requester nat | Receiver

record race =
  rc_requester :: "nat \<Rightarrow> requester_pc"
  rc_receiver :: receiver_pc
  rc_mutex :: "holder option"
  rc_channels :: "string \<rightharpoonup> nat"
  rc_owed :: "nat \<Rightarrow> nat"  \<comment> \<open>responses that the peer has still to send\<close>
  rc_inbox :: "nat list"
  rc_errors :: nat  \<comment> \<open>ERROR messages for responses without a channel\<close>

abbreviation goes :: "race \<Rightarrow> nat \<Rightarrow> requester_pc \<Rightarrow> nat \<Rightarrow> requester_pc" where
  "goes s i c \<equiv> (rc_requester s)(i := c)"

text \<open>The parameters are the context of each request and the number of responses the peer sends to it.\<close>

inductive race_step :: "(nat \<Rightarrow> string) \<Rightarrow> (nat \<Rightarrow> nat) \<Rightarrow> race \<Rightarrow> race \<Rightarrow> bool" for ctx answers where
  t_lock: "rc_requester s i = T_Start \<Longrightarrow> rc_mutex s = None \<Longrightarrow>
    race_step ctx answers s (s\<lparr>rc_requester := goes s i T_Creating, rc_mutex := Some (Requester i)\<rparr>)"
| t_exists: "rc_requester s i = T_Creating \<Longrightarrow> rc_channels s (ctx i) = Some j \<Longrightarrow>
    race_step ctx answers s (s\<lparr>rc_requester := goes s i T_Refused, rc_mutex := None\<rparr>)"
| t_create: "rc_requester s i = T_Creating \<Longrightarrow> rc_channels s (ctx i) = None \<Longrightarrow>
    race_step ctx answers s (s\<lparr>rc_requester := goes s i T_Sending, rc_mutex := None, rc_channels := (rc_channels s)(ctx i \<mapsto> i)\<rparr>)"
| t_send: "rc_requester s i = T_Sending \<Longrightarrow>
    race_step ctx answers s (s\<lparr>rc_requester := goes s i T_Sent, rc_owed := (rc_owed s)(i := answers i)\<rparr>)"
| t_send_fails: "rc_requester s i = T_Sending \<Longrightarrow> race_step ctx answers s (s\<lparr>rc_requester := goes s i (T_WantDelete None)\<rparr>)"
| t_wait: "rc_requester s i = T_Sent \<Longrightarrow> race_step ctx answers s (s\<lparr>rc_requester := goes s i T_Waiting\<rparr>)"
| p_respond: "rc_owed s j = Suc m \<Longrightarrow> race_step ctx answers s (s\<lparr>rc_owed := (rc_owed s)(j := m), rc_inbox := rc_inbox s @ [j]\<rparr>)"
| r_recv: "rc_receiver s = R_Idle \<Longrightarrow> rc_inbox s = j # r \<Longrightarrow> race_step ctx answers s (s\<lparr>rc_receiver := R_WantLock j, rc_inbox := r\<rparr>)"
| r_lock: "rc_receiver s = R_WantLock j \<Longrightarrow> rc_mutex s = None \<Longrightarrow>
    race_step ctx answers s (s\<lparr>rc_receiver := R_Locked j, rc_mutex := Some Receiver\<rparr>)"
| r_found: "rc_receiver s = R_Locked j \<Longrightarrow> rc_channels s (ctx j) = Some i \<Longrightarrow> race_step ctx answers s (s\<lparr>rc_receiver := R_Sending i j\<rparr>)"
| r_missing: "rc_receiver s = R_Locked j \<Longrightarrow> rc_channels s (ctx j) = None \<Longrightarrow>
    race_step ctx answers s (s\<lparr>rc_receiver := R_ReportError, rc_mutex := None\<rparr>)"
| r_error: "rc_receiver s = R_ReportError \<Longrightarrow> race_step ctx answers s (s\<lparr>rc_receiver := R_Idle, rc_errors := rc_errors s + 1\<rparr>)"
| rendezvous: "rc_receiver s = R_Sending i j \<Longrightarrow> rc_requester s i = T_Waiting \<Longrightarrow>
    race_step ctx answers s (s\<lparr>rc_receiver := R_Unlock, rc_requester := goes s i (T_WantDelete (Some j))\<rparr>)"
| r_unlock: "rc_receiver s = R_Unlock \<Longrightarrow> race_step ctx answers s (s\<lparr>rc_receiver := R_Idle, rc_mutex := None\<rparr>)"
| t_relock: "rc_requester s i = T_WantDelete x \<Longrightarrow> rc_mutex s = None \<Longrightarrow>
    race_step ctx answers s (s\<lparr>rc_requester := goes s i (T_Deleting x), rc_mutex := Some (Requester i)\<rparr>)"
| t_delete: "rc_requester s i = T_Deleting x \<Longrightarrow>
    race_step ctx answers s (s\<lparr>rc_requester := goes s i (T_Done x), rc_mutex := None, rc_channels := (rc_channels s)(ctx i := None)\<rparr>)"

inductive_cases race_stepE: "race_step ctx answers s s'"

text \<open>\<open>n\<close> requests that have not begun.\<close>

definition race_start :: "nat \<Rightarrow> race" where
  "race_start n = \<lparr>rc_requester = (\<lambda>i. if i < n then T_Start else T_Absent), rc_receiver = R_Idle, rc_mutex = None,
     rc_channels = Map.empty, rc_owed = (\<lambda>_. 0), rc_inbox = [], rc_errors = 0\<rparr>"

definition stuck :: "(nat \<Rightarrow> string) \<Rightarrow> (nat \<Rightarrow> nat) \<Rightarrow> race \<Rightarrow> bool" where
  "stuck ctx answers s \<longleftrightarrow> (\<nexists>s'. race_step ctx answers s s')"

section \<open>The invariant\<close>

fun hasChannel :: "requester_pc \<Rightarrow> bool" where
  "hasChannel T_Sending = True"
| "hasChannel T_Sent = True"
| "hasChannel T_Waiting = True"
| "hasChannel (T_WantDelete _) = True"
| "hasChannel (T_Deleting _) = True"
| "hasChannel _ = False"

fun inMutex :: "requester_pc \<Rightarrow> bool" where
  "inMutex T_Creating = True"
| "inMutex (T_Deleting _) = True"
| "inMutex _ = False"

fun awaits :: "requester_pc \<Rightarrow> nat" where
  "awaits T_Sent = 1"
| "awaits T_Waiting = 1"
| "awaits _ = 0"

fun receiverHolds :: "receiver_pc \<Rightarrow> bool" where
  "receiverHolds (R_Locked _) = True"
| "receiverHolds (R_Sending _ _) = True"
| "receiverHolds R_Unlock = True"
| "receiverHolds _ = False"

fun carries :: "receiver_pc \<Rightarrow> nat \<Rightarrow> nat" where
  "carries (R_WantLock j) k = (if k = j then 1 else 0)"
| "carries (R_Locked j) k = (if k = j then 1 else 0)"
| "carries (R_Sending i j) k = (if k = j then 1 else 0)"
| "carries _ k = 0"

fun resultOf :: "requester_pc \<Rightarrow> nat option" where
  "resultOf (T_WantDelete x) = x"
| "resultOf (T_Deleting x) = x"
| "resultOf (T_Done x) = x"
| "resultOf _ = None"

definition race_inv :: "(nat \<Rightarrow> string) \<Rightarrow> race \<Rightarrow> bool" where
  "race_inv ctx s \<longleftrightarrow>
     (\<forall>i. rc_mutex s = Some (Requester i) \<longleftrightarrow> inMutex (rc_requester s i)) \<and>
     (rc_mutex s = Some Receiver \<longleftrightarrow> receiverHolds (rc_receiver s)) \<and>
     (\<forall>c i. rc_channels s c = Some i \<longleftrightarrow> hasChannel (rc_requester s i) \<and> ctx i = c) \<and>
     (\<forall>k. rc_owed s k + count_list (rc_inbox s) k + carries (rc_receiver s) k = awaits (rc_requester s k)) \<and>
     (\<forall>i j. rc_receiver s = R_Sending i j \<longrightarrow> i = j) \<and> rc_receiver s \<noteq> R_ReportError \<and> rc_errors s = 0 \<and>
     (\<forall>i j. resultOf (rc_requester s i) = Some j \<longrightarrow> j = i)"

lemma race_invD:
  assumes "race_inv ctx s"
  shows "rc_mutex s = Some (Requester i) \<longleftrightarrow> inMutex (rc_requester s i)"
    "rc_mutex s = Some Receiver \<longleftrightarrow> receiverHolds (rc_receiver s)"
    "rc_channels s c = Some i \<longleftrightarrow> hasChannel (rc_requester s i) \<and> ctx i = c"
    "rc_owed s k + count_list (rc_inbox s) k + carries (rc_receiver s) k = awaits (rc_requester s k)"
    "rc_receiver s = R_Sending i j \<Longrightarrow> i = j" "rc_receiver s \<noteq> R_ReportError" "rc_errors s = 0"
    "resultOf (rc_requester s i) = Some j \<Longrightarrow> j = i"
  using assms unfolding race_inv_def by auto

lemma awaits_channel: "0 < awaits p \<Longrightarrow> hasChannel p"
  by (cases p) auto

text \<open>The response that the receiver carries is awaited, so that its channel is there and belongs to its own request.\<close>

lemma carried_found:
  assumes "race_inv ctx s" "0 < carries (rc_receiver s) j"
  shows "rc_channels s (ctx j) = Some j"
proof -
  have "0 < awaits (rc_requester s j)" using race_invD(4) [OF assms(1), of j] assms(2) by linarith
  then show ?thesis using race_invD(3) [OF assms(1)] awaits_channel by blast
qed

lemma race_step_mutex:
  assumes "race_step ctx (\<lambda>_. 1) s s'" and inv: "race_inv ctx s"
  shows "(\<forall>i. rc_mutex s' = Some (Requester i) \<longleftrightarrow> inMutex (rc_requester s' i)) \<and> (rc_mutex s' = Some Receiver \<longleftrightarrow> receiverHolds (rc_receiver s'))"
proof -
  note m = race_invD(1) [OF inv] and r = race_invD(2) [OF inv]
  have alone: "(\<forall>k. inMutex (rc_requester s k) \<longrightarrow> k = i) \<and> \<not> receiverHolds (rc_receiver s)" if "inMutex (rc_requester s i)" for i
    using that m r by (metis holder.distinct(1) holder.inject option.inject)
  from assms(1) show ?thesis
  proof cases
    case (t_exists i j)
    with alone [of i] show ?thesis by auto
  next
    case (t_create i)
    with alone [of i] show ?thesis by auto
  next
    case (t_delete i x)
    with alone [of i] show ?thesis by auto
  qed (use m r in auto)
qed

lemma race_step_channels:
  assumes "race_step ctx (\<lambda>_. 1) s s'" and inv: "race_inv ctx s"
  shows "rc_channels s' c = Some k \<longleftrightarrow> hasChannel (rc_requester s' k) \<and> ctx k = c"
proof -
  note ch = race_invD(3) [OF inv]
  from assms(1) show ?thesis
  proof cases
    case (t_create i)
    have "\<not> hasChannel (rc_requester s k)" if "ctx k = ctx i" using ch [of "ctx i" k] t_create(3) that by simp
    then show ?thesis using ch [of c k] t_create by auto
  next
    case (t_delete i x)
    have "k = i" if "hasChannel (rc_requester s k)" "ctx k = ctx i" using ch [of "ctx i" k] ch [of "ctx i" i] that t_delete(2) by simp
    then show ?thesis using ch [of c k] t_delete by auto
  next
    case (t_exists i j)
    then show ?thesis using ch [of c k] by auto
  qed (use ch [of c k] in auto)
qed

lemma race_step_flight:
  assumes "race_step ctx (\<lambda>_. 1) s s'" and inv: "race_inv ctx s"
  shows "rc_owed s' k + count_list (rc_inbox s') k + carries (rc_receiver s') k = awaits (rc_requester s' k)"
proof -
  note fl = race_invD(4) [OF inv, of k]
  from assms(1) show ?thesis
  proof cases
    case (r_missing j)
    with carried_found [OF inv, of j] show ?thesis by simp
  next
    case (r_found j i)
    then show ?thesis using fl by simp
  next
    case (rendezvous i j)
    with race_invD(5) [OF inv] have "j = i" by blast
    then show ?thesis using fl rendezvous by auto
  next
    case (t_exists i j)
    then show ?thesis using fl by auto
  qed (use fl in \<open>auto split: if_splits\<close>)
qed

lemma race_inv_step:
  assumes "race_step ctx (\<lambda>_. 1) s s'" and inv: "race_inv ctx s"
  shows "race_inv ctx s'"
proof -
  have "(\<forall>i j. rc_receiver s' = R_Sending i j \<longrightarrow> i = j) \<and> rc_receiver s' \<noteq> R_ReportError \<and> rc_errors s' = 0 \<and>
    (\<forall>i j. resultOf (rc_requester s' i) = Some j \<longrightarrow> j = i)"
    using assms(1)
  proof cases
    case (r_found j i)
    with carried_found [OF inv, of j] race_invD(5-8) [OF inv] show ?thesis by simp
  next
    case (r_missing j)
    with carried_found [OF inv, of j] show ?thesis by simp
  next
    case (rendezvous i j)
    then show ?thesis using race_invD(5-8) [OF inv] by auto
  qed (use race_invD(5-8) [OF inv] in auto)
  then show ?thesis using race_step_mutex [OF assms] race_step_channels [OF assms] race_step_flight [OF assms]
    unfolding race_inv_def by blast
qed

section \<open>Every interleaving ends\<close>

text \<open>A step of one goroutine brings the whole nearer to its end; the peer's messages count as work still to do.\<close>

fun pcWork :: "requester_pc \<Rightarrow> nat" where
  "pcWork T_Start = 16"
| "pcWork T_Creating = 15"
| "pcWork T_Sending = 14"
| "pcWork T_Sent = 5"
| "pcWork T_Waiting = 4"
| "pcWork (T_WantDelete _) = 3"
| "pcWork (T_Deleting _) = 2"
| "pcWork _ = 0"

fun recvWork :: "receiver_pc \<Rightarrow> nat" where
  "recvWork R_Idle = 0"
| "recvWork (R_WantLock _) = 6"
| "recvWork (R_Locked _) = 5"
| "recvWork (R_Sending _ _) = 4"
| "recvWork _ = 1"

definition raceWork :: "nat \<Rightarrow> race \<Rightarrow> nat" where
  "raceWork n s = (\<Sum>i<n. pcWork (rc_requester s i)) + 8 * (\<Sum>i<n. rc_owed s i) + 7 * length (rc_inbox s) + recvWork (rc_receiver s)"

definition within :: "nat \<Rightarrow> race \<Rightarrow> bool" where
  "within n s \<longleftrightarrow> (\<forall>i. rc_requester s i \<noteq> T_Absent \<longrightarrow> i < n)"

lemma sum_upd:
  fixes f :: "'a \<Rightarrow> nat"
  assumes "i < (n :: nat)"
  shows "(\<Sum>k<n. f ((g(i := c)) k)) + f (g i) = (\<Sum>k<n. f (g k)) + f c"
proof -
  have "(\<Sum>k<n. f (h k)) = f (h i) + (\<Sum>k\<in>{..<n} - {i}. f (h k))" for h
    using assms by (intro sum.remove) auto
  from this [of "g(i := c)"] this [of g] show ?thesis by simp
qed

lemma within_step:
  assumes "race_step ctx (\<lambda>_. 1) s s'" "race_inv ctx s" "within n s"
  shows "within n s'"
  using assms(1,3) by cases (auto simp: within_def)

lemma race_step_works:
  assumes "race_step ctx (\<lambda>_. 1) s s'" and inv: "race_inv ctx s" and n: "within n s"
  shows "raceWork n s' < raceWork n s"
proof -
  have pc: "(\<Sum>k<n. pcWork ((goes s i c) k)) + pcWork (rc_requester s i) = (\<Sum>k<n. pcWork (rc_requester s k)) + pcWork c"
    if "rc_requester s i \<noteq> T_Absent" for i c
    using n that unfolding within_def by (intro sum_upd) blast
  have owed: "(\<Sum>k<n. ((rc_owed s)(i := c)) k) + rc_owed s i = (\<Sum>k<n. rc_owed s k) + c" if "i < n" for i c
    using sum_upd [OF that, where f = "\<lambda>x. x" and g = "rc_owed s" and c = c] by simp
  from assms(1) show ?thesis
  proof cases
    case (t_send i)
    then have "i < n" using n unfolding within_def by auto
    moreover have "rc_owed s i = 0" using race_invD(4) [OF inv, of i] t_send(2) by simp
    ultimately show ?thesis using pc [of i T_Sent] owed [of i 1] t_send by (simp add: raceWork_def)
  next
    case (p_respond j m)
    then have "0 < awaits (rc_requester s j)" using race_invD(4) [OF inv, of j] by linarith
    then have "j < n" using n unfolding within_def by (metis awaits.simps(3) less_irrefl)
    then show ?thesis using owed [of j m] p_respond by (simp add: raceWork_def)
  next
    case (rendezvous i j)
    then show ?thesis using pc [of i "T_WantDelete (Some j)"] by (simp add: raceWork_def)
  next
    case (t_lock i)
    then show ?thesis using pc [of i T_Creating] by (simp add: raceWork_def)
  next
    case (t_exists i j)
    then show ?thesis using pc [of i T_Refused] by (simp add: raceWork_def)
  next
    case (t_create i)
    then show ?thesis using pc [of i T_Sending] by (simp add: raceWork_def)
  next
    case (t_send_fails i)
    then show ?thesis using pc [of i "T_WantDelete None"] by (simp add: raceWork_def)
  next
    case (t_wait i)
    then show ?thesis using pc [of i T_Waiting] by (simp add: raceWork_def)
  next
    case (t_relock i x)
    then show ?thesis using pc [of i "T_Deleting x"] by (simp add: raceWork_def)
  next
    case (t_delete i x)
    then show ?thesis using pc [of i "T_Done x"] by (simp add: raceWork_def)
  qed (simp_all add: raceWork_def)
qed

lemma race_run:
  assumes "((race_step ctx (\<lambda>_. 1)) ^^ m) (race_start n) s"
  shows "race_inv ctx s \<and> within n s \<and> m + raceWork n s \<le> 16 * n"
  using assms
proof (induction m arbitrary: s)
  case 0
  then have "s = race_start n" by simp
  moreover have "(\<Sum>i<n. pcWork (if i < n then T_Start else T_Absent)) = 16 * n" by simp
  ultimately show ?case by (auto simp: race_start_def race_inv_def within_def raceWork_def)
next
  case (Suc m)
  then obtain t where t: "((race_step ctx (\<lambda>_. 1)) ^^ m) (race_start n) t" "race_step ctx (\<lambda>_. 1) t s" by auto
  with Suc.IH [OF t(1)] race_inv_step [OF t(2)] within_step [OF t(2)] race_step_works [OF t(2)] show ?case by fastforce
qed

lemma present_run:
  assumes "((race_step ctx (\<lambda>_. 1)) ^^ m) (race_start n) s" "i < n"
  shows "rc_requester s i \<noteq> T_Absent"
  using assms(1)
proof (induction m arbitrary: s)
  case 0
  then show ?case using assms(2) by (auto simp: race_start_def)
next
  case (Suc m)
  then obtain t where t: "((race_step ctx (\<lambda>_. 1)) ^^ m) (race_start n) t" "race_step ctx (\<lambda>_. 1) t s" by auto
  from t(2) Suc.IH [OF t(1)] show ?case by cases auto
qed

text \<open>Whoever holds the mutex can go on, and when it is free everybody who is not at the end can.\<close>

lemma race_stuck:
  assumes inv: "race_inv ctx s" and st: "stuck ctx (\<lambda>_. 1) s"
  shows "rc_mutex s = None \<and> rc_receiver s = R_Idle \<and> rc_inbox s = [] \<and>
    (\<forall>i. rc_requester s i \<in> {T_Absent, T_Refused, T_Done None, T_Done (Some i)})"
proof -
  have no: "\<not> race_step ctx (\<lambda>_. 1) s s'" for s' using st unfolding stuck_def by blast
  have free: "rc_mutex s = None"
  proof (rule ccontr)
    assume "rc_mutex s \<noteq> None"
    then consider i where "rc_mutex s = Some (Requester i)" | "rc_mutex s = Some Receiver" by (metis holder.exhaust option.exhaust)
    then show False
    proof cases
      case (1 i)
      then have "inMutex (rc_requester s i)" using race_invD(1) [OF inv] by blast
      then show False using no t_exists [of s i ctx] t_create [of s i ctx] t_delete [of s i _ ctx]
        by (cases "rc_requester s i"; cases "rc_channels s (ctx i)") auto
    next
      case 2
      then have h: "receiverHolds (rc_receiver s)" using race_invD(2) [OF inv] by blast
      then show False
      proof (cases "rc_receiver s")
        case (R_Locked j)
        then show False using carried_found [OF inv, of j] no r_found [of s j ctx] by auto
      next
        case (R_Sending i j)
        then have "i = j" using race_invD(5) [OF inv] by blast
        moreover have "0 < awaits (rc_requester s j)" using race_invD(4) [OF inv, of j] R_Sending by simp
        ultimately show False using R_Sending no rendezvous [of s j j] t_wait [of s j] by (cases "rc_requester s j") auto
      qed (use no r_unlock [of s] h in auto)
    qed
  qed
  have idle: "rc_receiver s = R_Idle"
    using free no r_lock [of s] race_invD(2) [OF inv] race_invD(6) [OF inv] by (cases "rc_receiver s") auto
  have inbox: "rc_inbox s = []" using idle no r_recv [of s] by (cases "rc_inbox s") auto
  have "rc_owed s i = 0" for i using no p_respond [of s i] by (cases "rc_owed s i") auto
  then have calm: "awaits (rc_requester s i) = 0" for i using race_invD(4) [OF inv, of i] idle inbox by simp
  have "rc_requester s i \<in> {T_Absent, T_Refused, T_Done None, T_Done (Some i)}" for i
    using calm [of i] free no t_lock [of s i] t_send [of s i] t_relock [of s i] race_invD(1) [OF inv, of i] race_invD(8) [OF inv, of i]
    by (cases "rc_requester s i"; force)
  with free idle inbox show ?thesis by blast
qed

text \<open>
  C26 (one response per request, no deadlock). When the peer sends one response to every request it receives, each
  of any number of concurrent requests, of the same context or not, comes to an end in every
  interleaving with the receiving goroutine: a run has at most 16 steps per request, and where no step is left
  every request was refused because its context had an open request, could not send its message, or
  holds the response to itself and no other; no response was without a channel, no channel is left over and the mutex is free.
\<close>

theorem single_response_completes:
  assumes "((race_step ctx (\<lambda>_. 1)) ^^ m) (race_start n) s"
  shows "m \<le> 16 * n \<and> rc_errors s = 0 \<and>
    (stuck ctx (\<lambda>_. 1) s \<longrightarrow>
       rc_mutex s = None \<and> rc_channels s = Map.empty \<and> rc_inbox s = [] \<and>
       (\<forall>i < n. rc_requester s i \<in> {T_Refused, T_Done None, T_Done (Some i)}))"
proof -
  note run = race_run [OF assms]
  then have inv: "race_inv ctx s" by blast
  have "rc_channels s = Map.empty \<and> (\<forall>i < n. rc_requester s i \<noteq> T_Absent)" if st: "stuck ctx (\<lambda>_. 1) s"
  proof
    have "rc_channels s c \<noteq> Some i" for c i
    proof -
      have "rc_requester s i \<in> {T_Absent, T_Refused, T_Done None, T_Done (Some i)}" using race_stuck [OF inv st] by blast
      then have "\<not> hasChannel (rc_requester s i)" by auto
      then show ?thesis using race_invD(3) [OF inv, of c i] by blast
    qed
    then show "rc_channels s = Map.empty" by (metis not_None_eq ext)
    show "\<forall>i < n. rc_requester s i \<noteq> T_Absent" using present_run [OF assms] by blast
  qed
  then show ?thesis using run race_invD(7) [OF inv] race_stuck [OF inv] by auto
qed

section \<open>Runs\<close>

text \<open>A scheduler: the next step of a request, of the receiver, or a response of the peer. It only takes steps of the relation.\<close>

datatype mover = MoveRequest nat | MoveReceiver | MovePeer nat

fun race_move :: "(nat \<Rightarrow> string) \<Rightarrow> (nat \<Rightarrow> nat) \<Rightarrow> mover \<Rightarrow> race \<Rightarrow> race option" where
  "race_move ctx answers (MoveRequest i) s =
     (case rc_requester s i of
        T_Start \<Rightarrow> if rc_mutex s = None then Some (s\<lparr>rc_requester := goes s i T_Creating, rc_mutex := Some (Requester i)\<rparr>) else None
      | T_Creating \<Rightarrow>
          (case rc_channels s (ctx i) of
             Some j \<Rightarrow> Some (s\<lparr>rc_requester := goes s i T_Refused, rc_mutex := None\<rparr>)
           | None \<Rightarrow> Some (s\<lparr>rc_requester := goes s i T_Sending, rc_mutex := None, rc_channels := (rc_channels s)(ctx i \<mapsto> i)\<rparr>))
      | T_Sending \<Rightarrow> Some (s\<lparr>rc_requester := goes s i T_Sent, rc_owed := (rc_owed s)(i := answers i)\<rparr>)
      | T_Sent \<Rightarrow> Some (s\<lparr>rc_requester := goes s i T_Waiting\<rparr>)
      | T_WantDelete x \<Rightarrow>
          if rc_mutex s = None then Some (s\<lparr>rc_requester := goes s i (T_Deleting x), rc_mutex := Some (Requester i)\<rparr>) else None
      | T_Deleting x \<Rightarrow>
          Some (s\<lparr>rc_requester := goes s i (T_Done x), rc_mutex := None, rc_channels := (rc_channels s)(ctx i := None)\<rparr>)
      | _ \<Rightarrow> None)"
| "race_move ctx answers MoveReceiver s =
     (case rc_receiver s of
        R_Idle \<Rightarrow> (case rc_inbox s of j # r \<Rightarrow> Some (s\<lparr>rc_receiver := R_WantLock j, rc_inbox := r\<rparr>) | [] \<Rightarrow> None)
      | R_WantLock j \<Rightarrow> if rc_mutex s = None then Some (s\<lparr>rc_receiver := R_Locked j, rc_mutex := Some Receiver\<rparr>) else None
      | R_Locked j \<Rightarrow>
          (case rc_channels s (ctx j) of
             Some i \<Rightarrow> Some (s\<lparr>rc_receiver := R_Sending i j\<rparr>)
           | None \<Rightarrow> Some (s\<lparr>rc_receiver := R_ReportError, rc_mutex := None\<rparr>))
      | R_Sending i j \<Rightarrow>
          if rc_requester s i = T_Waiting
          then Some (s\<lparr>rc_receiver := R_Unlock, rc_requester := goes s i (T_WantDelete (Some j))\<rparr>) else None
      | R_Unlock \<Rightarrow> Some (s\<lparr>rc_receiver := R_Idle, rc_mutex := None\<rparr>)
      | R_ReportError \<Rightarrow> Some (s\<lparr>rc_receiver := R_Idle, rc_errors := rc_errors s + 1\<rparr>))"
| "race_move ctx answers (MovePeer j) s =
     (case rc_owed s j of Suc m \<Rightarrow> Some (s\<lparr>rc_owed := (rc_owed s)(j := m), rc_inbox := rc_inbox s @ [j]\<rparr>) | 0 \<Rightarrow> None)"

fun race_moves :: "(nat \<Rightarrow> string) \<Rightarrow> (nat \<Rightarrow> nat) \<Rightarrow> mover list \<Rightarrow> race \<Rightarrow> race option" where
  "race_moves ctx answers [] s = Some s"
| "race_moves ctx answers (e # es) s = Option.bind (race_move ctx answers e s) (race_moves ctx answers es)"

lemma race_move_step: "race_move ctx answers e s = Some s' \<Longrightarrow> race_step ctx answers s s'"
  by (cases e) (auto intro: race_step.intros race_step.r_error [unfolded Suc_eq_plus1 [symmetric]]
      split: requester_pc.splits receiver_pc.splits list.splits option.splits nat.splits if_splits)

lemma race_moves_run: "race_moves ctx answers es s = Some s' \<Longrightarrow> ((race_step ctx answers) ^^ length es) s s'"
  by (induction es arbitrary: s) (auto simp: bind_eq_Some_conv intro: relpowp_Suc_I2 race_move_step simp del: relpowp.simps(2))

text \<open>
  Two requests of one transaction, the second begun while the channel of the first is open. The
  response arrives before the first request waits for it, and the receiver, with the mutex, waits.
\<close>

theorem single_response_completes_witness:
  "\<exists>s. ((race_step (\<lambda>_. ''tx'') (\<lambda>_. 1)) ^^ 14) (race_start 2) s \<and> stuck (\<lambda>_. ''tx'') (\<lambda>_. 1) s \<and>
     rc_requester s 0 = T_Done (Some 0) \<and> rc_requester s 1 = T_Refused \<and> rc_channels s = Map.empty \<and> rc_errors s = 0"
proof -
  let ?es = "map MoveRequest [0, 0, 1, 1, 0] @ [MovePeer 0, MoveReceiver, MoveReceiver, MoveReceiver, MoveRequest 0, MoveReceiver, MoveReceiver] @
    [MoveRequest 0, MoveRequest 0]"
  have "\<exists>s. race_moves (\<lambda>_. ''tx'') (\<lambda>_. 1) ?es (race_start 2) = Some s \<and> rc_requester s 0 = T_Done (Some 0) \<and> rc_requester s 1 = T_Refused \<and>
      stuck (\<lambda>_. ''tx'') (\<lambda>_. 1) s"
    by (auto simp: race_start_def stuck_def elim!: race_stepE split: if_splits)
  then obtain s where s: "race_moves (\<lambda>_. ''tx'') (\<lambda>_. 1) ?es (race_start 2) = Some s" "rc_requester s 0 = T_Done (Some 0)"
    "rc_requester s 1 = T_Refused" "stuck (\<lambda>_. ''tx'') (\<lambda>_. 1) s" by blast
  have "((race_step (\<lambda>_. ''tx'') (\<lambda>_. 1)) ^^ 14) (race_start 2) s" using race_moves_run [OF s(1)] by (simp add: eval_nat_numeral)
  with single_response_completes [OF this] s show ?thesis by blast
qed

text \<open>
  C39 (a second response can deadlock the handler). \<open>handleResponse\<close> sends on the unbuffered channel
  while it holds the mutex that \<open>deleteResponseChannel\<close> needs: when the peer sends a second response for the same
  context and it is handled between the receipt of the first and the deletion of the channel, both goroutines
  wait for each other for ever, the receiving loop included.
\<close>

theorem duplicate_response_deadlock:
  "\<exists>s. (race_step ctx (\<lambda>_. 2))\<^sup>*\<^sup>* (race_start 1) s \<and> stuck ctx (\<lambda>_. 2) s \<and>
     rc_requester s 0 = T_WantDelete (Some 0) \<and> rc_receiver s = R_Sending 0 0"
proof -
  let ?es = "map MoveRequest [0, 0, 0, 0] @ [MovePeer 0, MovePeer 0] @ replicate 8 MoveReceiver"
  have "\<exists>s. race_moves ctx (\<lambda>_. 2) ?es (race_start 1) = Some s \<and> stuck ctx (\<lambda>_. 2) s \<and>
      rc_requester s 0 = T_WantDelete (Some 0) \<and> rc_receiver s = R_Sending 0 0"
    by (auto simp: race_start_def stuck_def numeral_eq_Suc elim!: race_stepE split: if_splits)
  then show ?thesis using race_moves_run relpowp_imp_rtranclp by metis
qed

end
