(* ===== verification/CC_Vanilla.thy ===== *)
theory CC_Vanilla
  imports CC_Common
begin

text \<open>
  \<open>chaincode/vanilla-rmw-cc.go\<close>: the read-modify-write baseline. Balances are int64 values whose
  arithmetic wraps around, as \<open>+\<close> and \<open>*\<close> on \<open>int64\<close> words do.
\<close>

definition vanilla_decodeBE :: "bytes \<Rightarrow> string + int64" where
  "vanilla_decodeBE b =
     (if length b \<noteq> 8 then Inl (''expected 8-byte int64, got '' @ natString (length b)) else Inr (Uint64 b))"

interpretation vanilla_codec: int64_codec int64BE vanilla_decodeBE
  by unfold_locales (auto simp: int64BE_def vanilla_decodeBE_def split: if_splits)

definition vanilla_Init :: "cc_lib \<Rightarrow> 'w chaincode_fn" where
  "vanilla_Init lib = gret (cl_Success lib [])"

definition vanilla_set :: "cc_lib \<Rightarrow> 'w stub_env \<Rightarrow> string list \<Rightarrow> 'w chaincode_fn" where
  "vanilla_set lib env args =
     (if length args \<noteq> 2 then gret (cl_Error lib ''usage: Set(key, n)'')
      else
        (case ParseInt (args ! 1) of
           None \<Rightarrow> gret (cl_Error lib ''n must be int64'')
         | Some n \<Rightarrow> putAndSucceed lib env (args ! 0) (int64BE n)))"

text \<open>\<open>var bal int64\<close> is 0 when the key has no value.\<close>

definition vanilla_balance :: "bytes \<Rightarrow> string + int64" where
  "vanilla_balance cur = (if length cur \<noteq> 0 then vanilla_decodeBE cur else Inr 0)"

definition rmw :: "cc_lib \<Rightarrow> 'w stub_env \<Rightarrow> string list \<Rightarrow> int64 \<Rightarrow> 'w chaincode_fn" where
  "rmw lib env args sign =
     (if length args \<noteq> 2 then gret (cl_Error lib ''usage: Credit|Debit(key, n)'')
      else
        (case ParseInt (args ! 1) of
           None \<Rightarrow> gret (cl_Error lib ''n must be a non-negative int64'')
         | Some n \<Rightarrow>
             if n <s 0 then gret (cl_Error lib ''n must be a non-negative int64'')
             else
               orError lib (cs_GetState env (args ! 0)) (\<lambda>cur.
                 case vanilla_balance cur of
                   Inl err \<Rightarrow> gret (cl_Error lib err)
                 | Inr bal \<Rightarrow>
                     (let next = bal + sign * n
                      in if next <s 0 then gret (cl_Error lib ''insufficient funds'')
                         else putAndSucceed lib env (args ! 0) (int64BE next)))))"

definition vanilla_get :: "cc_lib \<Rightarrow> 'w stub_env \<Rightarrow> string list \<Rightarrow> 'w chaincode_fn" where
  "vanilla_get lib env args =
     (if length args \<noteq> 1 then gret (cl_Error lib ''usage: Get(key)'')
      else
        orError lib (cs_GetState env (args ! 0)) (\<lambda>v.
          if v = [] then gret (cl_Error lib (''key not found: '' @ args ! 0))
          else
            (case vanilla_decodeBE v of
               Inl err \<Rightarrow> gret (cl_Error lib err)
             | Inr bal \<Rightarrow> gret (cl_Success lib (bytes_of_string (FormatInt bal))))))"

definition vanilla_Invoke :: "cc_lib \<Rightarrow> 'w stub_env \<Rightarrow> 'w chaincode_fn" where
  "vanilla_Invoke lib env =
     withStub (\<lambda>stub.
       case GetFunctionAndParameters stub of
         (fn, args) \<Rightarrow>
           if fn = ''Set'' then vanilla_set lib env args
           else if fn = ''Credit'' then rmw lib env args 1
           else if fn = ''Debit'' then rmw lib env args (- 1)
           else if fn = ''Get'' then vanilla_get lib env args
           else gret (cl_Error lib (''unknown function: '' @ fn)))"

section \<open>Properties of the read-modify-write chaincode\<close>

text \<open>On a non-negative balance an overflowing credit is negative after wrapping, so the guard catches it.\<close>

lemma rmw_step_exact:
  fixes bal n :: int64
  assumes "0 \<le> sint bal" "0 \<le> sint n" "sign = 1 \<or> sign = - 1" "\<not> bal + sign * n <s 0"
  shows "sint (bal + sign * n) = sint bal + sint sign * sint n"
proof -
  have neg: "sint (- n) = - sint n" using assms(2) by (simp add: sint_neg64)
  show ?thesis
    using assms sint_add64_cases [of bal n] sint_add64_cases [of bal "- n"] neg
      sint_bounds64 [of bal] sint_bounds64 [of n]
    by (auto simp: word_sless_iff split: if_splits)
qed

lemma rmw_success:
  assumes "responsesDiffer lib" "rmw lib env args sign s = (Return (cl_Success lib p), s')"
  shows "\<exists>n cur bal s1. length args = 2 \<and> ParseInt (args ! 1) = Some n \<and> 0 \<le> sint n \<and>
    cs_GetState env (args ! 0) s = (Return (Inr cur), s1) \<and> vanilla_balance cur = Inr bal \<and>
    \<not> bal + sign * n <s 0 \<and>
    putAndSucceed lib env (args ! 0) (int64BE (bal + sign * n)) s1 = (Return (cl_Success lib p), s')"
proof -
  obtain n where n: "length args = 2" "ParseInt (args ! 1) = Some n" "0 \<le> sint n"
    using assms by (auto simp: rmw_def gret_def responsesDiffer_def word_sless_iff split: if_splits option.splits)
  note run = assms(2) [unfolded rmw_def Let_def]
  have "\<exists>cur s1. cs_GetState env (args ! 0) s = (Return (Inr cur), s1) \<and>
      (case vanilla_balance cur of Inl err \<Rightarrow> gret (cl_Error lib err)
       | Inr bal \<Rightarrow> if bal + sign * n <s 0 then gret (cl_Error lib ''insufficient funds'')
                    else putAndSucceed lib env (args ! 0) (int64BE (bal + sign * n))) s1 = (Return (cl_Success lib p), s')"
    using n run by (intro orError_success [OF _ assms(1)]) (simp add: word_sless_iff)
  then obtain cur s1 where g: "cs_GetState env (args ! 0) s = (Return (Inr cur), s1)"
    and rest: "(case vanilla_balance cur of Inl err \<Rightarrow> gret (cl_Error lib err)
       | Inr bal \<Rightarrow> if bal + sign * n <s 0 then gret (cl_Error lib ''insufficient funds'')
                    else putAndSucceed lib env (args ! 0) (int64BE (bal + sign * n))) s1 = (Return (cl_Success lib p), s')"
    by blast
  from rest assms(1) obtain bal where "vanilla_balance cur = Inr bal" "\<not> bal + sign * n <s 0"
    "putAndSucceed lib env (args ! 0) (int64BE (bal + sign * n)) s1 = (Return (cl_Success lib p), s')"
    by (auto simp: gret_def responsesDiffer_def split: sum.splits if_splits)
  with n g show ?thesis by blast
qed

text \<open>
  C27 (read-modify-write keeps balances non-negative and exact). When \<open>Credit\<close> or \<open>Debit\<close> reports
  success it has read the balance and sent one write of a non-negative balance; if the balance it
  read was non-negative, the one it wrote is the exact sum or difference, so an overflowing credit
  is refused although the code never tests for overflow.
\<close>

theorem rmw_exact:
  assumes "recordsAll env sent" and "responsesDiffer lib" and "sign = 1 \<or> sign = - 1"
    and "rmw lib env args sign s = (Return (cl_Success lib p), s')"
  shows "\<exists>n cur bal s1 m next. ParseInt (args ! 1) = Some n \<and>
    cs_GetState env (args ! 0) s = (Return (Inr cur), s1) \<and> vanilla_balance cur = Inr bal \<and>
    sentBy sent s' = sentBy sent s1 @ [m] \<and>
    carries env ChaincodeMessage_PUT_STATE (PutState '''' (args ! 0) (int64BE next) None) m \<and>
    0 \<le> sint next \<and> (0 \<le> sint bal \<longrightarrow> sint next = sint bal + sint sign * sint n)"
proof -
  obtain n cur bal s1 where run: "ParseInt (args ! 1) = Some n" "0 \<le> sint n"
    "cs_GetState env (args ! 0) s = (Return (Inr cur), s1)" "vanilla_balance cur = Inr bal"
    "\<not> bal + sign * n <s 0"
    "putAndSucceed lib env (args ! 0) (int64BE (bal + sign * n)) s1 = (Return (cl_Success lib p), s')"
    using rmw_success [OF assms(2,4)] by blast
  obtain m where "sentBy sent s' = sentBy sent s1 @ [m]"
    "carries env ChaincodeMessage_PUT_STATE (PutState '''' (args ! 0) (int64BE (bal + sign * n)) None) m"
    using putAndSucceed_success [OF assms(1,2) run(6)] by blast
  with run(1-5) rmw_step_exact [OF _ run(2) assms(3) run(5)] show ?thesis
    by (intro exI [of _ n] exI [of _ cur] exI [of _ bal] exI [of _ s1] exI [of _ m] exI [of _ "bal + sign * n"])
       (simp add: word_sless_iff)
qed

lemma exParse: "ParseInt ''2'' = Some 2" "ParseInt ''1'' = Some 1"
  by (simp_all add: ParseInt_def ParseUint_def digitVal_def Let_def)

lemma exRmw:
  assumes "vanilla_balance b = Inr bal" "ParseInt t = Some n" "0 \<le> sint n" "\<not> bal + sign * n <s 0"
  shows "\<exists>s'. rmw exCCLib (exPeer b) [''A'', t] sign (exCCStub []) = (Return (cl_Success exCCLib []), s')"
proof -
  obtain s1 s' where "cs_GetState (exPeer b) ''A'' (exCCStub []) = (Return (Inr b), s1)"
    "cs_PutState (exPeer b) ''A'' (int64BE (bal + sign * n)) s1 = (Return (Inr ()), s')"
    using exPeer_rmw [of "''A''" b "[]"] by (metis list.distinct(1))
  then show ?thesis using assms by (simp add: rmw_def putAndSucceed_def orError_def go_defs word_sless_iff)
qed

theorem rmw_exact_witness:
  "\<exists>s' next :: int64. rmw exCCLib exCCEnv [''A'', ''2''] (- 1) (exCCStub []) = (Return (cl_Success exCCLib []), s') \<and>
     sint next = 3 \<and> (\<exists>m. carries exCCEnv ChaincodeMessage_PUT_STATE (PutState '''' ''A'' (int64BE next) None) m)"
proof -
  have b: "vanilla_balance (int64BE 5) = Inr 5" by (simp add: vanilla_balance_def)
  obtain s' where run: "rmw exCCLib exCCEnv [''A'', ''2''] (- 1) (exCCStub []) = (Return (cl_Success exCCLib []), s')"
    using exRmw [OF b exParse(1), of "- 1"] unfolding exCCEnv_def by (auto simp: word_sless_alt)
  obtain s1 where g: "cs_GetState exCCEnv ''A'' (exCCStub []) = (Return (Inr (int64BE 5)), s1)"
    using exPeer_rmw [of "''A''" "int64BE 5" "[]"] unfolding exCCEnv_def by auto
  obtain n cur bal m "next" where r: "ParseInt ''2'' = Some n" "cs_GetState exCCEnv ''A'' (exCCStub []) = (Return (Inr cur), s1)"
    "vanilla_balance cur = Inr bal" "carries exCCEnv ChaincodeMessage_PUT_STATE (PutState '''' ''A'' (int64BE next) None) m"
    "0 \<le> sint bal \<longrightarrow> sint next = sint bal + sint (- 1 :: int64) * sint n"
    using rmw_exact [OF exCC_facts _ run] g by auto
  then have "sint next = 3" using g b exParse(1) by auto
  with run r(4) show ?thesis by auto
qed

text \<open>
  A debit can wrap a negative balance: \<open>Set\<close> accepts negative balances. When the stored
  balance is so low that the exact difference is below \<open>-2\<^sup>6\<^sup>3\<close>, \<open>Debit\<close> is not refused for
  insufficient funds: it stores a balance that is \<open>2\<^sup>6\<^sup>4\<close> too high, which is not negative.
\<close>

theorem debit_wraps_negative_balance:
  assumes "length args = 2" and "ParseInt (args ! 1) = Some n" and "0 \<le> sint n"
    and "cs_GetState env (args ! 0) s = (Return (Inr (int64BE bal)), s1)"
    and "sint bal - sint n < - (2 ^ 63)"
  shows "\<exists>next. rmw lib env args (- 1) s = putAndSucceed lib env (args ! 0) (int64BE next) s1 \<and>
    sint next = sint bal - sint n + 2 ^ 64 \<and> 0 \<le> sint next"
proof -
  have neg: "sint (- n) = - sint n" using assms(3) by (simp add: sint_neg64)
  have v: "sint (bal + - 1 * n) = sint bal - sint n + 2 ^ 64" "0 \<le> sint (bal + - 1 * n)"
    using sint_add64_cases [of bal "- n"] neg assms(5) sint_bounds64 [of bal] sint_bounds64 [of n] by auto
  have "vanilla_balance (int64BE bal) = Inr bal" by (simp add: vanilla_balance_def)
  then have "rmw lib env args (- 1) s = putAndSucceed lib env (args ! 0) (int64BE (bal + - 1 * n)) s1"
    using assms(1-4) v(2) by (simp add: rmw_def orError_def go_defs word_sless_iff)
  with v show ?thesis by (intro exI [of _ "bal + - 1 * n"]) simp
qed

theorem debit_wraps_negative_balance_witness:
  "\<exists>next s'. sint (next :: int64) = 2 ^ 63 - 1 \<and>
     rmw exCCLib (exPeer (int64BE (- 9223372036854775808))) [''A'', ''1''] (- 1) (exCCStub []) =
       (Return (cl_Success exCCLib []), s')"
proof -
  let ?b = "int64BE (- 9223372036854775808)"
  obtain s1 where g: "cs_GetState (exPeer ?b) ''A'' (exCCStub []) = (Return (Inr ?b), s1)"
    and put: "\<And>v. \<exists>s'. cs_PutState (exPeer ?b) ''A'' v s1 = (Return (Inr ()), s')"
    using exPeer_rmw [of "''A''" ?b "[]"] by auto
  obtain "next" :: int64 where nx: "sint next = 2 ^ 63 - 1"
    "rmw exCCLib (exPeer ?b) [''A'', ''1''] (- 1) (exCCStub []) = putAndSucceed exCCLib (exPeer ?b) ''A'' (int64BE next) s1"
    using debit_wraps_negative_balance [of "[''A'', ''1'']" 1 "exPeer ?b" "exCCStub []" "- 9223372036854775808" s1 exCCLib] g exParse(2)
    by auto
  obtain s' where "cs_PutState (exPeer ?b) ''A'' (int64BE next) s1 = (Return (Inr ()), s')" using put by blast
  with nx show ?thesis by (intro exI [of _ "next"] exI [of _ s']) (simp add: putAndSucceed_def orError_def go_defs)
qed

end
