(* ===== verification/CC_HighThroughput.thy ===== *)
theory CC_HighThroughput
  imports CC_Common
begin

text \<open>
  \<open>chaincode/high-throughput-cc.go\<close>: the append-only baseline. An account is the range of keys
  \<open>acct~...\<close>: an initial balance and one signed amount per transaction; \<open>Get\<close> sums them up by
  iterating over the range.
\<close>

definition ht_Init :: "cc_lib \<Rightarrow> 'w chaincode_fn" where
  "ht_Init lib = gret (cl_Success lib [])"

definition ht_set :: "cc_lib \<Rightarrow> 'w stub_env \<Rightarrow> string list \<Rightarrow> 'w chaincode_fn" where
  "ht_set lib env args =
     (if length args \<noteq> 2 then gret (cl_Error lib ''usage: Set(acct, B)'')
      else
        (case ParseInt (args ! 1) of
           None \<Rightarrow> gret (cl_Error lib ''B must be int64'')
         | Some b \<Rightarrow> putAndSucceed lib env (args ! 0 @ ''~init'') (int64BE b)))"

definition ht_append :: "cc_lib \<Rightarrow> 'w stub_env \<Rightarrow> string list \<Rightarrow> int64 \<Rightarrow> 'w chaincode_fn" where
  "ht_append lib env args sign =
     (if length args \<noteq> 2 then gret (cl_Error lib ''usage: Credit|Debit(acct, n)'')
      else
        (case ParseInt (args ! 1) of
           None \<Rightarrow> gret (cl_Error lib ''n must be a non-negative int64'')
         | Some n \<Rightarrow>
             if n <s 0 then gret (cl_Error lib ''n must be a non-negative int64'')
             else withStub (\<lambda>stub.
               let key = args ! 0 @ ''~'' @ GetTxID stub
               in putAndSucceed lib env key (int64BE (sign * n)))))"

text \<open>
  \<open>for iter.HasNext() { kv, err := iter.Next(); ... }\<close>. The peer decides how many pages there are,
  so that the loop may not end: \<open>None\<close>.
\<close>

partial_function (option) ht_sum_loop ::
  "'w stub_env \<Rightarrow> int64 \<Rightarrow> 'w Handler \<times> CommonIterator \<Rightarrow> ((string + int64) go \<times> ('w Handler \<times> CommonIterator)) option" where
  "ht_sum_loop env acc st =
     (if HasNext (snd st) then
        (case StateQueryIterator_Next env st of
           (Panic p, st') \<Rightarrow> Some (Panic p, st')
         | (Return (Inl err), st') \<Rightarrow> Some (Return (Inl err), st')
         | (Return (Inr kv), st') \<Rightarrow>
             ht_sum_loop env (if length (kv_Value kv) = 8 then acc + Uint64 (kv_Value kv) else acc) st')
      else Some (Return (Inr acc), st))"

definition ht_start :: "string \<Rightarrow> string" where
  "ht_start acct = acct @ ''~''"

definition ht_end :: "string \<Rightarrow> string" where
  "ht_end acct = acct @ ''~'' @ string_of_rune 0xFFFF"

text \<open>
  \<open>defer iter.Close()\<close>: runs on return and on panic, its error is dropped, and a panic of its own
  replaces the result.
\<close>

definition deferClose ::
  "'w stub_env \<Rightarrow> Response go \<times> ('w Handler \<times> CommonIterator) \<Rightarrow> Response go \<times> 'w Handler" where
  "deferClose env = (\<lambda>(r, st).
     case CommonIterator_Close env st of
       (Panic p, (h, _)) \<Rightarrow> (Panic p, h)
     | (Return _, (h, _)) \<Rightarrow> (r, h))"

definition ht_get :: "cc_lib \<Rightarrow> 'w stub_env \<Rightarrow> string list \<Rightarrow> 'w ChaincodeStub \<Rightarrow> (Response go \<times> 'w ChaincodeStub) option" where
  "ht_get lib env args s =
     (if length args \<noteq> 1 then Some (Return (cl_Error lib ''usage: Get(acct)''), s)
      else
        (case cs_GetStateByRange env (ht_start (args ! 0)) (ht_end (args ! 0)) s of
           (Panic p, s') \<Rightarrow> Some (Panic p, s')
         | (Return (Inl err), s') \<Rightarrow> Some (Return (cl_Error lib err), s')
         | (Return (Inr iter), s') \<Rightarrow>
             (case ht_sum_loop env 0 (cs_handler s', iter) of
                None \<Rightarrow> None
              | Some (r, st) \<Rightarrow>
                  (let resp = (case r of
                                 Panic p \<Rightarrow> Panic p
                               | Return (Inl err) \<Rightarrow> Return (cl_Error lib err)
                               | Return (Inr acc) \<Rightarrow> Return (cl_Success lib (bytes_of_string (FormatInt acc))))
                   in case deferClose env (resp, st) of (r', h) \<Rightarrow> Some (r', s'\<lparr>cs_handler := h\<rparr>)))))"

definition ht_Invoke :: "cc_lib \<Rightarrow> 'w stub_env \<Rightarrow> 'w ChaincodeStub \<Rightarrow> (Response go \<times> 'w ChaincodeStub) option" where
  "ht_Invoke lib env s =
     (case GetFunctionAndParameters s of
        (fn, args) \<Rightarrow>
          if fn = ''Set'' then Some (ht_set lib env args s)
          else if fn = ''Credit'' then Some (ht_append lib env args 1 s)
          else if fn = ''Debit'' then Some (ht_append lib env args (- 1) s)
          else if fn = ''Get'' then ht_get lib env args s
          else Some (gret (cl_Error lib (''unknown function: '' @ fn)) s))"

section \<open>Iterating to the end\<close>

inductive iterates ::
  "'w stub_env \<Rightarrow> resultType \<Rightarrow> 'w Handler \<times> CommonIterator \<Rightarrow> queryResult list \<Rightarrow> 'w Handler \<times> CommonIterator \<Rightarrow> bool"
  for env rType where
  iterates_end: "\<not> HasNext (snd st) \<Longrightarrow> iterates env rType st [] st"
| iterates_next: "HasNext (snd st) \<Longrightarrow> nextResult env rType st = (Return (Inr x), st') \<Longrightarrow>
     iterates env rType st' xs st'' \<Longrightarrow> iterates env rType st (x # xs) st''"

lemma iterates_last_page:
  assumes "\<not> qr_HasMore r" "\<forall>b \<in> set (qr_Results r). getResultFromBytes env b rType = Inr (res b)"
    and "i \<le> length (qr_Results r)"
  shows "iterates env rType (h, iterAt ch tx r i) (map res (drop i (qr_Results r))) (h, iterAt ch tx r (length (qr_Results r)))"
  using assms(3)
proof (induction rule: inc_induct)
  case base
  then show ?case using assms(1) by (simp add: HasNext_def iterates_end)
next
  case (step n)
  then have "nextResult env rType (h, iterAt ch tx r n) = (Return (Inr (res (qr_Results r ! n))), (h, iterAt ch tx r (Suc n)))"
    using assms(1,2) by (simp add: nextResult_def Let_def)
  with step show ?case by (auto simp: HasNext_def Cons_nth_drop_Suc [symmetric] intro: iterates_next)
qed

lemma iterates_next_page:
  assumes "qr_HasMore r" "\<forall>b \<in> set (qr_Results r). getResultFromBytes env b rType = Inr (res b)"
    and "handleQueryStateNext (shim_env.truncate env) (qr_Id r) ch tx h = (Return (Inr r'), h')"
    and "iterates env rType (h', iterAt ch tx r' 0) xs st"
    and "i \<le> length (qr_Results r) - 1" "qr_Results r \<noteq> []"
  shows "iterates env rType (h, iterAt ch tx r i) (map res (drop i (qr_Results r)) @ xs) st"
  using assms(5)
proof (induction rule: inc_induct)
  case base
  let ?k = "length (qr_Results r) - 1"
  have k: "Suc ?k = length (qr_Results r)" "?k < length (qr_Results r)" using assms(6) by (cases "qr_Results r"; simp)+
  then have "nextResult env rType (h, iterAt ch tx r ?k) = (Return (Inr (res (qr_Results r ! ?k))), (h', iterAt ch tx r' 0))"
    using assms(1-3) by (simp add: nextResult_def fetchNextQueryResult_def go_defs Let_def)
  with k assms(4) show ?case by (auto simp: HasNext_def Cons_nth_drop_Suc [symmetric] intro: iterates_next)
next
  case (step n)
  then have n: "n < length (qr_Results r)" "Suc n \<noteq> length (qr_Results r)" by simp_all
  then have "nextResult env rType (h, iterAt ch tx r n) = (Return (Inr (res (qr_Results r ! n))), (h, iterAt ch tx r (Suc n)))"
    using assms(1,2) by (simp add: nextResult_def Let_def)
  with step n show ?case by (auto simp: HasNext_def Cons_nth_drop_Suc [symmetric] intro: iterates_next)
qed

lemma delivers_iterates:
  "delivers env ch tx h r bs \<Longrightarrow> \<forall>b \<in> set bs. getResultFromBytes env b rType = Inr (res b) \<Longrightarrow>
     \<exists>st. iterates env rType (h, iterAt ch tx r 0) (map res bs) st"
proof (induction rule: delivers.induct)
  case (last_page r h)
  then show ?case using iterates_last_page [of r env rType res 0 h ch tx] by auto
next
  case (next_page r h r' h' bs)
  then obtain st where "iterates env rType (h', iterAt ch tx r' 0) (map res bs) st" by auto
  then show ?case using next_page.hyps next_page.prems iterates_next_page [of r env rType res ch tx h r' h' "map res bs" st 0]
    by (intro exI [of _ st]) auto
qed

section \<open>The balance of an account\<close>

text \<open>What an entry contributes; a value that is not 8 bytes long is skipped.\<close>

definition entryAmount :: "KV \<Rightarrow> int64" where
  "entryAmount kv = (if length (kv_Value kv) = 8 then Uint64 (kv_Value kv) else 0)"

lemma ht_sum_loop_iterates:
  "iterates env StateQueryResult st xs st' \<Longrightarrow> xs = map ResultKV kvs \<Longrightarrow>
     ht_sum_loop env acc st = Some (Return (Inr (acc + sum_list (map entryAmount kvs))), st')"
proof (induction arbitrary: acc kvs rule: iterates.induct)
  case (iterates_end st)
  then show ?case by (simp add: ht_sum_loop.simps)
next
  case (iterates_next st x st' xs st'')
  then obtain kv kvs' where kvs: "kvs = kv # kvs'" "x = ResultKV kv" "xs = map ResultKV kvs'" by (cases kvs) auto
  then have "StateQueryIterator_Next env st = (Return (Inr kv), st')"
    using iterates_next.hyps(2) by (simp add: StateQueryIterator_Next_def go_defs)
  then have "ht_sum_loop env acc st = ht_sum_loop env (acc + entryAmount kv) st'"
    using iterates_next.hyps(1) by (subst ht_sum_loop.simps) (simp add: entryAmount_def)
  with iterates_next.IH [OF kvs(3)] kvs(1) show ?case by (simp add: add.assoc)
qed

text \<open>Word sums are exact modulo \<open>2\<^sup>6\<^sup>4\<close>, hence exact when the exact sum is an int64.\<close>

lemma word_sum_list: "(word_of_int (\<Sum>x\<leftarrow>xs. sint (f x)) :: int64) = (\<Sum>x\<leftarrow>xs. f x)"
  by (induction xs) (simp_all add: wi_hom_add [symmetric])

lemma sint_sum_list: "in_int64 (\<Sum>x\<leftarrow>xs. sint (f x)) \<Longrightarrow> sint (\<Sum>x\<leftarrow>xs. f x :: int64) = (\<Sum>x\<leftarrow>xs. sint (f x))"
  using sint_of_int64 [of "\<Sum>x\<leftarrow>xs. sint (f x)"] by (simp add: word_sum_list)

section \<open>Properties of the append-only chaincode\<close>

text \<open>
  C28 (\<open>Get\<close> returns the balance). When the range query succeeds, its pages are delivered and its
  entries decode, \<open>Get\<close> returns: the response is a success with the decimal sum of the entries'
  amounts, which is the exact sum whenever that is an int64, and the iterator has been closed.
\<close>

theorem ht_get_sums:
  assumes "cs_GetStateByRange env (ht_start acct) (ht_end acct) s = (Return (Inr (iterAt ch tx r 0)), s1)"
    and "delivers env ch tx (cs_handler s1) r bs" and "\<forall>b \<in> set bs. se_KV env b = Inr (kv b)"
    and "\<And>st. \<exists>e st'. CommonIterator_Close env st = (Return e, st')"
  shows "\<exists>balance st h iter e s'.
    ht_get lib env [acct] s = Some (Return (cl_Success lib (bytes_of_string (FormatInt balance))), s') \<and>
    balance = (\<Sum>b\<leftarrow>bs. entryAmount (kv b)) \<and>
    (in_int64 (\<Sum>b\<leftarrow>bs. sint (entryAmount (kv b))) \<longrightarrow> sint balance = (\<Sum>b\<leftarrow>bs. sint (entryAmount (kv b)))) \<and>
    CommonIterator_Close env st = (Return e, (h, iter)) \<and> s' = s1\<lparr>cs_handler := h\<rparr>"
proof -
  let ?balance = "\<Sum>b\<leftarrow>bs. entryAmount (kv b)"
  have "\<forall>b \<in> set bs. getResultFromBytes env b StateQueryResult = Inr (ResultKV (kv b))"
    using assms(3) by (simp add: getResultFromBytes_def)
  from delivers_iterates [OF assms(2) this]
  obtain st where "iterates env StateQueryResult (cs_handler s1, iterAt ch tx r 0) (map (\<lambda>b. ResultKV (kv b)) bs) st" by blast
  from ht_sum_loop_iterates [OF this, of "map kv bs" 0]
  have loop: "ht_sum_loop env 0 (cs_handler s1, iterAt ch tx r 0) = Some (Return (Inr ?balance), st)" by (simp add: comp_def)
  obtain e h iter where close: "CommonIterator_Close env st = (Return e, (h, iter))" using assms(4) [of st] by fastforce
  have "ht_get lib env [acct] s =
      Some (Return (cl_Success lib (bytes_of_string (FormatInt ?balance))), s1\<lparr>cs_handler := h\<rparr>)"
    using assms(1) loop close by (simp add: ht_get_def deferClose_def)
  then show ?thesis using close sint_sum_list [of "\<lambda>b. entryAmount (kv b)" bs]
    by (intro exI [of _ ?balance] exI [of _ st] exI [of _ h] exI [of _ iter] exI [of _ e] exI [of _ "s1\<lparr>cs_handler := h\<rparr>"]) simp
qed

lemma rune_FFFF: "codes (string_of_rune 0xFFFF) = [0xEF, 0xBF, 0xBF]"
  by (simp add: codes_def string_of_rune_def encodeRune_def Let_def)

lemma ht_range: "inRange (ht_start acct) (ht_end acct) k \<longleftrightarrow>
    (\<exists>r. k = ht_start acct @ r \<and> ord_class.lexordp (codes r) [0xEF, 0xBF, 0xBF])"
  using prefix_range [of "ht_start acct" "string_of_rune 0xFFFF" k]
  by (simp add: ht_start_def ht_end_def strLess_def rune_FFFF)

lemma ascii_below: "\<forall>c \<in> set t. of_char c < (0x80 :: nat) \<Longrightarrow> ord_class.lexordp (codes t) [0xEF, 0xBF, 0xBF]"
  by (cases t) auto

lemma split_tilde:
  "CHR ''~'' \<notin> set t \<Longrightarrow> a @ CHR ''~'' # r = b @ CHR ''~'' # t \<Longrightarrow> a = b \<or> (\<exists>c. b = a @ CHR ''~'' # c)"
proof (induction a arbitrary: b)
  case Nil
  then show ?case by (cases b) auto
next
  case (Cons x a)
  then show ?case by (cases b) auto
qed

text \<open>
  Which entries an account's range holds: For an ASCII key suffix without a tilde (a
  transaction id, or \<open>init\<close>), the range that \<open>Get\<close> of account \<open>a\<close> reads contains the entry of
  account \<open>b\<close> exactly if \<open>b\<close> is \<open>a\<close> or \<open>b\<close> starts with \<open>a~\<close> and continues below U+FFFF: with names
  without a tilde every account reads exactly its own entries, and an account named \<open>a~x\<close> is counted
  into the balance of \<open>a\<close>.
\<close>

theorem ht_account_range:
  assumes "CHR ''~'' \<notin> set t" and "\<forall>c \<in> set t. of_char c < (0x80 :: nat)"
  shows "inRange (ht_start a) (ht_end a) (b @ ''~'' @ t) \<longleftrightarrow>
    b = a \<or> (\<exists>c. b = a @ ''~'' @ c \<and> strLess (c @ ''~'' @ t) (string_of_rune 0xFFFF))"
proof
  assume "inRange (ht_start a) (ht_end a) (b @ ''~'' @ t)"
  then obtain r where r: "b @ ''~'' @ t = a @ ''~'' @ r" "ord_class.lexordp (codes r) [0xEF, 0xBF, 0xBF]"
    unfolding ht_range by (auto simp: ht_start_def)
  from r(1) have "a = b \<or> (\<exists>c. b = a @ CHR ''~'' # c)" using split_tilde [OF assms(1), of a r b] by simp
  then show "b = a \<or> (\<exists>c. b = a @ ''~'' @ c \<and> strLess (c @ ''~'' @ t) (string_of_rune 0xFFFF))"
    using r by (auto simp: strLess_def rune_FFFF)
next
  assume "b = a \<or> (\<exists>c. b = a @ ''~'' @ c \<and> strLess (c @ ''~'' @ t) (string_of_rune 0xFFFF))"
  then show "inRange (ht_start a) (ht_end a) (b @ ''~'' @ t)"
    unfolding ht_range strLess_def rune_FFFF using ascii_below [OF assms(2)] by (auto simp: ht_start_def)
qed

theorem ht_account_range_witness:
  "inRange (ht_start ''a'') (ht_end ''a'') (''a~b'' @ ''~'' @ ''tx1'') \<and>
   \<not> inRange (ht_start ''a'') (ht_end ''a'') (''ab'' @ ''~'' @ ''tx1'')"
  using ht_account_range [of "''tx1''" "''a''" "''a~b''"] ht_account_range [of "''tx1''" "''a''" "''ab''"]
  by (simp add: strLess_def rune_FFFF)

text \<open>A peer with an account of three entries, one of which is not an amount.\<close>

definition exLedgerEnv :: "ChaincodeMessage list stub_env" where
  "exLedgerEnv = (exPeer [])\<lparr>
     env_QueryResponse := \<lambda>_. Inr \<lparr>qr_Results = [int64BE 5, int64BE (- 2), [1]], qr_HasMore = False, qr_Id = ''q'', qr_Metadata = []\<rparr>,
     se_QueryResponseMetadata := \<lambda>_. Inr \<lparr>rm_FetchedRecordsCount = 0, rm_Bookmark = ''''\<rparr>,
     se_KV := \<lambda>b. Inr \<lparr>kv_Namespace = '''', kv_Key = ''k'', kv_Value = b\<rparr>\<rparr>"

theorem ht_get_sums_witness:
  "\<exists>s'. ht_get exCCLib exLedgerEnv [''a''] (exCCStub []) = Some (Return (cl_Success exCCLib (bytes_of_string (FormatInt 3))), s')"
proof -
  let ?r = "\<lparr>qr_Results = [int64BE 5, int64BE (- 2), [1]], qr_HasMore = False, qr_Id = ''q'', qr_Metadata = []\<rparr>"
  have keys: "validateSimpleKeys exLedgerEnv [ht_start ''a'', ht_end ''a''] = None"
    by (simp add: ht_start_def ht_end_def exLedgerEnv_def exPeer_def exStubEnv_def)
  obtain s1 where q: "cs_GetStateByRange exLedgerEnv (ht_start ''a'') (ht_end ''a'') (exCCStub []) = (Return (Inr (iterAt ''ch'' ''tx'' ?r 0)), s1)"
    using keys
    by (simp add: cs_GetStateByRange_def substituteEmpty_def ht_start_def dropMetadata_def cs_handleGetStateByRange_def
      iteratorFor_def createStateQueryIterator_def createQueryResponseMetadata_def exLedgerEnv_def exCC_evals handleGetStateByRange_def
      readQueryResponse_def)
  have close: "\<exists>e st'. CommonIterator_Close exLedgerEnv st = (Return e, st')" for st
    by (cases st) (simp add: CommonIterator_Close_def handleQueryStateClose_def createResponseChannel_def sendReceive_def
        serialSend_def readQueryResponse_def exLedgerEnv_def exCC_evals split: option.splits)
  have d: "delivers exLedgerEnv ''ch'' ''tx'' (cs_handler s1) ?r [int64BE 5, int64BE (- 2), [1]]"
    using delivers.last_page [of ?r exLedgerEnv "''ch''" "''tx''" "cs_handler s1"] by simp
  have kv: "\<forall>b \<in> set [int64BE 5, int64BE (- 2), [1]]. se_KV exLedgerEnv b = Inr \<lparr>kv_Namespace = '''', kv_Key = ''k'', kv_Value = b\<rparr>"
    by (simp add: exLedgerEnv_def)
  have amounts: "entryAmount \<lparr>kv_Namespace = '''', kv_Key = ''k'', kv_Value = int64BE n\<rparr> = n"
    "entryAmount \<lparr>kv_Namespace = '''', kv_Key = ''k'', kv_Value = [1]\<rparr> = 0" for n
    by (simp_all add: entryAmount_def int64BE_def)
  from ht_get_sums [OF q d kv close, of exCCLib] show ?thesis by (auto simp: amounts)
qed

end
