(* ===== verification/Analyzer.thy ===== *)
theory Analyzer
  imports Protos Validation "HOL-Library.Char_ord" "HOL-Library.List_Lexorder"
begin

text \<open>
  \<open>analyzer/main.go\<close>: the measurement tool that replays the committed transactions of a chain and
  counts those that leave a balance negative. Arguments stand for code outside \<open>src/\<close>: the protobuf
  parsers and the constants and flag type of Fabric (\<open>analyzer_env\<close>). Reading the file of
  invalid ids is in \<open>Analyzer_Main\<close>; what the replay prints on the way is kept as a list
  of events. Blocks are taken with their header and data present.
\<close>

section \<open>Inputs\<close>

record analyzer_env =
  an_pu :: protoutil
  an_FromProtoBytes :: "bytes \<Rightarrow> string + KVRWSet option TxRwSet"
  an_UnmarshalBlock :: "bytes \<Rightarrow> string + Block"
  an_Flag :: "bytes \<Rightarrow> nat \<Rightarrow> int32"
  an_VALID :: int32
  an_CodeString :: "int32 \<Rightarrow> string"
  an_TRANSACTIONS_FILTER :: nat
  an_ENDORSER_TRANSACTION :: int32

text \<open>The flags of the command line that the replay reads; \<open>invalidSet\<close> is nil without a file.\<close>

record analyzer_opts =
  op_ns :: string
  op_baseline :: string
  op_schemaPrefix :: string
  op_keyFilter :: string
  op_verbose :: bool
  op_invalidSet :: "string set option"

datatype event = OverflowWarning string uint64 nat | PrefixViolation uint64 nat string int64

record report =
  r_bal :: "string \<rightharpoonup> int64"
  r_nBlocks :: nat
  r_totalTx :: nat
  r_validTx :: nat
  r_invalidTx :: nat
  r_configTx :: nat
  r_deltaWrites :: nat
  r_plainWrites :: nat
  r_violationCommits :: nat
  r_noValidation :: nat
  r_overflowEvents :: nat
  r_invalidByCode :: "string \<rightharpoonup> nat"
  r_events :: "event list"

definition emptyReport :: report where
  "emptyReport = \<lparr>r_bal = Map.empty, r_nBlocks = 0, r_totalTx = 0, r_validTx = 0, r_invalidTx = 0, r_configTx = 0,
     r_deltaWrites = 0, r_plainWrites = 0, r_violationCommits = 0, r_noValidation = 0, r_overflowEvents = 0,
     r_invalidByCode = Map.empty, r_events = []\<rparr>"

text \<open>\<open>m[k]\<close> of a Go map of numbers: 0 when absent.\<close>

definition balOf :: "report \<Rightarrow> string \<Rightarrow> int64" where
  "balOf r k = (case r_bal r k of None \<Rightarrow> 0 | Some v \<Rightarrow> v)"

section \<open>Amounts\<close>

definition addChecked :: "int64 \<Rightarrow> int64 \<Rightarrow> int64 \<times> bool" where
  "addChecked a b =
     (let s = a + b in if (0 <s b \<and> s <s a) \<or> (b <s 0 \<and> a <s s) then (a, False) else (s, True))"

lemma an_addChecked_cases:
  "addChecked a b = (if in_int64 (sint a + sint b) then (a + b, True) else (a, False))"
  using sint_bounds64 [of a] sint_bounds64 [of b]
  by (auto simp: addChecked_def Let_def word_sless_iff sint_add64_cases in_int64_def)

interpretation an_adder: checked_adder addChecked
  by unfold_locales (simp_all add: an_addChecked_cases)

definition applyDelta :: "string \<Rightarrow> DeltaDescriptor \<Rightarrow> hook_error + int64" where
  "applyDelta baseline d =
     (case UnmarshalInt64 (dd_Arg d) of
        Inl err \<Rightarrow> Inl (TdError err)
      | Inr arg \<Rightarrow>
          (case dd_Op d of
             DeltaDescriptor_ADD \<Rightarrow> Inr arg
           | DeltaDescriptor_SUB \<Rightarrow> Inr (- arg)
           | DeltaDescriptor_OTHER n \<Rightarrow> Inl (UnsupportedOp (dd_Op d))))"

section \<open>Loading blocks\<close>

text \<open>
  \<open>sort.Slice\<close> by block number. It is not stable: the definitions take the sorting function, any
  rearrangement in ascending order.
\<close>

definition is_block_sort :: "(Block list \<Rightarrow> Block list) \<Rightarrow> bool" where
  "is_block_sort f \<longleftrightarrow> (\<forall>bs. mset (f bs) = mset bs \<and> sorted (map blk_Number (f bs)))"

text \<open>\<open>loadBlocks\<close> from the files the glob matches, each with its contents or a read error.\<close>

fun loadBlocks_loop :: "analyzer_env \<Rightarrow> (string \<times> (string + bytes)) list \<Rightarrow> string + Block list" where
  "loadBlocks_loop env [] = Inr []"
| "loadBlocks_loop env ((p, file) # r) =
     (case file of
        Inl err \<Rightarrow> Inl err
      | Inr b \<Rightarrow>
          (case an_UnmarshalBlock env b of
             Inl err \<Rightarrow> Inl (p @ '': '' @ err)
           | Inr blk \<Rightarrow>
               (case loadBlocks_loop env r of Inl err \<Rightarrow> Inl err | Inr blocks \<Rightarrow> Inr (blk # blocks))))"

definition loadBlocks ::
  "analyzer_env \<Rightarrow> (Block list \<Rightarrow> Block list) \<Rightarrow> string \<Rightarrow> string + (string \<times> (string + bytes)) list \<Rightarrow> string + Block list" where
  "loadBlocks env srt dir glob =
     (case glob of
        Inl err \<Rightarrow> Inl err
      | Inr paths \<Rightarrow>
          if length paths = 0 then Inl (''no *.block files in '' @ dir)
          else (case loadBlocks_loop env paths of Inl err \<Rightarrow> Inl err | Inr blocks \<Rightarrow> Inr (srt blocks)))"

text \<open>\<open>binary.Uvarint\<close>: the value and the number of bytes read, 0 or negative on failure.\<close>

fun uvarint_loop :: "nat \<Rightarrow> nat \<Rightarrow> uint64 \<Rightarrow> bytes \<Rightarrow> uint64 \<times> int" where
  "uvarint_loop i s x [] = (0, 0)"
| "uvarint_loop i s x (b # r) =
     (if i = 10 then (0, - (int i + 1))
      else if b < 0x80 then
        (if i = 9 \<and> b > 1 then (0, - (int i + 1)) else (x OR push_bit s (ucast b), int i + 1))
      else uvarint_loop (i + 1) (s + 7) (x OR push_bit s (ucast (b AND 0x7f))) r)"

definition Uvarint :: "bytes \<Rightarrow> uint64 \<times> int" where
  "Uvarint buf = uvarint_loop 0 0 0 buf"

lemma uvarint_loop_consumed: "uvarint_loop i s x b = (n, c) \<Longrightarrow> 0 < c \<Longrightarrow> c \<le> int i + int (length b)"
  by (induction i s x b rule: uvarint_loop.induct) (auto split: if_splits)

text \<open>The loop of \<open>loadBlockfile\<close> ends: every round drops at least the length prefix.\<close>

function loadBlockfile_loop :: "analyzer_env \<Rightarrow> Block list \<Rightarrow> bytes \<Rightarrow> string + Block list" where
  "loadBlockfile_loop env blocks data =
     (if data = [] then Inr blocks
      else
        (case Uvarint data of
           (n, consumed) \<Rightarrow>
             if consumed \<le> 0
             then Inl (''bad varint length prefix at offset (remaining '' @ natString (length data) @ '' bytes)'')
             else
               (let data' = drop (nat consumed) data
                in if of_nat (length data') < n
                   then Inl (''truncated block: need '' @ natString (unat n) @ '' bytes, have '' @ natString (length data'))
                   else
                     (case an_UnmarshalBlock env (take (unat n) data') of
                        Inl err \<Rightarrow> Inl err
                      | Inr blk \<Rightarrow> loadBlockfile_loop env (blocks @ [blk]) (drop (unat n) data')))))"
  by pat_completeness auto
termination by (relation "measure (\<lambda>(env, blocks, data). length data)") auto

declare loadBlockfile_loop.simps [simp del]

definition loadBlockfile :: "analyzer_env \<Rightarrow> (Block list \<Rightarrow> Block list) \<Rightarrow> string + bytes \<Rightarrow> string + Block list" where
  "loadBlockfile env srt file =
     (case file of
        Inl err \<Rightarrow> Inl err
      | Inr data \<Rightarrow>
          (case loadBlockfile_loop env [] data of Inl err \<Rightarrow> Inl err | Inr blocks \<Rightarrow> Inr (srt blocks)))"

definition metadata :: "Block \<Rightarrow> nat \<Rightarrow> bytes" where
  "metadata blk idx =
     (case blk_Metadata blk of
        None \<Rightarrow> []
      | Some m \<Rightarrow> if length m \<le> idx then [] else m ! idx)"

definition channelHeader :: "protoutil \<Rightarrow> Envelope \<Rightarrow> string + ChannelHeader" where
  "channelHeader pu env =
     (case UnmarshalPayload pu (env_Payload env) of
        Inl err \<Rightarrow> Inl err
      | Inr payload \<Rightarrow>
          (case pl_Header payload of
             None \<Rightarrow> Inl ''nil payload header''
           | Some hdr \<Rightarrow> UnmarshalChannelHeader pu (h_ChannelHeader hdr)))"

section \<open>The replay\<close>

text \<open>A report being built together with the keys the current transaction touched.\<close>

type_synonym replay = "report \<times> string list"

definition accumulate :: "Block \<Rightarrow> nat \<Rightarrow> string \<Rightarrow> int64 \<Rightarrow> replay \<Rightarrow> replay" where
  "accumulate blk i k v = (\<lambda>(r, touched).
     case addChecked (balOf r k) v of
       (s, ok) \<Rightarrow>
         if ok then (r\<lparr>r_bal := (r_bal r)(k \<mapsto> s)\<rparr>, List.insert k touched)
         else (r\<lparr>r_overflowEvents := r_overflowEvents r + 1,
                 r_events := r_events r @ [OverflowWarning k (blk_Number blk) i]\<rparr>, touched))"

text \<open>\<open>strings.IndexByte\<close>\<close>

fun IndexByte :: "string \<Rightarrow> char \<Rightarrow> nat option" where
  "IndexByte [] c = None"
| "IndexByte (x # s) c = (if x = c then Some 0 else map_option Suc (IndexByte s c))"

definition logicalKey :: "string \<Rightarrow> string" where
  "logicalKey key = (case IndexByte key (CHR ''~'') of Some idx \<Rightarrow> take idx key | None \<Rightarrow> key)"

definition replayWrite :: "analyzer_opts \<Rightarrow> Block \<Rightarrow> nat \<Rightarrow> KVWrite \<Rightarrow> replay \<Rightarrow> replay" where
  "replayWrite opt blk i w = (\<lambda>(r, touched).
     if op_baseline opt = ''highthroughput'' then
       (let logical = logicalKey (w_Key w)
        in if op_keyFilter opt \<noteq> '''' \<and> logical \<noteq> op_keyFilter opt then (r, touched)
           else if length (w_Value w) \<noteq> Int64Width then (r, touched)
           else accumulate blk i logical (Uint64 (w_Value w)) (r\<lparr>r_deltaWrites := r_deltaWrites r + 1\<rparr>, touched))
     else if HasPrefix (w_Key w) (op_schemaPrefix opt) then (r, touched)
     else if op_keyFilter opt \<noteq> '''' \<and> w_Key w \<noteq> op_keyFilter opt then (r, touched)
     else
       (case w_Delta w of
          Some d \<Rightarrow>
            (let r' = r\<lparr>r_deltaWrites := r_deltaWrites r + 1\<rparr>
             in case applyDelta (op_baseline opt) d of
                  Inl derr \<Rightarrow> (r', touched)
                | Inr delta \<Rightarrow> accumulate blk i (w_Key w) delta (r', touched))
        | None \<Rightarrow>
            if length (w_Value w) = Int64Width then
              (let r' = r\<lparr>r_plainWrites := r_plainWrites r + 1\<rparr>
               in case UnmarshalInt64 (w_Value w) of
                    Inl verr \<Rightarrow> (r', touched)
                  | Inr v \<Rightarrow> (r'\<lparr>r_bal := (r_bal r')(w_Key w \<mapsto> v)\<rparr>, List.insert (w_Key w) touched))
            else (r, touched)))"

definition replayNs :: "analyzer_opts \<Rightarrow> Block \<Rightarrow> nat \<Rightarrow> KVRWSet option NsRwSet \<Rightarrow> replay \<Rightarrow> replay" where
  "replayNs opt blk i nsrw st =
     (case KvRwSet nsrw of
        None \<Rightarrow> st
      | Some kv \<Rightarrow> if NameSpace nsrw \<noteq> op_ns opt then st else fold (replayWrite opt blk i) (Writes kv) st)"

definition replayTx ::
  "analyzer_opts \<Rightarrow> (string list \<Rightarrow> string list) \<Rightarrow> Block \<Rightarrow> nat \<Rightarrow> KVRWSet option TxRwSet \<Rightarrow> report \<Rightarrow> report" where
  "replayTx opt ord blk i txrw r =
     (case fold (replayNs opt blk i) (NsRwSets txrw) (r, []) of
        (r', touched) \<Rightarrow>
          (let bad = filter (\<lambda>k. balOf r' k <s 0) (ord touched);
               r'' = (if op_verbose opt
                      then r'\<lparr>r_events := r_events r' @ map (\<lambda>k. PrefixViolation (blk_Number blk) i k (balOf r' k)) bad\<rparr>
                      else r')
           in if bad \<noteq> [] then r''\<lparr>r_violationCommits := r_violationCommits r'' + 1\<rparr> else r''))"

text \<open>The validity of transaction \<open>i\<close>: its code, the external set, or nothing known.\<close>

datatype validity = Flagged int32 | Listed bool | Unknown

definition txValidity :: "analyzer_env \<Rightarrow> analyzer_opts \<Rightarrow> bytes \<Rightarrow> nat \<Rightarrow> ChannelHeader \<Rightarrow> validity" where
  "txValidity env opt flags i chHdr =
     (if i < length flags then Flagged (an_Flag env flags i)
      else (case op_invalidSet opt of
              Some s \<Rightarrow> Listed (ch_TxId chHdr \<notin> s)
            | None \<Rightarrow> Unknown))"

definition replayValid ::
  "analyzer_env \<Rightarrow> analyzer_opts \<Rightarrow> (string list \<Rightarrow> string list) \<Rightarrow> Block \<Rightarrow> nat \<Rightarrow> Envelope \<Rightarrow> report \<Rightarrow> report" where
  "replayValid env opt ord blk i envelope r =
     (let r1 = r\<lparr>r_validTx := r_validTx r + 1\<rparr>
      in case GetActionResults (an_pu env) envelope of
           Inl err \<Rightarrow> r1
         | Inr results \<Rightarrow>
             (case an_FromProtoBytes env results of
                Inl err \<Rightarrow> r1
              | Inr txrw \<Rightarrow> replayTx opt ord blk i txrw r1))"

definition countInvalid :: "report \<Rightarrow> report" where
  "countInvalid r = r\<lparr>r_invalidTx := r_invalidTx r + 1\<rparr>"

definition countCode :: "string \<Rightarrow> report \<Rightarrow> report" where
  "countCode c r = r\<lparr>r_invalidByCode := (r_invalidByCode r)(c \<mapsto> (case r_invalidByCode r c of None \<Rightarrow> 0 | Some n \<Rightarrow> n) + 1)\<rparr>"

definition replayEnvelope ::
  "analyzer_env \<Rightarrow> analyzer_opts \<Rightarrow> (string list \<Rightarrow> string list) \<Rightarrow> bytes \<Rightarrow> Block \<Rightarrow> nat \<Rightarrow> bytes \<Rightarrow> report \<Rightarrow> report" where
  "replayEnvelope env opt ord flags blk i envBytes r0 =
     (let r = r0\<lparr>r_totalTx := r_totalTx r0 + 1\<rparr>
      in case UnmarshalEnvelope (an_pu env) envBytes of
           Inl err \<Rightarrow> r
         | Inr envelope \<Rightarrow>
             (case channelHeader (an_pu env) envelope of
                Inl err \<Rightarrow> r\<lparr>r_configTx := r_configTx r + 1\<rparr>
              | Inr chHdr \<Rightarrow>
                  if ch_Type chHdr \<noteq> an_ENDORSER_TRANSACTION env then r\<lparr>r_configTx := r_configTx r + 1\<rparr>
                  else
                    (case txValidity env opt flags i chHdr of
                       Flagged code \<Rightarrow>
                         if code = an_VALID env then replayValid env opt ord blk i envelope r
                         else countInvalid (countCode (an_CodeString env code) r)
                     | Listed valid \<Rightarrow>
                         if valid then replayValid env opt ord blk i envelope r else countInvalid r
                     | Unknown \<Rightarrow> r\<lparr>r_noValidation := r_noValidation r + 1\<rparr>)))"

fun replayTxs ::
  "analyzer_env \<Rightarrow> analyzer_opts \<Rightarrow> (string list \<Rightarrow> string list) \<Rightarrow> bytes \<Rightarrow> Block \<Rightarrow> nat \<Rightarrow> bytes list \<Rightarrow> report \<Rightarrow> report" where
  "replayTxs env opt ord flags blk i [] r = r"
| "replayTxs env opt ord flags blk i (e # es) r =
     replayTxs env opt ord flags blk (i + 1) es (replayEnvelope env opt ord flags blk i e r)"

definition replayBlock ::
  "analyzer_env \<Rightarrow> analyzer_opts \<Rightarrow> (string list \<Rightarrow> string list) \<Rightarrow> Block \<Rightarrow> report \<Rightarrow> report" where
  "replayBlock env opt ord blk r =
     replayTxs env opt ord (metadata blk (an_TRANSACTIONS_FILTER env)) blk 0 (blk_Data blk)
       (r\<lparr>r_nBlocks := r_nBlocks r + 1\<rparr>)"

definition analyze :: "analyzer_env \<Rightarrow> analyzer_opts \<Rightarrow> (string list \<Rightarrow> string list) \<Rightarrow> Block list \<Rightarrow> report" where
  "analyze env opt ord blocks = fold (replayBlock env opt ord) blocks emptyReport"

text \<open>\<open>printBalances\<close>; \<open>sort.Strings\<close> orders by bytes, which is the order of characters here.\<close>

definition printBalances :: "(string list \<Rightarrow> string list) \<Rightarrow> string list \<Rightarrow> (string \<rightharpoonup> int64) \<Rightarrow> string \<Rightarrow> string" where
  "printBalances ord keys bal schemaPrefix =
     ''final balances:'' @
     concat (map (\<lambda>k. '' '' @ k @ ''='' @ FormatInt (the (bal k)))
       (sort (filter (\<lambda>k. \<not> HasPrefix k schemaPrefix) (ord keys)))) @ ''\<newline>''"

text \<open>A printed map: \<open>fmt\<close> sorts the keys.\<close>

definition showCounts :: "(string \<rightharpoonup> nat) \<Rightarrow> string list \<Rightarrow> string" where
  "showCounts m ks = ''map['' @ concat (map (\<lambda>(i, k). (if i = 0 then '''' else '' '') @ k @ '':'' @ natString (the (m k))) (enumerate 0 (sort ks))) @ '']''"

text \<open>The printed report; \<open>keys\<close> and \<open>codes\<close> list the domains of the two maps.\<close>

definition printReport ::
  "analyzer_opts \<Rightarrow> (string list \<Rightarrow> string list) \<Rightarrow> string list \<Rightarrow> string list \<Rightarrow> report \<Rightarrow> string" where
  "printReport opt ord keys codes r =
     ''baseline='' @ op_baseline opt @ '' ns='' @ op_ns opt @ '' blocks='' @ natString (r_nBlocks r) @ ''\<newline>'' @
     ''tx: total='' @ natString (r_totalTx r) @ '' valid='' @ natString (r_validTx r) @ '' invalid='' @ natString (r_invalidTx r) @
     '' config/system='' @ natString (r_configTx r) @ '' no-validation-info='' @ natString (r_noValidation r) @ ''\<newline>'' @
     (if r_noValidation r > 0
      then ''WARNING: blocks lack validation codes (orderer-sourced?). Use -blockfile from a peer for accurate validity.\<newline>'' else '''') @
     ''writes: delta='' @ natString (r_deltaWrites r) @ '' plain='' @ natString (r_plainWrites r) @ ''\<newline>'' @
     (if codes \<noteq> [] then ''invalid-by-code: '' @ showCounts (r_invalidByCode r) codes @ ''\<newline>'' else '''') @
     ''PREFIX INVARIANT VIOLATION COMMITS (NONNEG) = '' @ natString (r_violationCommits r) @ ''\<newline>'' @
     ''safe valid commits (valid - violations) = '' @
       FormatInt (of_nat (r_validTx r) - of_nat (r_violationCommits r)) @ ''\<newline>'' @
     (if r_overflowEvents r > 0
      then ''WARNING: int64 overflow events = '' @ natString (r_overflowEvents r) @
        '' (those writes were skipped; balances/violation counts may be affected)\<newline>'' else '''') @
     printBalances ord keys (r_bal r) (op_schemaPrefix opt)"

text \<open>
  The run after the flags are read: the source of the blocks, the replay and the report, or the exit
  status with the message on the error output.
\<close>

datatype analyzer_run = Exit nat string | Printed string

definition analyzerRun ::
  "analyzer_env \<Rightarrow> (Block list \<Rightarrow> Block list) \<Rightarrow> analyzer_opts \<Rightarrow> (string list \<Rightarrow> string list) \<Rightarrow> string \<Rightarrow> string \<Rightarrow>
     string + (string \<times> (string + bytes)) list \<Rightarrow> string + bytes \<Rightarrow> analyzer_run" where
  "analyzerRun env srt opt ord dir blockfile glob file =
     (if dir = '''' \<and> blockfile = ''''
      then Exit 2 ''usage: prefixanalyzer (-blockfile <peer blockfile> | -blocks <dir>) [-ns ..] [-baseline ours|vanilla]''
      else
        (case (if blockfile \<noteq> '''' then loadBlockfile env srt file else loadBlocks env srt dir glob) of
           Inl err \<Rightarrow> Exit 1 (''load blocks: '' @ err)
         | Inr blocks \<Rightarrow>
             (let r = analyze env opt ord blocks
              in Printed (printReport opt ord (sorted_list_of_set (dom (r_bal r)))
                   (sorted_list_of_set (dom (r_invalidByCode r))) r))))"

section \<open>Reading a block file\<close>

text \<open>
  The file is a sequence of frames: the length of the block as a base-128 varint, low group first,
  then the block. \<open>putUvarint\<close> is that encoding.
\<close>

fun putUvarint :: "nat \<Rightarrow> bytes" where
  "putUvarint n = (if n < 128 then [of_nat n] else of_nat (n mod 128 + 128) # putUvarint (n div 128))"

declare putUvarint.simps [simp del]

lemma or_push_bit_nat: "x < 2 ^ s \<Longrightarrow> x OR push_bit s n = x + n * 2 ^ s" for x n :: nat
proof -
  assume "x < 2 ^ s"
  then have t: "x = take_bit s x" by (simp add: take_bit_nat_eq_self)
  have "x AND push_bit s n = 0" by (subst t) (rule bit_eqI, auto simp: bit_simps)
  then show ?thesis by (simp add: disjunctive_add_eq_or [symmetric] push_bit_eq_mult)
qed

lemma or_push_bit_word:
  assumes "x < 2 ^ s" "n < 256"
  shows "of_nat x OR push_bit s (ucast (of_nat n :: byte)) = (of_nat (x + n * 2 ^ s) :: uint64)"
proof -
  have "(ucast (of_nat n :: byte) :: uint64) = of_nat n" using assms(2)
    by (simp add: unsigned_of_nat take_bit_nat_eq_self)
  then show ?thesis using or_push_bit_nat [OF assms(1), of n]
    by (simp add: push_bit_of_nat of_nat_or_eq [symmetric])
qed

text \<open>A continuation byte: its high bit is set and its low seven bits are the group.\<close>

lemma continuation_byte:
  fixes n :: nat
  defines "b \<equiv> of_nat (n mod 128 + 128) :: byte"
  shows "\<not> b < 0x80" "b AND 0x7f = of_nat (n mod 128)"
proof -
  have u: "unat b = n mod 128 + 128" unfolding b_def by (simp only: unat_of_nat) simp
  then show "\<not> b < 0x80" by (simp add: word_less_nat_alt)
  have "b AND 0x7f = take_bit 7 b" by (simp add: take_bit_eq_mask mask_eq_exp_minus_1)
  also have "\<dots> = of_nat (n mod 128)"
  proof (rule word_unat_eq_iff [THEN iffD2])
    have "unat (take_bit 7 b) = take_bit 7 (unat b)" by (rule unsigned_take_bit_eq)
    also have "\<dots> = n mod 128" unfolding u by (simp add: take_bit_eq_mod)
    finally show "unat (take_bit 7 b) = unat (of_nat (n mod 128) :: byte)" by (simp add: unat_of_nat)
  qed
  finally show "b AND 0x7f = of_nat (n mod 128)" .
qed

lemma group_shift:
  fixes x n s :: nat
  assumes "x < 2 ^ s"
  shows "x + n mod 128 * 2 ^ s < 2 ^ (s + 7)"
    "x + n mod 128 * 2 ^ s + n div 128 * 2 ^ (s + 7) = x + n * 2 ^ s"
proof -
  have "n mod 128 * 2 ^ s \<le> 127 * 2 ^ s" by (intro mult_right_mono) auto
  then have "x + n mod 128 * 2 ^ s < 2 ^ s + 127 * 2 ^ s" using assms by linarith
  then show "x + n mod 128 * 2 ^ s < 2 ^ (s + 7)" by (simp add: power_add)
  have "n mod 128 * 2 ^ s + n div 128 * 128 * 2 ^ s = (n mod 128 + n div 128 * 128) * 2 ^ s"
    by (rule add_mult_distrib [symmetric])
  then show "x + n mod 128 * 2 ^ s + n div 128 * 2 ^ (s + 7) = x + n * 2 ^ s"
    by (simp add: power_add mult.assoc mult.commute [of "2 ^ s"])
qed

lemma uvarint_put:
  "s = 7 * i \<Longrightarrow> i \<le> 9 \<Longrightarrow> x < 2 ^ s \<Longrightarrow> x + n * 2 ^ s < 2 ^ 64 \<Longrightarrow>
     uvarint_loop i s (of_nat x) (putUvarint n @ rest) = (of_nat (x + n * 2 ^ s), int i + int (length (putUvarint n)))"
proof (induction n arbitrary: i s x rule: putUvarint.induct)
  case (1 n)
  show ?case
  proof (cases "n < 128")
    case True
    have b: "unat (of_nat n :: byte) = n" using True by (simp add: unat_of_nat)
    have "n \<le> 1" if "i = 9" using 1(2-5) that by simp
    then have "\<not> (i = 9 \<and> (of_nat n :: byte) > 1)" using b by (auto simp: word_less_nat_alt)
    moreover have "(of_nat n :: byte) < 0x80" using b True by (simp add: word_less_nat_alt)
    ultimately show ?thesis using True 1(3-5) or_push_bit_word [of x s n] by (simp add: putUvarint.simps)
  next
    case False
    have "i \<noteq> 9" using 1(2,5) False by auto
    then have i: "i \<le> 8" using 1(3) by simp
    let ?x = "x + n mod 128 * 2 ^ s"
    have "uvarint_loop (i + 1) (s + 7) (of_nat ?x) (putUvarint (n div 128) @ rest) =
        (of_nat (?x + n div 128 * 2 ^ (s + 7)), int (i + 1) + int (length (putUvarint (n div 128))))"
      using i 1(2,5) group_shift [OF 1(4), of n] by (intro 1(1) [OF False]) simp_all
    then have "uvarint_loop (i + 1) (s + 7) (of_nat ?x) (putUvarint (n div 128) @ rest) =
        (of_nat (x + n * 2 ^ s), int (i + 1) + int (length (putUvarint (n div 128))))"
      by (simp only: group_shift(2) [OF 1(4)])
    then show ?thesis using False continuation_byte [of n] i or_push_bit_word [OF 1(4), of "n mod 128"]
      by (simp add: putUvarint.simps [of n])
  qed
qed

lemma Uvarint_put: "n < 2 ^ 64 \<Longrightarrow> Uvarint (putUvarint n @ rest) = (of_nat n, int (length (putUvarint n)))"
  using uvarint_put [of 0 0 0 n rest] by (simp add: Uvarint_def)

lemma putUvarint_ne: "putUvarint n \<noteq> []"
  by (simp add: putUvarint.simps [of n])

definition frame :: "bytes \<Rightarrow> bytes" where
  "frame b = putUvarint (length b) @ b"

lemma loadBlockfile_loop_frames:
  assumes "\<forall>b \<in> set bs. length b < 2 ^ 64 \<and> an_UnmarshalBlock env b = Inr (blk b)"
    and "length (concat (map frame bs)) < 2 ^ 64"
  shows "loadBlockfile_loop env acc (concat (map frame bs)) = Inr (acc @ map blk bs)"
  using assms
proof (induction bs arbitrary: acc)
  case Nil
  then show ?case by (simp add: loadBlockfile_loop.simps)
next
  case (Cons b bs)
  let ?rest = "concat (map frame bs)"
  have u: "Uvarint (frame b @ ?rest) = (of_nat (length b), int (length (putUvarint (length b))))"
    using Cons.prems(1) Uvarint_put [of "length b" "b @ ?rest"] by (simp add: frame_def)
  have l: "unat (of_nat (length b) :: uint64) = length b" using Cons.prems(1) by (simp add: unat_of_nat)
  have fits: "\<not> (of_nat (length (b @ ?rest)) :: uint64) < of_nat (length b)"
    using Cons.prems by (simp add: word_less_nat_alt unat_of_nat frame_def [of b] del: of_nat_add)
  have "0 < int (length (putUvarint (length b)))" using putUvarint_ne [of "length b"] by simp
  then have "loadBlockfile_loop env acc (frame b @ ?rest) = loadBlockfile_loop env (acc @ [blk b]) ?rest"
    using u l fits Cons.prems(1) putUvarint_ne [of "length b"]
    by (subst loadBlockfile_loop.simps) (simp add: frame_def [of b] Let_def del: of_nat_add)
  with Cons show ?case by simp
qed

text \<open>
  C29 (block files are read back). A file that consists of the frames of some blocks, each readable,
  loads as exactly those blocks, rearranged in ascending order of their numbers, for any sorting
  function that sorts.
\<close>

theorem blockfile_roundtrip:
  assumes "\<forall>b \<in> set bs. an_UnmarshalBlock env b = Inr (blk b)"
    and "length (concat (map frame bs)) < 2 ^ 64" and "is_block_sort srt"
  shows "\<exists>blocks. loadBlockfile env srt (Inr (concat (map frame bs))) = Inr blocks \<and>
    mset blocks = mset (map blk bs) \<and> sorted (map blk_Number blocks)"
proof -
  have "length b < 2 ^ 64" if "b \<in> set bs" for b
  proof -
    have "length b \<le> length (concat (map frame bs))"
      using that by (induction bs) (auto simp: frame_def)
    then show ?thesis using assms(2) by simp
  qed
  then have "loadBlockfile_loop env [] (concat (map frame bs)) = Inr (map blk bs)"
    using loadBlockfile_loop_frames [of bs env blk "[]"] assms(1,2) by simp
  then have "loadBlockfile env srt (Inr (concat (map frame bs))) = Inr (srt (map blk bs))"
    by (simp add: loadBlockfile_def)
  then show ?thesis using assms(3) by (auto simp: is_block_sort_def)
qed

text \<open>An environment that reads a block's number from its length, for the witness.\<close>

definition exLoader :: analyzer_env where
  "exLoader = \<lparr>an_pu = \<lparr>UnmarshalEnvelope = (\<lambda>_. Inl ''''), UnmarshalPayload = (\<lambda>_. Inl ''''),
       UnmarshalTransaction = (\<lambda>_. Inl ''''), GetPayloads = (\<lambda>_. Inl ''''), UnmarshalChannelHeader = (\<lambda>_. Inl ''''),
       GetActionResults = (\<lambda>_. Inl '''')\<rparr>,
     an_FromProtoBytes = (\<lambda>_. Inl ''''),
     an_UnmarshalBlock = (\<lambda>b. Inr \<lparr>blk_Number = of_nat (length b), blk_Data = [b], blk_Metadata = None\<rparr>),
     an_Flag = (\<lambda>_ _. 0), an_VALID = 0, an_CodeString = (\<lambda>_. ''''), an_TRANSACTIONS_FILTER = 0,
     an_ENDORSER_TRANSACTION = 3\<rparr>"

theorem blockfile_roundtrip_witness:
  "\<exists>blocks. loadBlockfile exLoader (sort_key blk_Number) (Inr ([2, 7, 8] @ [1, 9])) = Inr blocks \<and>
     length blocks = 2 \<and> sorted (map blk_Number blocks)"
proof -
  let ?blk = "\<lambda>b. \<lparr>blk_Number = of_nat (length b), blk_Data = [b], blk_Metadata = None\<rparr>"
  have srt: "is_block_sort (sort_key blk_Number)" by (simp add: is_block_sort_def)
  have f: "concat (map frame [[7, 8], [9]]) = [2, 7, 8] @ [1, 9]" by (simp add: frame_def putUvarint.simps)
  have "\<forall>b \<in> set [[7, 8], [9]]. an_UnmarshalBlock exLoader b = Inr (?blk b)" by (simp add: exLoader_def)
  from blockfile_roundtrip [OF this _ srt] obtain blocks where
    b: "loadBlockfile exLoader (sort_key blk_Number) (Inr ([2, 7, 8] @ [1, 9])) = Inr blocks"
    "mset blocks = mset (map ?blk [[7, 8], [9]])" "sorted (map blk_Number blocks)"
    unfolding f by auto
  have "size (mset blocks) = 2" unfolding b(2) by simp
  then have "length blocks = 2" by (simp only: size_mset)
  with b(1,3) show ?thesis by (intro exI [of _ blocks] conjI)
qed

section \<open>Counting transactions\<close>

definition counters :: "report \<Rightarrow> nat list" where
  "counters r = [r_nBlocks r, r_totalTx r, r_validTx r, r_invalidTx r, r_configTx r, r_noValidation r]"

definition keepsCounts :: "(replay \<Rightarrow> replay) \<Rightarrow> bool" where
  "keepsCounts f \<longleftrightarrow> (\<forall>st. counters (fst (f st)) = counters (fst st) \<and> r_violationCommits (fst (f st)) = r_violationCommits (fst st))"

lemma keepsCounts_accumulate: "keepsCounts (accumulate blk i k v)"
  by (auto simp: keepsCounts_def accumulate_def counters_def split: prod.splits)

lemma keepsCounts_write: "keepsCounts (replayWrite opt blk i w)"
proof -
  have a: "counters (fst (accumulate blk i k v (r, t))) = counters r"
    "r_violationCommits (fst (accumulate blk i k v (r, t))) = r_violationCommits r" for k v r t
    using keepsCounts_accumulate [of blk i k v] unfolding keepsCounts_def by (metis fst_conv)+
  show ?thesis
    by (auto simp: keepsCounts_def replayWrite_def a Let_def split: sum.splits option.splits) (simp_all add: counters_def)
qed

lemma keepsCounts_fold: "(\<And>x. keepsCounts (f x)) \<Longrightarrow> keepsCounts (fold f xs)"
proof (induction xs)
  case (Cons x xs)
  then show ?case unfolding keepsCounts_def fold.simps comp_def by metis
qed (simp add: keepsCounts_def)

lemma keepsCounts_ns: "keepsCounts (replayNs opt blk i nsrw)"
proof (cases "KvRwSet nsrw")
  case (Some kv)
  then show ?thesis
    using keepsCounts_fold [of "replayWrite opt blk i" "Writes kv", OF keepsCounts_write] by (auto simp: keepsCounts_def replayNs_def)
qed (simp add: keepsCounts_def replayNs_def)

lemma replayTx_counters:
  "counters (replayTx opt ord blk i txrw r) = counters r"
  "r_violationCommits (replayTx opt ord blk i txrw r) \<le> r_violationCommits r + 1"
proof -
  obtain r' t where rt: "fold (replayNs opt blk i) (NsRwSets txrw) (r, []) = (r', t)" by fastforce
  then have "counters r' = counters r" "r_violationCommits r' = r_violationCommits r"
    using keepsCounts_fold [of "replayNs opt blk i" "NsRwSets txrw", OF keepsCounts_ns] unfolding keepsCounts_def by (metis fst_conv)+
  then show "counters (replayTx opt ord blk i txrw r) = counters r"
    "r_violationCommits (replayTx opt ord blk i txrw r) \<le> r_violationCommits r + 1"
    by (simp_all add: replayTx_def rt Let_def counters_def)
qed

text \<open>Every envelope read is unreadable or counted in exactly one class.\<close>

definition readable :: "analyzer_env \<Rightarrow> bytes \<Rightarrow> bool" where
  "readable env e = (\<exists>x. UnmarshalEnvelope (an_pu env) e = Inr x)"

definition classified :: "report \<Rightarrow> nat" where
  "classified r = r_configTx r + r_noValidation r + r_invalidTx r + r_validTx r"

definition counts :: "nat \<Rightarrow> nat \<Rightarrow> nat \<Rightarrow> report \<Rightarrow> report \<Rightarrow> bool" where
  "counts b n u r r' \<longleftrightarrow> r_nBlocks r' = r_nBlocks r + b \<and> r_totalTx r' = r_totalTx r + n \<and>
     classified r' = classified r + u \<and>
     r_violationCommits r' + r_validTx r \<le> r_violationCommits r + r_validTx r'"

lemma counts_trans: "counts b n u r r' \<Longrightarrow> counts b' n' u' r' r'' \<Longrightarrow> counts (b + b') (n + n') (u + u') r r''"
  by (auto simp: counts_def)

lemma counts_valid: "counts 0 0 1 r (replayValid env opt ord blk i envelope r)"
proof -
  let ?r = "r\<lparr>r_validTx := r_validTx r + 1\<rparr>"
  have 1: "counts 0 0 1 r ?r" by (simp add: counts_def classified_def)
  have "counts 0 0 1 r (replayTx opt ord blk i txrw ?r)" for txrw
    using replayTx_counters [of opt ord blk i txrw ?r] by (simp add: counts_def classified_def counters_def)
  with 1 show ?thesis by (simp add: replayValid_def Let_def split: sum.splits)
qed

lemma counts_envelope:
  "counts 0 1 (if readable env e then 1 else 0) r (replayEnvelope env opt ord flags blk i e r)"
proof -
  let ?r = "r\<lparr>r_totalTx := r_totalTx r + 1\<rparr>"
  have 0: "counts 0 1 0 r ?r" by (simp add: counts_def classified_def)
  have config: "counts 0 0 1 ?r (?r\<lparr>r_configTx := r_configTx ?r + 1\<rparr>)"
    and unknown: "counts 0 0 1 ?r (?r\<lparr>r_noValidation := r_noValidation ?r + 1\<rparr>)"
    and invalid: "counts 0 0 1 ?r (countInvalid ?r)" "counts 0 0 1 ?r (countInvalid (countCode c ?r))" for c
    by (simp_all add: counts_def classified_def countInvalid_def countCode_def)
  note valid = counts_valid [of ?r env opt ord blk i]
  show ?thesis
    using 0 counts_trans [OF 0 config] counts_trans [OF 0 unknown] counts_trans [OF 0 invalid(1)]
      counts_trans [OF 0 invalid(2)] counts_trans [OF 0 valid]
    by (auto simp: replayEnvelope_def readable_def Let_def split: sum.splits validity.splits)
qed

lemma counts_txs:
  "counts 0 (length es) (length (filter (readable env) es)) r (replayTxs env opt ord flags blk i es r)"
proof (induction es arbitrary: i r)
  case Nil
  then show ?case by (simp add: counts_def)
next
  case (Cons e es)
  have "counts 0 1 (if readable env e then 1 else 0) r (replayEnvelope env opt ord flags blk i e r)"
    by (rule counts_envelope)
  from counts_trans [OF this Cons.IH [of _ "i + 1"]] show ?case by (cases "readable env e") auto
qed

lemma counts_block:
  "counts 1 (length (blk_Data blk)) (length (filter (readable env) (blk_Data blk))) r (replayBlock env opt ord blk r)"
proof -
  have "counts 1 0 0 r (r\<lparr>r_nBlocks := r_nBlocks r + 1\<rparr>)" by (simp add: counts_def classified_def)
  from counts_trans [OF this counts_txs] show ?thesis by (simp add: replayBlock_def)
qed

lemma counts_blocks:
  "counts (length blocks) (length (concat (map blk_Data blocks))) (length (filter (readable env) (concat (map blk_Data blocks)))) r
     (fold (replayBlock env opt ord) blocks r)"
proof (induction blocks arbitrary: r)
  case Nil
  then show ?case by (simp add: counts_def)
next
  case (Cons b blocks)
  from counts_trans [OF counts_block Cons.IH] show ?case by simp
qed

text \<open>
  The tool's transaction counts add up. After any chain the tool has counted every block and
  every transaction; each transaction whose envelope can be read is in exactly one of the classes
  config, without validation info, invalid and valid; and there are at most as many violating
  commits as valid transactions, so that the printed number of safe commits is not negative.
\<close>

theorem tx_accounting:
  "r_nBlocks (analyze env opt ord blocks) = length blocks \<and>
   r_totalTx (analyze env opt ord blocks) = length (concat (map blk_Data blocks)) \<and>
   r_configTx (analyze env opt ord blocks) + r_noValidation (analyze env opt ord blocks) +
     r_invalidTx (analyze env opt ord blocks) + r_validTx (analyze env opt ord blocks) =
     length (filter (\<lambda>e. \<exists>x. UnmarshalEnvelope (an_pu env) e = Inr x) (concat (map blk_Data blocks))) \<and>
   r_violationCommits (analyze env opt ord blocks) \<le> r_validTx (analyze env opt ord blocks)"
proof -
  have "r_nBlocks emptyReport = 0" "r_totalTx emptyReport = 0" "classified emptyReport = 0"
    "r_violationCommits emptyReport = 0" "r_validTx emptyReport = 0"
    by (simp_all add: emptyReport_def classified_def)
  then show ?thesis
    using counts_blocks [of blocks env emptyReport opt ord]
    unfolding counts_def classified_def analyze_def readable_def by simp
qed

end
