(* ===== verification/Analyzer_Soundness.thy ===== *)
theory Analyzer_Soundness
  imports Analyzer
begin

text \<open>
  The analyzer against the commit-time hooks: replaying transactions that the validator accepted,
  its balances are the values the hooks commit and it counts no violation.
\<close>

section \<open>One write\<close>

definition tracked :: "analyzer_opts \<Rightarrow> string \<Rightarrow> bool" where
  "tracked opt k \<longleftrightarrow> \<not> HasPrefix k (op_schemaPrefix opt) \<and> (op_keyFilter opt = '''' \<or> k = op_keyFilter opt)"

lemma accumulate_bal:
  "balOf (fst (accumulate blk i k v (r, t))) k' =
     (if k' = k \<and> in_int64 (sint (balOf r k) + sint v) then balOf r k + v else balOf r k')"
  by (auto simp: accumulate_def an_addChecked_cases balOf_def)

lemma accumulate_overflow:
  "r_overflowEvents (fst (accumulate blk i k v (r, t))) =
     r_overflowEvents r + (if in_int64 (sint (balOf r k) + sint v) then 0 else 1)"
  by (simp add: accumulate_def an_addChecked_cases)

lemma balOf_cong [simp]: "balOf (r\<lparr>r_deltaWrites := n\<rparr>) k = balOf r k" "balOf (r\<lparr>r_plainWrites := n\<rparr>) k = balOf r k"
  by (simp_all add: balOf_def)

lemma replayWrite_eq:
  assumes "op_baseline opt \<noteq> ''highthroughput''"
  shows "replayWrite opt blk i w (r, t) =
    (if \<not> tracked opt (w_Key w) then (r, t)
     else case w_Delta w of
       Some d \<Rightarrow>
         (case applyDelta (op_baseline opt) d of
            Inl _ \<Rightarrow> (r\<lparr>r_deltaWrites := r_deltaWrites r + 1\<rparr>, t)
          | Inr n \<Rightarrow> accumulate blk i (w_Key w) n (r\<lparr>r_deltaWrites := r_deltaWrites r + 1\<rparr>, t))
     | None \<Rightarrow>
         (case UnmarshalInt64 (w_Value w) of
            Inl _ \<Rightarrow> (r, t)
          | Inr v \<Rightarrow> (r\<lparr>r_plainWrites := r_plainWrites r + 1, r_bal := (r_bal r)(w_Key w \<mapsto> v)\<rparr>, List.insert (w_Key w) t)))"
  using assms by (auto simp: replayWrite_def tracked_def UnmarshalInt64_def Let_def split: option.splits sum.splits)

lemma replayWrite_overflow: "r_overflowEvents r \<le> r_overflowEvents (fst (replayWrite opt blk i w (r, t)))"
  by (auto simp: replayWrite_def accumulate_overflow Let_def split: sum.splits option.splits)

lemma replayWrite_other:
  assumes "op_baseline opt \<noteq> ''highthroughput''" "w_Key w \<noteq> k \<or> \<not> tracked opt k"
  shows "balOf (fst (replayWrite opt blk i w (r, t))) k = balOf r k"
proof (cases "w_Key w = k")
  case True
  then show ?thesis using assms(2) by (simp add: replayWrite_eq [OF assms(1)])
next
  case False
  then show ?thesis
    by (auto simp: replayWrite_eq [OF assms(1)] accumulate_bal split: sum.splits option.splits) (simp add: balOf_def)
qed

lemma accumulate_touched: "set (snd (accumulate blk i k v (r, t))) \<subseteq> insert k (set t)"
  by (auto simp: accumulate_def split: prod.splits)

lemma replayWrite_touched:
  assumes "op_baseline opt \<noteq> ''highthroughput''"
  shows "set (snd (replayWrite opt blk i w (r, t))) \<subseteq> set t \<union> {k. k = w_Key w \<and> tracked opt k}"
  using accumulate_touched by (fastforce simp: replayWrite_eq [OF assms] split: sum.splits option.splits if_splits)

lemma replayWrite_delta:
  assumes "op_baseline opt \<noteq> ''highthroughput''" "tracked opt (w_Key w)"
    and "w_Delta w = Some dd" "toDelta dd = Inr d" "validDelta d"
    and "r_overflowEvents (fst (replayWrite opt blk i w (r, t))) = r_overflowEvents r"
  shows "sint (balOf (fst (replayWrite opt blk i w (r, t))) (w_Key w)) = sint (balOf r (w_Key w)) + exactAmount d"
proof -
  obtain n where n: "applyDelta (op_baseline opt) dd = Inr n" "sint n = exactAmount d"
    using assms(4,5) sint_neg64 [of "d_Arg d"]
    by (auto simp: toDelta_def applyDelta_def validDelta_def exactAmount_def OpAdd_def OpSub_def
        split: sum.splits DeltaDescriptor_Op.splits)
  have run: "replayWrite opt blk i w (r, t) = accumulate blk i (w_Key w) n (r\<lparr>r_deltaWrites := r_deltaWrites r + 1\<rparr>, t)"
    using assms(2,3) n(1) by (simp add: replayWrite_eq [OF assms(1)])
  then have "in_int64 (sint (balOf r (w_Key w)) + sint n)"
    using assms(6) by (simp add: accumulate_overflow split: if_splits)
  with run n(2) show ?thesis by (simp add: accumulate_bal sint_add64)
qed

lemma replayWrite_plain:
  assumes "op_baseline opt \<noteq> ''highthroughput''" "tracked opt (w_Key w)" "w_Delta w = None" "UnmarshalInt64 (w_Value w) = Inr v"
  shows "balOf (fst (replayWrite opt blk i w (r, t))) (w_Key w) = v"
  using assms(2-) by (simp add: replayWrite_eq [OF assms(1)] balOf_def)

section \<open>The writes of one transaction\<close>

lemma replayWrites_overflow: "r_overflowEvents (fst st) \<le> r_overflowEvents (fst (fold (replayWrite opt blk i) ws st))"
proof (induction ws arbitrary: st)
  case (Cons w ws)
  have "r_overflowEvents (fst st) \<le> r_overflowEvents (fst (replayWrite opt blk i w st))"
    using replayWrite_overflow by (cases st) simp
  with Cons.IH [of "replayWrite opt blk i w st"] show ?case by simp
qed simp

text \<open>Without a new overflow event no single write overflows.\<close>

lemma replayWrites_Cons_overflow:
  assumes "r_overflowEvents (fst (fold (replayWrite opt blk i) (w # ws) st)) = r_overflowEvents (fst st)"
  shows "r_overflowEvents (fst (replayWrite opt blk i w st)) = r_overflowEvents (fst st)"
    "r_overflowEvents (fst (fold (replayWrite opt blk i) ws (replayWrite opt blk i w st))) =
      r_overflowEvents (fst (replayWrite opt blk i w st))"
  using assms replayWrites_overflow [where st = st and ws = "[w]" and opt = opt and blk = blk and i = i]
    replayWrites_overflow [where st = "replayWrite opt blk i w st" and ws = ws and opt = opt and blk = blk and i = i]
  by simp_all

text \<open>A key all of whose writes are readable deltas.\<close>

lemma replayWrites_deltas:
  assumes "op_baseline opt \<noteq> ''highthroughput''" "tracked opt k"
  shows "\<forall>w \<in> set ws. w_Key w = k \<longrightarrow> (\<exists>dd d. w_Delta w = Some dd \<and> toDelta dd = Inr d \<and> validDelta d) \<Longrightarrow>
    r_overflowEvents (fst (fold (replayWrite opt blk i) ws st)) = r_overflowEvents (fst st) \<Longrightarrow>
    sint (balOf (fst (fold (replayWrite opt blk i) ws st)) k) =
      sint (balOf (fst st) k) + exactSum (deltasOf (pubKey ns k) (map (Pair ns) ws))"
proof (induction ws arbitrary: st)
  case (Cons w ws)
  let ?st = "replayWrite opt blk i w st"
  obtain r t where st: "st = (r, t)" by fastforce
  note ov = replayWrites_Cons_overflow [OF Cons.prems(2)]
  have IH: "sint (balOf (fst (fold (replayWrite opt blk i) ws ?st)) k) =
      sint (balOf (fst ?st) k) + exactSum (deltasOf (pubKey ns k) (map (Pair ns) ws))"
    using Cons.IH [OF _ ov(2)] Cons.prems(1) by simp
  show ?case
  proof (cases "w_Key w = k")
    case True
    then obtain dd d where d: "w_Delta w = Some dd" "toDelta dd = Inr d" "validDelta d" using Cons.prems(1) by auto
    have "sint (balOf (fst ?st) k) = sint (balOf r k) + exactAmount d"
      using replayWrite_delta [OF assms(1) _ d, of blk i r t] assms(2) ov(1) True st by simp
    with IH d True st show ?thesis by simp
  next
    case False
    then have "deltasOf (pubKey ns k) (map (Pair ns) (w # ws)) = deltasOf (pubKey ns k) (map (Pair ns) ws)"
      by (simp split: option.splits sum.splits)
    with IH False st replayWrite_other [OF assms(1), of w k blk i r t] show ?thesis by simp
  qed
qed simp

text \<open>A key all of whose writes are plain 8-byte values: the last one counts.\<close>

lemma replayWrites_plain:
  assumes "op_baseline opt \<noteq> ''highthroughput''" "tracked opt k"
  shows "\<forall>w \<in> set ws. w_Key w = k \<longrightarrow> w_Delta w = None \<and> (\<exists>v. UnmarshalInt64 (w_Value w) = Inr v) \<Longrightarrow>
    (case filter (\<lambda>w. w_Key w = k) ws of
       [] \<Rightarrow> balOf (fst (fold (replayWrite opt blk i) ws st)) k = balOf (fst st) k
     | kws \<Rightarrow> UnmarshalInt64 (w_Value (last kws)) = Inr (balOf (fst (fold (replayWrite opt blk i) ws st)) k))"
proof (induction ws arbitrary: st)
  case (Cons w ws)
  let ?st = "replayWrite opt blk i w st"
  obtain r t where st: "st = (r, t)" by fastforce
  have IH: "case filter (\<lambda>w. w_Key w = k) ws of
       [] \<Rightarrow> balOf (fst (fold (replayWrite opt blk i) ws ?st)) k = balOf (fst ?st) k
     | kws \<Rightarrow> UnmarshalInt64 (w_Value (last kws)) = Inr (balOf (fst (fold (replayWrite opt blk i) ws ?st)) k)"
    using Cons by simp
  show ?case
  proof (cases "w_Key w = k")
    case True
    then obtain v where v: "w_Delta w = None" "UnmarshalInt64 (w_Value w) = Inr v" using Cons.prems by auto
    have "balOf (fst ?st) k = v" using replayWrite_plain [OF assms(1) _ v, of blk i r t] assms(2) True st by simp
    with IH True v show ?thesis by (auto split: list.splits)
  next
    case False
    with IH st replayWrite_other [OF assms(1), of w k blk i r t] show ?thesis by (auto split: list.splits)
  qed
qed simp

lemma replayWrites_touched:
  assumes "op_baseline opt \<noteq> ''highthroughput''"
  shows "set (snd (fold (replayWrite opt blk i) ws st)) \<subseteq> set (snd st) \<union> {k \<in> w_Key ` set ws. tracked opt k}"
proof (induction ws arbitrary: st)
  case (Cons w ws)
  obtain r t where st: "st = (r, t)" by fastforce
  show ?case using Cons.IH [of "replayWrite opt blk i w st"] replayWrite_touched [OF assms, of blk i w r t] st by auto
qed simp

lemma replayWrites_distinct: "distinct (snd st) \<Longrightarrow> distinct (snd (fold (replayWrite opt blk i) ws st))"
proof (induction ws arbitrary: st)
  case (Cons w ws)
  have acc: "distinct t \<Longrightarrow> distinct (snd (accumulate blk i k v (r, t)))" for k v r t
    by (simp add: accumulate_def split: prod.splits)
  obtain r t where st: "st = (r, t)" by fastforce
  then have "distinct (snd (replayWrite opt blk i w st))"
    using Cons.prems by (auto simp: replayWrite_def acc Let_def split: sum.splits option.splits)
  with Cons.IH show ?case by simp
qed simp

section \<open>Accepted transactions\<close>

text \<open>The analyzer's view of a read-write set whose \<open>KvRwSet\<close> pointers are all present.\<close>

definition withKv :: "KVRWSet TxRwSet \<Rightarrow> KVRWSet option TxRwSet" where
  "withKv tx = \<lparr>NsRwSets = map (\<lambda>n. \<lparr>NameSpace = NameSpace n, KvRwSet = Some (KvRwSet n)\<rparr>) (NsRwSets tx)\<rparr>"

definition nsWritesOf :: "string \<Rightarrow> KVRWSet TxRwSet \<Rightarrow> KVWrite list" where
  "nsWritesOf ns tx = map snd (filter (\<lambda>(n, w). n = ns) (allWrites tx))"

lemma nsWritesOf_iff: "w \<in> set (nsWritesOf ns tx) \<longleftrightarrow> (ns, w) \<in> set (allWrites tx)"
  by (force simp: nsWritesOf_def)

lemma replay_nsWrites:
  "fold (replayNs opt blk i) (NsRwSets (withKv tx)) st = fold (replayWrite opt blk i) (nsWritesOf (op_ns opt) tx) st"
proof -
  have "fold (replayNs opt blk i) (map (\<lambda>n. \<lparr>NameSpace = NameSpace n, KvRwSet = Some (KvRwSet n)\<rparr>) ns) st =
      fold (replayWrite opt blk i)
        (map snd (filter (\<lambda>(n, w). n = op_ns opt) (concat (map (\<lambda>ns. map (\<lambda>w. (NameSpace ns, w)) (Writes (KvRwSet ns))) ns)))) st" for ns
    by (induction ns arbitrary: st) (auto simp: replayNs_def filter_map comp_def)
  then show ?thesis by (simp add: withKv_def nsWritesOf_def allWrites_def)
qed

lemma deltasOf_ns:
  "deltasOf (pubKey ns k) (map (Pair ns) (map snd (filter (\<lambda>(n, w). n = ns) ws))) = deltasOf (pubKey ns k) ws"
  by (induction ws) (auto split: option.splits sum.splits)

lemma deltasOf_nsWrites:
  "deltasOf (pubKey ns k) (map (Pair ns) (nsWritesOf ns tx)) = deltasOf (pubKey ns k) (allWrites tx)"
  unfolding nsWritesOf_def by (rule deltasOf_ns)

lemma deltasOf_mem:
  "(ns, w) \<in> set ws \<Longrightarrow> w_Delta w = Some dd \<Longrightarrow> toDelta dd = Inr d \<Longrightarrow> d \<in> set (deltasOf (pubKey ns (w_Key w)) ws)"
  by (induction ws) (auto split: option.splits sum.splits)

text \<open>
  One committed transaction, seen from the tracked keys of the analyzed namespace: the validator
  accepts it against the current values \<open>cur\<close>, all tracked keys it writes are under a NONNEG schema
  and none is deleted; afterwards a key with deltas holds what \<open>applyTypedDeltas\<close> upserted, a key
  with plain writes the last of them, and any other key what it held.
\<close>

definition committedValue ::
  "(compositeKey \<rightharpoonup> bytes) \<Rightarrow> string \<Rightarrow> KVRWSet TxRwSet \<Rightarrow> (string \<Rightarrow> int64) \<Rightarrow> string \<Rightarrow> int64 \<Rightarrow> bool" where
  "committedValue ops ns tx cur k v \<longleftrightarrow>
     (case ops (pubKey ns k) of
        Some b \<Rightarrow> b = MarshalInt64 v
      | None \<Rightarrow>
          (case filter (\<lambda>w. w_Key w = k) (nsWritesOf ns tx) of
             [] \<Rightarrow> v = cur k
           | kws \<Rightarrow> UnmarshalInt64 (w_Value (last kws)) = Inr v))"

definition acceptedCommit ::
  "analyzer_opts \<Rightarrow> (string \<Rightarrow> int64) \<Rightarrow> KVRWSet TxRwSet \<Rightarrow> (string \<Rightarrow> int64) \<Rightarrow> bool" where
  "acceptedCommit opt cur tx cur' \<longleftrightarrow>
     (\<exists>ord ord' v updates lookup ops.
        is_range_order ord \<and> is_range_order ord' \<and> distinct (map NameSpace (NsRwSets tx)) \<and>
        validateTypedDeltaTx ord v tx updates lookup = Inr VALID \<and>
        applyTypedDeltas ord' (\<lambda>k b m. m(k \<mapsto> b)) Map.empty tx updates (v_db v) = (None, ops) \<and>
        (\<forall>k. tracked opt k \<longrightarrow> currentInt64 (op_ns opt) k updates (v_db v) = Inr (cur k)) \<and>
        (\<forall>w \<in> set (nsWritesOf (op_ns opt) tx). tracked opt (w_Key w) \<longrightarrow> \<not> w_IsDelete w \<and>
           (\<exists>sc. lookup (op_ns opt) (w_Key w) = Inr (Some sc) \<and> schema_invariant sc = Inr NonNeg)) \<and>
        (\<forall>k. tracked opt k \<longrightarrow> committedValue ops (op_ns opt) tx cur k (cur' k)))"

lemma materialised:
  assumes "validateTypedDeltaTx ord v tx updates lookup = Inr VALID" "is_range_order ord" "is_range_order ord'"
    and "applyTypedDeltas ord' (\<lambda>k b m. m(k \<mapsto> b)) Map.empty tx updates (v_db v) = (None, ops)"
  shows "k \<notin> deltaKeysOf (allWrites tx) \<Longrightarrow> ops k = None"
    "k \<in> deltaKeysOf (allWrites tx) \<Longrightarrow> \<exists>cur n. currentInt64 (ck_ns k) (ck_key k) updates (v_db v) = Inr cur \<and>
       Apply cur (deltasOf k (allWrites tx)) = Inr n \<and> ops k = Some (MarshalInt64 n)"
  using valid_tx_materialises [OF assms(1-3), of "\<lambda>m. m" "\<lambda>k b m. m(k \<mapsto> b)" Map.empty] assms(4) by auto

text \<open>A key with deltas: the replay computes what was upserted, and the invariant holds of it.\<close>

lemma replay_delta_key:
  assumes "op_baseline opt \<noteq> ''highthroughput''" "tracked opt k"
    and acc: "txAcceptable v tx updates lookup" and "distinct (map NameSpace (NsRwSets tx))"
    and "pubKey (op_ns opt) k \<in> deltaKeysOf (allWrites tx)"
    and "Apply (balOf (fst st) k) (deltasOf (pubKey (op_ns opt) k) (allWrites tx)) = Inr n"
    and ov: "r_overflowEvents (fst (fold (replayWrite opt blk i) (nsWritesOf (op_ns opt) tx) st)) = r_overflowEvents (fst st)"
  shows "balOf (fst (fold (replayWrite opt blk i) (nsWritesOf (op_ns opt) tx) st)) k = n"
proof -
  have "\<exists>dd d. w_Delta w = Some dd \<and> toDelta dd = Inr d \<and> validDelta d"
    if w: "w \<in> set (nsWritesOf (op_ns opt) tx)" "w_Key w = k" for w
  proof -
    from w have m: "(op_ns opt, w) \<in> set (allWrites tx)" by (simp add: nsWritesOf_iff)
    obtain dd d where d: "w_Delta w = Some dd" "toDelta dd = Inr d"
      using accepted_key_deltas [OF acc assms(4,5) m w(2)] by blast
    with deltasOf_mem [OF m d] w(2) assms(6) show ?thesis by (auto simp: Apply_Inr list_all_iff)
  qed
  then have "sint (balOf (fst (fold (replayWrite opt blk i) (nsWritesOf (op_ns opt) tx) st)) k) =
      sint (balOf (fst st) k) + exactSum (deltasOf (pubKey (op_ns opt) k) (map (Pair (op_ns opt)) (nsWritesOf (op_ns opt) tx)))"
    by (intro replayWrites_deltas [OF assms(1,2) _ ov]) blast
  also have "\<dots> = sint n" using assms(6) by (simp add: deltasOf_nsWrites Apply_Inr)
  finally show ?thesis by simp
qed

text \<open>A key without deltas: every write to it is an accepted plain value.\<close>

lemma accepted_plain_key:
  assumes "txAcceptable v tx updates lookup" "pubKey ns k \<notin> deltaKeysOf (allWrites tx)"
    and "w \<in> set (nsWritesOf ns tx)" "w_Key w = k" "\<not> w_IsDelete w"
    and "lookup ns k = Inr (Some sc)" "schema_invariant sc = Inr NonNeg"
  shows "w_Delta w = None \<and> (\<exists>x. UnmarshalInt64 (w_Value w) = Inr x \<and> 0 \<le> sint x)"
proof -
  have m: "(ns, w) \<in> set (allWrites tx)" using assms(3) by (simp add: nsWritesOf_iff)
  then have n: "w_Delta w = None" using assms(2,4) by (auto simp: deltaKeysOf_def)
  then have "plainWriteOk lookup ns w" using assms(1) m by (auto simp: txAcceptable_def)
  with n assms(4-7) show ?thesis by (auto simp: plainWriteOk_def word_sle_eq)
qed

lemma acceptedCommit_key:
  assumes "acceptedCommit opt cur tx cur'" and k: "tracked opt k"
  obtains (deltas) v updates lookup where "txAcceptable v tx updates lookup" "distinct (map NameSpace (NsRwSets tx))"
    "pubKey (op_ns opt) k \<in> deltaKeysOf (allWrites tx)"
    "Apply (cur k) (deltasOf (pubKey (op_ns opt) k) (allWrites tx)) = Inr (cur' k)"
    "k \<in> w_Key ` set (nsWritesOf (op_ns opt) tx) \<longrightarrow> 0 \<le> sint (cur' k)"
  | (plain) "\<forall>w \<in> set (nsWritesOf (op_ns opt) tx). w_Key w = k \<longrightarrow>
      w_Delta w = None \<and> (\<exists>x. UnmarshalInt64 (w_Value w) = Inr x \<and> 0 \<le> sint x)"
    "case filter (\<lambda>w. w_Key w = k) (nsWritesOf (op_ns opt) tx) of
       [] \<Rightarrow> cur' k = cur k | kws \<Rightarrow> UnmarshalInt64 (w_Value (last kws)) = Inr (cur' k)"
proof -
  let ?ns = "op_ns opt" and ?ws = "nsWritesOf (op_ns opt) tx"
  obtain ord ord' v updates lookup ops where ord: "is_range_order ord" "is_range_order ord'"
    and dist: "distinct (map NameSpace (NsRwSets tx))"
    and val: "validateTypedDeltaTx ord v tx updates lookup = Inr VALID"
    and app: "applyTypedDeltas ord' (\<lambda>k b m. m(k \<mapsto> b)) Map.empty tx updates (v_db v) = (None, ops)"
    and cur0: "\<forall>k. tracked opt k \<longrightarrow> currentInt64 ?ns k updates (v_db v) = Inr (cur k)"
    and sch0: "\<forall>w \<in> set ?ws. tracked opt (w_Key w) \<longrightarrow> \<not> w_IsDelete w \<and>
       (\<exists>sc. lookup ?ns (w_Key w) = Inr (Some sc) \<and> schema_invariant sc = Inr NonNeg)"
    and com0: "\<forall>k. tracked opt k \<longrightarrow> committedValue ops ?ns tx cur k (cur' k)"
    using assms(1) unfolding acceptedCommit_def by (elim exE conjE) (rule that)
  from cur0 com0 k have cur: "currentInt64 ?ns k updates (v_db v) = Inr (cur k)"
    and com: "committedValue ops ?ns tx cur k (cur' k)" by simp_all
  from sch0 k have sch: "\<not> w_IsDelete w \<and> (\<exists>sc. lookup ?ns k = Inr (Some sc) \<and> schema_invariant sc = Inr NonNeg)"
    if "w \<in> set ?ws" "w_Key w = k" for w using that by blast
  have acc: "txAcceptable v tx updates lookup" using val validate_VALID_iff [OF ord(1)] by simp
  note mat = materialised [OF val ord app, of "pubKey ?ns k"]
  show thesis
  proof (cases "pubKey ?ns k \<in> deltaKeysOf (allWrites tx)")
    case True
    then have n: "Apply (cur k) (deltasOf (pubKey ?ns k) (allWrites tx)) = Inr (cur' k)"
      using mat(2) [OF True] cur com by (auto simp: committedValue_def)
    have "\<exists>sc. lookup ?ns k = Inr (Some sc) \<and> schema_invariant sc = Inr NonNeg" if "k \<in> w_Key ` set ?ws"
      using sch that by blast
    moreover have "\<forall>k \<in> deltaKeysOf (allWrites tx). \<exists>sc. lookup (ck_ns k) (ck_key k) = Inr (Some sc) \<and>
        keyAccepts updates (v_db v) sc k (deltasOf k (allWrites tx))"
      using acc unfolding txAcceptable_def by (elim conjE)
    from bspec [OF this True] obtain sc where "lookup ?ns k = Inr (Some sc)"
      "keyAccepts updates (v_db v) sc (pubKey ?ns k) (deltasOf (pubKey ?ns k) (allWrites tx))" by auto
    ultimately have "k \<in> w_Key ` set ?ws \<longrightarrow> 0 \<le> sint (cur' k)"
      using n cur by (auto simp: keyAccepts_def word_sle_eq)
    with acc dist True n show thesis by (rule deltas)
  next
    case False
    show thesis
    proof (rule plain)
      show "\<forall>w \<in> set ?ws. w_Key w = k \<longrightarrow> w_Delta w = None \<and> (\<exists>x. UnmarshalInt64 (w_Value w) = Inr x \<and> 0 \<le> sint x)"
      proof (intro ballI impI)
        fix w assume w: "w \<in> set ?ws" "w_Key w = k"
        from sch [OF this] obtain sc where "\<not> w_IsDelete w" "lookup ?ns k = Inr (Some sc)" "schema_invariant sc = Inr NonNeg"
          by (elim conjE exE) (rule that)
        then show "w_Delta w = None \<and> (\<exists>x. UnmarshalInt64 (w_Value w) = Inr x \<and> 0 \<le> sint x)"
          by (rule accepted_plain_key [OF acc False w])
      qed
      show "case filter (\<lambda>w. w_Key w = k) ?ws of
         [] \<Rightarrow> cur' k = cur k | kws \<Rightarrow> UnmarshalInt64 (w_Value (last kws)) = Inr (cur' k)"
        using com mat(1) [OF False] by (simp add: committedValue_def)
    qed
  qed
qed

lemma replay_tracked_key:
  assumes ht: "op_baseline opt \<noteq> ''highthroughput''" and "acceptedCommit opt cur tx cur'"
    and "balOf (fst st) k = cur k" and k: "tracked opt k"
    and ov: "r_overflowEvents (fst (fold (replayWrite opt blk i) (nsWritesOf (op_ns opt) tx) st)) = r_overflowEvents (fst st)"
  shows "balOf (fst (fold (replayWrite opt blk i) (nsWritesOf (op_ns opt) tx) st)) k = cur' k"
    "k \<in> w_Key ` set (nsWritesOf (op_ns opt) tx) \<Longrightarrow> 0 \<le> sint (cur' k)"
proof -
  let ?ws = "nsWritesOf (op_ns opt) tx"
  have "balOf (fst (fold (replayWrite opt blk i) ?ws st)) k = cur' k \<and> (k \<in> w_Key ` set ?ws \<longrightarrow> 0 \<le> sint (cur' k))"
    using assms(2) k
  proof (cases rule: acceptedCommit_key)
    case (deltas v updates lookup)
    with assms(3) replay_delta_key [OF ht k deltas(1-3) _ ov, of "cur' k"] show ?thesis by simp
  next
    case plain
    let ?kws = "filter (\<lambda>w. w_Key w = k) ?ws"
    have "case ?kws of
       [] \<Rightarrow> balOf (fst (fold (replayWrite opt blk i) ?ws st)) k = balOf (fst st) k
     | kws \<Rightarrow> UnmarshalInt64 (w_Value (last kws)) = Inr (balOf (fst (fold (replayWrite opt blk i) ?ws st)) k)"
      using plain(1) by (intro replayWrites_plain [OF ht k]) blast
    then have "balOf (fst (fold (replayWrite opt blk i) ?ws st)) k = cur' k"
      using plain(2) assms(3) by (auto split: list.splits)
    moreover have "0 \<le> sint (cur' k)" if "?kws \<noteq> []"
    proof -
      have "UnmarshalInt64 (w_Value (last ?kws)) = Inr (cur' k)" using plain(2) that by (cases ?kws) simp_all
      then show ?thesis using plain(1) last_in_set [OF that] by auto
    qed
    ultimately show ?thesis by (auto simp: filter_empty_conv)
  qed
  then show "balOf (fst (fold (replayWrite opt blk i) ?ws st)) k = cur' k"
    "k \<in> w_Key ` set ?ws \<Longrightarrow> 0 \<le> sint (cur' k)" by blast+
qed

lemma balOf_update [simp]:
  "balOf (r\<lparr>r_events := e\<rparr>) k = balOf r k" "balOf (r\<lparr>r_violationCommits := n\<rparr>) k = balOf r k"
  by (simp_all add: balOf_def)

lemma replayTx_accepted:
  assumes ht: "op_baseline opt \<noteq> ''highthroughput''" and "is_range_order ord" "acceptedCommit opt cur tx cur'"
    and sync: "\<forall>k. tracked opt k \<longrightarrow> balOf r k = cur k"
    and ov: "r_overflowEvents (replayTx opt ord blk i (withKv tx) r) = r_overflowEvents r"
  shows "r_violationCommits (replayTx opt ord blk i (withKv tx) r) = r_violationCommits r"
    "\<forall>k. tracked opt k \<longrightarrow> balOf (replayTx opt ord blk i (withKv tx) r) k = cur' k"
proof -
  let ?ws = "nsWritesOf (op_ns opt) tx"
  obtain r' t where rt: "fold (replayWrite opt blk i) ?ws (r, []) = (r', t)" by fastforce
  have ov': "r_overflowEvents (fst (fold (replayWrite opt blk i) ?ws (r, []))) = r_overflowEvents (fst (r, [] :: string list))"
    using ov by (simp add: replayTx_def replay_nsWrites rt Let_def split: if_splits)
  have key: "balOf r' k = cur' k \<and> (k \<in> w_Key ` set ?ws \<longrightarrow> 0 \<le> sint (cur' k))" if "tracked opt k" for k
    using replay_tracked_key [OF ht assms(3) _ that ov'] sync that rt by auto
  have "set t \<subseteq> {k \<in> w_Key ` set ?ws. tracked opt k}" using replayWrites_touched [OF ht, of blk i ?ws "(r, [])"] rt by auto
  moreover have "distinct t" using replayWrites_distinct [of "(r, [])" opt blk i ?ws] rt by simp
  ultimately have "filter (\<lambda>k. balOf r' k <s 0) (ord t) = []"
    using key is_range_orderD(2) [OF assms(2)] by (fastforce simp: filter_empty_conv word_sless_iff)
  moreover have "r_violationCommits r' = r_violationCommits r"
    using keepsCounts_fold [of "replayWrite opt blk i" ?ws, OF keepsCounts_write] rt unfolding keepsCounts_def by (metis fst_conv)
  ultimately show "r_violationCommits (replayTx opt ord blk i (withKv tx) r) = r_violationCommits r"
    "\<forall>k. tracked opt k \<longrightarrow> balOf (replayTx opt ord blk i (withKv tx) r) k = cur' k"
    using key by (simp_all add: replayTx_def replay_nsWrites rt Let_def)
qed

section \<open>A chain of accepted transactions\<close>

inductive commitChain ::
  "analyzer_opts \<Rightarrow> (string \<Rightarrow> int64) \<Rightarrow> KVRWSet option TxRwSet list \<Rightarrow> (string \<Rightarrow> int64) \<Rightarrow> bool" for opt where
  chain_nil: "commitChain opt cur [] cur"
| chain_cons: "acceptedCommit opt cur tx cur' \<Longrightarrow> commitChain opt cur' txs cur'' \<Longrightarrow> commitChain opt cur (withKv tx # txs) cur''"

inductive_cases commitChain_nilE: "commitChain opt cur [] cur'"
inductive_cases commitChain_consE: "commitChain opt cur (t # ts) cur'"

lemma commitChain_append: "commitChain opt cur (ts @ us) cur'' \<Longrightarrow> \<exists>cur'. commitChain opt cur ts cur' \<and> commitChain opt cur' us cur''"
proof (induction ts arbitrary: cur)
  case Nil
  then show ?case using chain_nil by auto
next
  case (Cons t ts)
  then obtain tx c where "t = withKv tx" "acceptedCommit opt cur tx c" "commitChain opt c (ts @ us) cur''"
    by (auto elim: commitChain_consE)
  with Cons.IH chain_cons show ?case by meson
qed

text \<open>The transactions of a block that the replay applies.\<close>

definition envelopeTx :: "analyzer_env \<Rightarrow> analyzer_opts \<Rightarrow> bytes \<Rightarrow> nat \<Rightarrow> bytes \<Rightarrow> KVRWSet option TxRwSet option" where
  "envelopeTx env opt flags i e =
     (case UnmarshalEnvelope (an_pu env) e of
        Inl _ \<Rightarrow> None
      | Inr envelope \<Rightarrow>
          (case channelHeader (an_pu env) envelope of
             Inl _ \<Rightarrow> None
           | Inr chHdr \<Rightarrow>
               if ch_Type chHdr = an_ENDORSER_TRANSACTION env \<and>
                  txValidity env opt flags i chHdr \<in> {Flagged (an_VALID env), Listed True}
               then (case GetActionResults (an_pu env) envelope of
                       Inl _ \<Rightarrow> None
                     | Inr results \<Rightarrow> (case an_FromProtoBytes env results of Inl _ \<Rightarrow> None | Inr txrw \<Rightarrow> Some txrw))
               else None))"

fun blockTxs :: "analyzer_env \<Rightarrow> analyzer_opts \<Rightarrow> bytes \<Rightarrow> nat \<Rightarrow> bytes list \<Rightarrow> KVRWSet option TxRwSet list" where
  "blockTxs env opt flags i [] = []"
| "blockTxs env opt flags i (e # es) =
     (case envelopeTx env opt flags i e of None \<Rightarrow> [] | Some tx \<Rightarrow> [tx]) @ blockTxs env opt flags (i + 1) es"

definition chainTxs :: "analyzer_env \<Rightarrow> analyzer_opts \<Rightarrow> Block list \<Rightarrow> KVRWSet option TxRwSet list" where
  "chainTxs env opt blocks =
     concat (map (\<lambda>b. blockTxs env opt (metadata b (an_TRANSACTIONS_FILTER env)) 0 (blk_Data b)) blocks)"

text \<open>
  A piece of the replay that applies \<open>ts\<close> follows every accepted chain: unless it reports an
  overflow, it counts no violation and its balances are the committed values.
\<close>

definition follows :: "analyzer_opts \<Rightarrow> KVRWSet option TxRwSet list \<Rightarrow> report \<Rightarrow> report \<Rightarrow> bool" where
  "follows opt ts r r' \<longleftrightarrow> r_overflowEvents r \<le> r_overflowEvents r' \<and>
     (\<forall>cur cur'. commitChain opt cur ts cur' \<longrightarrow> (\<forall>k. tracked opt k \<longrightarrow> balOf r k = cur k) \<longrightarrow>
        r_overflowEvents r' = r_overflowEvents r \<longrightarrow>
        r_violationCommits r' = r_violationCommits r \<and> (\<forall>k. tracked opt k \<longrightarrow> balOf r' k = cur' k))"

lemma follows_trans: "follows opt ts r r' \<Longrightarrow> follows opt us r' r'' \<Longrightarrow> follows opt (ts @ us) r r''"
  unfolding follows_def
proof (intro conjI allI impI)
  fix cur cur''
  assume f: "r_overflowEvents r \<le> r_overflowEvents r' \<and> (\<forall>cur cur'. commitChain opt cur ts cur' \<longrightarrow>
        (\<forall>k. tracked opt k \<longrightarrow> balOf r k = cur k) \<longrightarrow> r_overflowEvents r' = r_overflowEvents r \<longrightarrow>
        r_violationCommits r' = r_violationCommits r \<and> (\<forall>k. tracked opt k \<longrightarrow> balOf r' k = cur' k))"
    and g: "r_overflowEvents r' \<le> r_overflowEvents r'' \<and> (\<forall>cur cur'. commitChain opt cur us cur' \<longrightarrow>
        (\<forall>k. tracked opt k \<longrightarrow> balOf r' k = cur k) \<longrightarrow> r_overflowEvents r'' = r_overflowEvents r' \<longrightarrow>
        r_violationCommits r'' = r_violationCommits r' \<and> (\<forall>k. tracked opt k \<longrightarrow> balOf r'' k = cur' k))"
    and c: "commitChain opt cur (ts @ us) cur''" and s: "\<forall>k. tracked opt k \<longrightarrow> balOf r k = cur k"
    and o: "r_overflowEvents r'' = r_overflowEvents r"
  obtain cur' where c': "commitChain opt cur ts cur'" "commitChain opt cur' us cur''" using commitChain_append [OF c] by blast
  have o': "r_overflowEvents r' = r_overflowEvents r" "r_overflowEvents r'' = r_overflowEvents r'" using f g o by simp_all
  then have 1: "r_violationCommits r' = r_violationCommits r" "\<forall>k. tracked opt k \<longrightarrow> balOf r' k = cur' k"
    using f c'(1) s by simp_all
  then show "r_violationCommits r'' = r_violationCommits r" using g c'(2) o'(2) by simp
  fix k assume "tracked opt k"
  then show "balOf r'' k = cur'' k" using g c'(2) o'(2) 1(2) by simp
qed auto

lemma follows_same:
  "r_bal r' = r_bal r \<Longrightarrow> r_violationCommits r' = r_violationCommits r \<Longrightarrow> r_overflowEvents r' = r_overflowEvents r \<Longrightarrow>
     follows opt [] r r'"
  by (auto simp: follows_def balOf_def elim: commitChain_nilE)

lemma replayTx_overflow: "r_overflowEvents r \<le> r_overflowEvents (replayTx opt ord blk i txrw r)"
proof -
  have ns: "r_overflowEvents (fst st) \<le> r_overflowEvents (fst (replayNs opt blk i n st))" for n st
    using replayWrites_overflow by (simp add: replayNs_def split: option.splits)
  have "r_overflowEvents (fst st) \<le> r_overflowEvents (fst (fold (replayNs opt blk i) nss st))" for nss st
  proof (induction nss arbitrary: st)
    case (Cons n nss)
    show ?case using ns [of st n] Cons.IH [of "replayNs opt blk i n st"] by simp
  qed simp
  from this [of "(r, [])" "NsRwSets txrw"] show ?thesis by (auto simp: replayTx_def Let_def split: prod.splits)
qed

lemma follows_tx:
  assumes "op_baseline opt \<noteq> ''highthroughput''" "is_range_order ord"
  shows "follows opt [txrw] r (replayTx opt ord blk i txrw r)"
  unfolding follows_def
proof (intro conjI allI impI)
  show "r_overflowEvents r \<le> r_overflowEvents (replayTx opt ord blk i txrw r)" by (rule replayTx_overflow)
next
  fix cur cur'
  assume c: "commitChain opt cur [txrw] cur'" and s: "\<forall>k. tracked opt k \<longrightarrow> balOf r k = cur k"
    and o: "r_overflowEvents (replayTx opt ord blk i txrw r) = r_overflowEvents r"
  obtain tx where tx: "txrw = withKv tx" "acceptedCommit opt cur tx cur'"
    using c by (auto elim!: commitChain_consE commitChain_nilE)
  note step = replayTx_accepted [OF assms tx(2) s o [unfolded tx(1)]]
  show "r_violationCommits (replayTx opt ord blk i txrw r) = r_violationCommits r" using step(1) tx(1) by simp
  fix k assume "tracked opt k"
  then show "balOf (replayTx opt ord blk i txrw r) k = cur' k" using step(2) tx(1) by simp
qed

lemma follows_envelope:
  assumes "op_baseline opt \<noteq> ''highthroughput''" "is_range_order ord"
  shows "follows opt (case envelopeTx env opt flags i e of None \<Rightarrow> [] | Some tx \<Rightarrow> [tx]) r
    (replayEnvelope env opt ord flags blk i e r)"
proof -
  let ?r = "r\<lparr>r_totalTx := r_totalTx r + 1\<rparr>"
  let ?r1 = "?r\<lparr>r_validTx := r_validTx ?r + 1\<rparr>"
  have same: "follows opt [] r ?r" "follows opt [] r ?r1" "follows opt [] r (?r\<lparr>r_configTx := r_configTx ?r + 1\<rparr>)"
    "follows opt [] r (?r\<lparr>r_noValidation := r_noValidation ?r + 1\<rparr>)"
    "follows opt [] r (countInvalid ?r)" "follows opt [] r (countInvalid (countCode c ?r))" for c
    by (rule follows_same; simp add: countInvalid_def countCode_def)+
  have tx: "follows opt [txrw] r (replayTx opt ord blk i txrw ?r1)" for txrw
    using follows_trans [OF same(2) follows_tx [OF assms]] by simp
  have valid: "follows opt (case GetActionResults (an_pu env) envelope of Inl _ \<Rightarrow> []
       | Inr results \<Rightarrow> (case an_FromProtoBytes env results of Inl _ \<Rightarrow> [] | Inr txrw \<Rightarrow> [txrw])) r
      (replayValid env opt ord blk i envelope ?r)" for envelope
    using tx same(2) by (auto simp: replayValid_def Let_def split: sum.splits)
  show ?thesis
  proof (cases "UnmarshalEnvelope (an_pu env) e")
    case (Inl err)
    then show ?thesis using same(1) by (simp add: replayEnvelope_def envelopeTx_def)
  next
    case (Inr envelope)
    then show ?thesis using same valid [of envelope]
      by (auto simp: replayEnvelope_def envelopeTx_def Let_def split: sum.splits validity.splits)
  qed
qed

lemma follows_blockTxs:
  assumes "op_baseline opt \<noteq> ''highthroughput''" "is_range_order ord"
  shows "follows opt (blockTxs env opt flags i es) r (replayTxs env opt ord flags blk i es r)"
proof (induction es arbitrary: i r)
  case Nil
  then show ?case by (simp add: follows_same)
next
  case (Cons e es)
  show ?case using follows_trans [OF follows_envelope [OF assms] Cons.IH] by simp
qed

lemma follows_chain:
  assumes "op_baseline opt \<noteq> ''highthroughput''" "is_range_order ord"
  shows "follows opt (chainTxs env opt blocks) r (fold (replayBlock env opt ord) blocks r)"
proof (induction blocks arbitrary: r)
  case Nil
  then show ?case by (simp add: chainTxs_def follows_same)
next
  case (Cons b blocks)
  have "follows opt [] r (r\<lparr>r_nBlocks := r_nBlocks r + 1\<rparr>)" by (simp add: follows_same)
  from follows_trans [OF follows_trans [OF this follows_blockTxs [OF assms]] Cons.IH]
  show ?case by (simp add: chainTxs_def replayBlock_def)
qed

text \<open>
  C6 (no violations by construction). If every transaction the tool replays was accepted by the
  validator against the values committed before it, under NONNEG schemas and without deletes of
  tracked keys, then, unless the tool itself reports an overflow event, it counts no prefix
  violation and its final balances are the committed values, whatever the order in which it ranges
  over its maps.
\<close>

theorem accepted_chain_has_no_violation:
  assumes "op_baseline opt \<noteq> ''highthroughput''" and "is_range_order ord"
    and "commitChain opt (\<lambda>k. 0) (chainTxs env opt blocks) cur'"
    and "r_overflowEvents (analyze env opt ord blocks) = 0"
  shows "r_violationCommits (analyze env opt ord blocks) = 0 \<and>
    (\<forall>k. tracked opt k \<longrightarrow> balOf (analyze env opt ord blocks) k = cur' k)"
  using follows_chain [OF assms(1,2), of env blocks emptyReport] assms(3,4)
  unfolding follows_def analyze_def [symmetric] by (simp add: emptyReport_def balOf_def)

text \<open>A chain of one block with one valid transaction that credits account \<open>A\<close>.\<close>

definition exCredit :: "KVRWSet TxRwSet" where
  "exCredit = exTx [exWrite ''A'' DeltaDescriptor_ADD 5]"

definition exAnalyzer :: analyzer_env where
  "exAnalyzer = \<lparr>an_pu = \<lparr>UnmarshalEnvelope = (\<lambda>b. Inr \<lparr>env_Payload = b\<rparr>),
       UnmarshalPayload = (\<lambda>b. Inr \<lparr>pl_Header = Some \<lparr>h_ChannelHeader = [], h_SignatureHeader = []\<rparr>, pl_Data = []\<rparr>),
       UnmarshalTransaction = (\<lambda>_. Inl ''''), GetPayloads = (\<lambda>_. Inl ''''),
       UnmarshalChannelHeader = (\<lambda>_. Inr \<lparr>ch_Type = 3, ch_TxId = ''tx'', ch_Timestamp = 0, ch_Epoch = 0\<rparr>),
       GetActionResults = (\<lambda>e. Inr [])\<rparr>,
     an_FromProtoBytes = (\<lambda>_. Inr (withKv exCredit)),
     an_UnmarshalBlock = (\<lambda>b. Inr \<lparr>blk_Number = of_nat (length b), blk_Data = [b], blk_Metadata = Some [[0]]\<rparr>),
     an_Flag = (\<lambda>flags i. ucast (flags ! i)), an_VALID = 0, an_CodeString = (\<lambda>_. ''''), an_TRANSACTIONS_FILTER = 0,
     an_ENDORSER_TRANSACTION = 3\<rparr>"

definition exOpts :: analyzer_opts where
  "exOpts = \<lparr>op_ns = ''acct'', op_baseline = ''ours'', op_schemaPrefix = ''typeddelta~schema~'', op_keyFilter = ''A'',
     op_verbose = False, op_invalidSet = None\<rparr>"

definition exBlock :: Block where
  "exBlock = \<lparr>blk_Number = 1, blk_Data = [[7]], blk_Metadata = Some [[0]]\<rparr>"

lemma exTracked: "tracked exOpts k \<longleftrightarrow> k = ''A''"
  by (auto simp: tracked_def exOpts_def HasPrefix_def)

lemma exCommit: "acceptedCommit exOpts (\<lambda>k. 0) exCredit (\<lambda>k. 5)"
proof -
  let ?v = "\<lparr>v_db = (\<lambda>ns key. Inr None), v_typedDeltaEnabled = True\<rparr>"
  have "validateTypedDeltaTx id ?v exCredit (\<lambda>_ _. None) exLookup = Inr VALID" by code_simp
  moreover obtain ops where "applyTypedDeltas id (\<lambda>k b m. m(k \<mapsto> b)) Map.empty exCredit (\<lambda>_ _. None) (v_db ?v) = (None, ops)"
    and "ops (pubKey ''acct'' ''A'') = Some (MarshalInt64 5)"
  proof -
    have "Apply 0 [\<lparr>d_Op = OpAdd, d_Arg = 5\<rparr>] = Inr 5" by code_simp
    then show ?thesis
      by (intro that [of "[pubKey ''acct'' ''A'' \<mapsto> MarshalInt64 5]"])
         (simp_all add: applyTypedDeltas_def foldPublicDeltas_def exCredit_def exTx_def exWrite_def allWrites_def
            toDelta_def currentInt64_def pendingOrCommitted_def)
  qed
  moreover have "schema_invariant exSchema = Inr NonNeg" by (simp add: exSchema_def schema_invariant_def)
  ultimately show ?thesis
    unfolding acceptedCommit_def exTracked
    by (intro exI [of _ id] exI [of _ ?v] exI [of _ "\<lambda>_ _. None"] exI [of _ exLookup] exI [of _ ops] conjI)
       (simp_all add: committedValue_def exOpts_def exCredit_def exTx_def exWrite_def nsWritesOf_def allWrites_def
          currentInt64_def pendingOrCommitted_def exLookup_def)
qed

theorem accepted_chain_has_no_violation_witness:
  "r_violationCommits (analyze exAnalyzer exOpts id [exBlock]) = 0 \<and>
   balOf (analyze exAnalyzer exOpts id [exBlock]) ''A'' = 5"
proof -
  have "chainTxs exAnalyzer exOpts [exBlock] = [withKv exCredit]"
    by (simp add: chainTxs_def exBlock_def metadata_def envelopeTx_def channelHeader_def txValidity_def exAnalyzer_def)
  then have "commitChain exOpts (\<lambda>k. 0) (chainTxs exAnalyzer exOpts [exBlock]) (\<lambda>k. 5)"
    using chain_cons [OF exCommit chain_nil] by simp
  moreover have "r_overflowEvents (analyze exAnalyzer exOpts id [exBlock]) = 0" by code_simp
  ultimately show ?thesis
    using accepted_chain_has_no_violation [of exOpts id exAnalyzer "[exBlock]" "\<lambda>k. 5"] by (auto simp: exOpts_def exTracked [unfolded exOpts_def])
qed

text \<open>
  Deletes are not replayed: A write that deletes a key leaves the replay's report and touched
  keys unchanged, although the commit-time hooks read the key as 0 afterwards: from then on the
  tool's balance of that key can differ from the committed one.
\<close>

theorem analyzer_ignores_deletes:
  "replayWrite opt blk i \<lparr>w_Key = k, w_IsDelete = True, w_Value = [], w_Delta = None\<rparr> st = st \<and>
   currentInt64 ns k (\<lambda>_ _. Some \<lparr>vv_Value = []\<rparr>) db = Inr 0"
  by (cases st) (simp add: replayWrite_def Int64Width_def Let_def currentInt64_def pendingOrCommitted_def)

end
