(* ===== verification/Go_Strings.thy ===== *)
theory Go_Strings
  imports Go_Utf8
begin

text \<open>
  The functions of \<open>strings\<close> that read a list of names from a file: \<open>ReplaceAll\<close>, \<open>Split\<close> at a
  one-character separator and \<open>TrimSpace\<close>, with what they do to the lines of a text file.
\<close>

section \<open>ReplaceAll and Split\<close>

text \<open>\<open>ReplaceAll\<close> of a non-empty string: the occurrences from left to right that do not overlap.\<close>

function ReplaceAll :: "string \<Rightarrow> string \<Rightarrow> string \<Rightarrow> string" where
  "ReplaceAll old new s =
     (if old = [] \<or> s = [] then s
      else if HasPrefix s old then new @ ReplaceAll old new (drop (length old) s)
      else hd s # ReplaceAll old new (tl s))"
  by pat_completeness auto
termination
  by (relation "measure (\<lambda>(old, new, s). length s)") auto

declare ReplaceAll.simps [simp del]

fun Split :: "char \<Rightarrow> string \<Rightarrow> string list" where
  "Split sep [] = [[]]"
| "Split sep (c # s) =
     (if c = sep then [] # Split sep s
      else (case Split sep s of [] \<Rightarrow> [[c]] | w # ws \<Rightarrow> (c # w) # ws))"

lemma ReplaceAll_skip:
  "x \<noteq> [] \<Longrightarrow> hd x \<notin> set s \<Longrightarrow> ReplaceAll x y (s @ r) = s @ ReplaceAll x y r"
proof (induction s)
  case (Cons c s)
  then have "\<not> HasPrefix (c # s @ r) x" by (cases x) (auto simp: HasPrefix_def)
  with Cons show ?case by (subst append_Cons, subst ReplaceAll.simps) simp
qed simp

lemma ReplaceAll_hit: "x \<noteq> [] \<Longrightarrow> ReplaceAll x y (x @ r) = y @ ReplaceAll x y r"
  by (subst ReplaceAll.simps) (simp add: HasPrefix_def)

lemma Split_nonempty: "Split sep s \<noteq> []"
  by (induction s) (auto split: list.splits)

lemma Split_line: "sep \<notin> set s \<Longrightarrow> Split sep (s @ sep # r) = s # Split sep r"
  by (induction s) auto

lemma Split_lines: "\<forall>s \<in> set ss. sep \<notin> set s \<Longrightarrow> Split sep (concat (map (\<lambda>s. s @ [sep]) ss)) = ss @ [[]]"
  by (induction ss) (auto simp: Split_line)

section \<open>TrimSpace\<close>

text \<open>The code points for which \<open>unicode.IsSpace\<close> holds, and their encodings.\<close>

definition spaceRunes :: "nat list" where
  "spaceRunes = [0x09, 0x0A, 0x0B, 0x0C, 0x0D, 0x20, 0x85, 0xA0, 0x1680] @ [0x2000..<0x200B] @ [0x2028, 0x2029, 0x202F, 0x205F, 0x3000]"

definition spaces :: "string list" where
  "spaces = map string_of_rune spaceRunes"

lemma spaces_nonempty: "w \<in> set spaces \<Longrightarrow> w \<noteq> []"
  by (auto simp: spaces_def string_of_rune_def encodeRune_def Let_def split: if_splits)

lemma found_space:
  assumes "find (\<lambda>w. HasPrefix (f s) (g w)) spaces = Some w" and "\<And>w. length (g w) = length w" and "length (f s) = length s"
  shows "length s - length w < length s"
proof -
  from assms(1) have "w \<in> set spaces" "HasPrefix (f s) (g w)" by (auto simp: find_Some_iff)
  then have "w \<noteq> []" "length w \<le> length s" using spaces_nonempty assms(2,3) by (auto simp: HasPrefix_def)
  then show ?thesis by (cases w) auto
qed

text \<open>
  White space is cut off at the left and then at the right, one rune at a time. A string ends with
  the encoding of a rune exactly when that rune is the last one that Go decodes, whatever is before.
\<close>

function trimLeftSpace :: "string \<Rightarrow> string" where
  "trimLeftSpace s = (case find (\<lambda>w. HasPrefix s w) spaces of None \<Rightarrow> s | Some w \<Rightarrow> trimLeftSpace (drop (length w) s))"
  by pat_completeness auto
termination
  by (relation "measure length") (auto dest: found_space [where f = id and g = id, simplified])

function trimRightSpace :: "string \<Rightarrow> string" where
  "trimRightSpace s =
     (case find (\<lambda>w. HasPrefix (rev s) (rev w)) spaces of None \<Rightarrow> s | Some w \<Rightarrow> trimRightSpace (take (length s - length w) s))"
  by pat_completeness auto
termination
  by (relation "measure length") (auto dest: found_space [where f = rev and g = rev, simplified])

declare trimLeftSpace.simps [simp del] trimRightSpace.simps [simp del]

definition TrimSpace :: "string \<Rightarrow> string" where
  "TrimSpace s = trimRightSpace (trimLeftSpace s)"

text \<open>Printable ASCII characters, as in a transaction id, begin and end no white space; blanks and tabs are white space.\<close>

definition printable :: "char \<Rightarrow> bool" where
  "printable c \<longleftrightarrow> of_char c \<in> {0x21..0x7E :: nat}"

definition blank :: "char \<Rightarrow> bool" where
  "blank c \<longleftrightarrow> c = CHR '' '' \<or> c = CHR 0x09"

lemma spaceRunes_cases:
  assumes "r \<in> set spaceRunes"
  shows "r \<in> {0x09..0x0D} \<or> r = 0x20 \<or> 0x80 \<le> r \<and> r < 0xD800"
  using assms by (auto simp: spaceRunes_def)

lemma encode_edges:
  assumes "r \<in> {0x09..0x0D} \<or> r = 0x20 \<or> 0x80 \<le> r \<and> r < 0xD800"
  shows "hd (encodeRune r) \<notin> {0x21..0x7E} \<and> last (encodeRune r) \<notin> {0x21..0x7E} \<and> (\<forall>b \<in> set (encodeRune r). b < 256)"
proof -
  have "r div 64 < 0x20" if "r < 0x800" using that by (simp add: div_less_iff_less_mult)
  moreover have "r div 4096 < 0x10" if "r < 0xD800" using that by (simp add: div_less_iff_less_mult)
  ultimately show ?thesis using assms
    by (auto simp: encodeRune_def Let_def not_le dest: order.strict_trans1 intro: order.strict_trans2)
qed

lemma spaces_edges:
  assumes "w \<in> set spaces"
  shows "\<not> printable (hd w) \<and> \<not> printable (last w)"
proof -
  obtain r where r: "w = map char_of (encodeRune r)" "r \<in> set spaceRunes" using assms by (auto simp: spaces_def string_of_rune_def)
  note e = encode_edges [OF spaceRunes_cases [OF r(2)]]
  have ne: "encodeRune r \<noteq> []" using spaces_nonempty [OF assms] r(1) by auto
  then have "hd (encodeRune r) < 256" "last (encodeRune r) < 256" using e by auto
  then show ?thesis using e ne by (simp add: r(1) hd_map last_map printable_def)
qed

lemma printable_edges:
  assumes "printable c"
  shows "find (\<lambda>w. HasPrefix (c # s) w) spaces = None" "find (\<lambda>w. HasPrefix (c # s) (rev w)) spaces = None"
proof -
  have "\<not> HasPrefix (c # s) w \<and> \<not> HasPrefix (c # s) (rev w)" if "w \<in> set spaces" for w
    using spaces_edges [OF that] spaces_nonempty [OF that] assms
    by (metis HasPrefix_iff hd_append2 hd_rev list.sel(1) rev_is_Nil_conv)
  then show "find (\<lambda>w. HasPrefix (c # s) w) spaces = None" "find (\<lambda>w. HasPrefix (c # s) (rev w)) spaces = None"
    by (auto simp: find_None_iff)
qed

lemma spaces_ascii: "\<exists>ws. spaces = [[CHR 0x09], [CHR 0x0A], [CHR 0x0B], [CHR 0x0C], [CHR 0x0D], [CHR 0x20]] @ ws"
proof -
  have "map string_of_rune [0x09, 0x0A, 0x0B, 0x0C, 0x0D, 0x20] = [[CHR 0x09], [CHR 0x0A], [CHR 0x0B], [CHR 0x0C], [CHR 0x0D], [CHR 0x20]]"
    by (simp add: string_of_rune_def encodeRune_def char_of_eq_iff take_bit_eq_mod)
  then show ?thesis unfolding spaces_def spaceRunes_def by simp
qed

lemma blank_found:
  assumes "blank c"
  shows "find (\<lambda>w. HasPrefix (c # s) w) spaces = Some [c]" "find (\<lambda>w. HasPrefix (c # s) (rev w)) spaces = Some [c]"
proof -
  obtain ws where ws: "spaces = [[CHR 0x09], [CHR 0x0A], [CHR 0x0B], [CHR 0x0C], [CHR 0x0D], [CHR 0x20]] @ ws"
    using spaces_ascii by blast
  show "find (\<lambda>w. HasPrefix (c # s) w) spaces = Some [c]" "find (\<lambda>w. HasPrefix (c # s) (rev w)) spaces = Some [c]"
    unfolding ws using assms by (auto simp: blank_def HasPrefix_def)
qed

lemma trimLeft_blanks: "list_all blank pre \<Longrightarrow> trimLeftSpace (pre @ s) = trimLeftSpace s"
  by (induction pre) (auto simp: trimLeftSpace.simps [of "_ # _"] blank_found)

lemma trimRight_blanks: "list_all blank post \<Longrightarrow> trimRightSpace (s @ post) = trimRightSpace s"
  by (induction post rule: rev_induct) (auto simp: trimRightSpace.simps [of "_ @ _ @ [_]"] blank_found)

lemma TrimSpace_printable:
  assumes "list_all blank pre" "list_all blank post" "list_all printable t" "t \<noteq> []"
  shows "TrimSpace (pre @ t @ post) = t"
proof -
  have "trimLeftSpace (t @ post) = t @ post" using assms(3,4) by (cases t) (auto simp: trimLeftSpace.simps [of "_ # _"] printable_edges)
  moreover have "trimRightSpace t = t" using assms(3,4)
    by (cases t rule: rev_cases) (auto simp: trimRightSpace.simps [of "_ @ [_]"] printable_edges)
  ultimately show ?thesis using assms(1,2) by (simp add: TrimSpace_def trimLeft_blanks trimRight_blanks)
qed

lemma TrimSpace_Nil: "TrimSpace [] = []"
proof -
  have "find (\<lambda>w. HasPrefix [] w) spaces = None" "find (\<lambda>w. HasPrefix [] (rev w)) spaces = None"
    using spaces_nonempty by (auto simp: find_None_iff HasPrefix_def)
  then show ?thesis by (simp add: TrimSpace_def trimLeftSpace.simps [of "[]"] trimRightSpace.simps [of "[]"])
qed

lemma TrimSpace_blanks: "list_all blank s \<Longrightarrow> TrimSpace s = []"
  using trimLeft_blanks [of s "[]"] TrimSpace_Nil by (simp add: TrimSpace_def)

end
