(* ===== verification/Analyzer_Main.thy ===== *)
theory Analyzer_Main
  imports Analyzer Go_Strings Go_Monad
begin

text \<open>
  The start of the analyzer's \<open>main\<close>: the file of invalid transaction ids that stands in for the
  validation codes of blocks that have none, and the whole run with it.
\<close>

section \<open>The file of invalid transaction ids\<close>

definition parseInvalidTxids :: "string \<Rightarrow> string set" where
  "parseInvalidTxids raw =
     fold (\<lambda>line invalidSet. let t = TrimSpace line in if t \<noteq> '''' then insert t invalidSet else invalidSet)
       (Split (CHR 0x0A) (ReplaceAll [CHR 0x0D, CHR 0x0A] [CHR 0x0A] raw)) {}"

definition readInvalidSet :: "string \<Rightarrow> string + bytes \<Rightarrow> string + string set option" where
  "readInvalidSet invalidTxids file =
     (if invalidTxids \<noteq> ''''
      then (case file of
              Inl rerr \<Rightarrow> Inl (''read invalidTxids: '' @ rerr)
            | Inr raw \<Rightarrow> Inr (Some (parseInvalidTxids (string_of_bytes raw))))
      else Inr None)"

text \<open>
  \<open>main\<close>: the file of ids is read before the flags are checked for a source of blocks. The
  arguments are the command line and what the file system answers.
\<close>

definition analyzerMain ::
  "analyzer_env \<Rightarrow> (Block list \<Rightarrow> Block list) \<Rightarrow> analyzer_opts \<Rightarrow> (string list \<Rightarrow> string list) \<Rightarrow> string \<Rightarrow> string + bytes \<Rightarrow>
     string \<Rightarrow> string \<Rightarrow> string + (string \<times> (string + bytes)) list \<Rightarrow> string + bytes \<Rightarrow> analyzer_run" where
  "analyzerMain env srt opt ord invalidTxids idFile dir blockfile glob file =
     (case readInvalidSet invalidTxids idFile of
        Inl err \<Rightarrow> Exit 1 err
      | Inr invalidSet \<Rightarrow> analyzerRun env srt (opt\<lparr>op_invalidSet := invalidSet\<rparr>) ord dir blockfile glob file)"

section \<open>What the file means\<close>

lemma parse_fold:
  "fold (\<lambda>line A. let t = TrimSpace line in if t \<noteq> '''' then insert t A else A) ls A =
     A \<union> (TrimSpace ` set ls - {''''})"
  by (induction ls arbitrary: A) (auto simp: Let_def)

text \<open>A line of the file: an id between blanks, ended the Unix or the Windows way.\<close>

definition idLine :: "string \<times> string \<times> string \<times> bool \<Rightarrow> string" where
  "idLine = (\<lambda>(pre, t, post, crlf). (pre @ t @ post) @ (if crlf then [CHR 0x0D, CHR 0x0A] else [CHR 0x0A]))"

definition goodLine :: "string \<times> string \<times> string \<times> bool \<Rightarrow> bool" where
  "goodLine = (\<lambda>(pre, t, post, crlf). list_all blank pre \<and> list_all blank post \<and> list_all printable t)"

lemma no_line_end:
  assumes "goodLine (pre, t, post, crlf)"
  shows "CHR 0x0D \<notin> set (pre @ t @ post) \<and> CHR 0x0A \<notin> set (pre @ t @ post)"
proof -
  have "blank c \<or> printable c" if "c \<in> set (pre @ t @ post)" for c using assms that by (auto simp: goodLine_def list_all_iff)
  moreover have "\<not> blank (CHR 0x0D)" "\<not> printable (CHR 0x0D)" "\<not> blank (CHR 0x0A)" "\<not> printable (CHR 0x0A)"
    by (simp_all add: blank_def printable_def)
  ultimately show ?thesis by blast
qed

lemma line_ends:
  "list_all goodLine ls \<Longrightarrow>
     ReplaceAll [CHR 0x0D, CHR 0x0A] [CHR 0x0A] (concat (map idLine ls)) = concat (map (\<lambda>(pre, t, post, _). (pre @ t @ post) @ [CHR 0x0A]) ls)"
proof (induction ls)
  case (Cons l ls)
  obtain pre t post crlf where l: "l = (pre, t, post, crlf)" by (metis prod_cases4)
  let ?s = "pre @ t @ post" and ?r = "concat (map idLine ls)"
  have "CHR 0x0D \<notin> set ?s" "CHR 0x0D \<notin> set (?s @ [CHR 0x0A])" using no_line_end [of pre t post crlf] Cons.prems l by auto
  then have "ReplaceAll [CHR 0x0D, CHR 0x0A] [CHR 0x0A] (?s @ [CHR 0x0D, CHR 0x0A] @ ?r) = ?s @ [CHR 0x0A] @ ReplaceAll [CHR 0x0D, CHR 0x0A] [CHR 0x0A] ?r"
    "ReplaceAll [CHR 0x0D, CHR 0x0A] [CHR 0x0A] ((?s @ [CHR 0x0A]) @ ?r) = (?s @ [CHR 0x0A]) @ ReplaceAll [CHR 0x0D, CHR 0x0A] [CHR 0x0A] ?r"
    using ReplaceAll_skip [of "[CHR 0x0D, CHR 0x0A]" ?s] ReplaceAll_skip [of "[CHR 0x0D, CHR 0x0A]" "?s @ [CHR 0x0A]"]
      ReplaceAll_hit [of "[CHR 0x0D, CHR 0x0A]"] by simp_all
  then show ?case using Cons l by (cases crlf) (auto simp: idLine_def)
qed (simp add: ReplaceAll.simps)

lemma parseInvalidTxids_lines:
  assumes "list_all goodLine ls"
  shows "parseInvalidTxids (concat (map idLine ls)) = {t. \<exists>pre post crlf. (pre, t, post, crlf) \<in> set ls} - {''''}"
proof -
  let ?ss = "map (\<lambda>(pre, t, post, _). pre @ t @ post) ls"
  have good: "goodLine (pre, t, post, crlf)" if "(pre, t, post, crlf) \<in> set ls" for pre t post crlf
    using assms that by (auto simp: list_all_iff)
  have lines: "concat (map (\<lambda>(pre, t, post, _). (pre @ t @ post) @ [CHR 0x0A]) ls) = concat (map (\<lambda>s. s @ [CHR 0x0A]) ?ss)"
    by (induction ls) auto
  have "Split (CHR 0x0A) (ReplaceAll [CHR 0x0D, CHR 0x0A] [CHR 0x0A] (concat (map idLine ls))) = ?ss @ [[]]"
    unfolding line_ends [OF assms] lines by (rule Split_lines) (use no_line_end [OF good] in auto)
  then have "parseInvalidTxids (concat (map idLine ls)) = TrimSpace ` set ?ss - {''''}"
    by (auto simp: parseInvalidTxids_def parse_fold TrimSpace_Nil)
  moreover have "TrimSpace (pre @ t @ post) = t" if "(pre, t, post, crlf) \<in> set ls" for pre t post crlf
    using good [OF that] TrimSpace_printable [of pre post t] TrimSpace_blanks [of "pre @ post"] by (cases "t = []") (simp_all add: goodLine_def)
  then have "TrimSpace ` set ?ss = (\<lambda>(pre, t, post, _). t) ` set ls" unfolding set_map image_image by (intro image_cong) auto
  moreover have "(\<lambda>(pre, t, post, _). t) ` set ls = {t. \<exists>pre post crlf. (pre, t, post, crlf) \<in> set ls}" by (auto simp: image_iff split_beta) (metis fst_conv snd_conv prod.collapse)+
  ultimately show ?thesis by simp
qed

text \<open>
  The list of invalid transactions is read exactly. From a text file with one printable id per
  line, with any blanks around it, blank lines, and Unix or Windows line ends in any mixture, the
  analyzer obtains exactly the ids.
\<close>

theorem invalidTxids_exact:
  assumes "list_all goodLine ls" and "path \<noteq> []"
  shows "readInvalidSet path (Inr (bytes_of_string (concat (map idLine ls)))) =
    Inr (Some ({t. \<exists>pre post crlf. (pre, t, post, crlf) \<in> set ls} - {''''}))"
  using assms by (simp add: readInvalidSet_def parseInvalidTxids_lines)

theorem invalidTxids_exact_witness:
  "readInvalidSet ''ids.txt'' (Inr (bytes_of_string ('' ab '' @ [CHR 0x0D, CHR 0x0A] @ ''cd'' @ [CHR 0x0A, CHR 0x0A]))) = Inr (Some {''ab'', ''cd''})"
proof -
  let ?ls = "[('' '', ''ab'', '' '', True), ('''', ''cd'', '''', False), ('''', '''', '''', False)]"
  have "list_all goodLine ?ls" by (simp add: goodLine_def blank_def printable_def)
  moreover have "concat (map idLine ?ls) = '' ab '' @ [CHR 0x0D, CHR 0x0A] @ ''cd'' @ [CHR 0x0A, CHR 0x0A]" by (simp add: idLine_def)
  moreover have "{t. \<exists>pre post crlf. (pre, t, post, crlf) \<in> set ?ls} - {''''} = {''ab'', ''cd''}" by auto
  ultimately show ?thesis using invalidTxids_exact [of ?ls "''ids.txt''"] by simp
qed

end
