(* ===== verification/KV_Ledger.thy ===== *)
theory KV_Ledger
  imports Protos Go_Monad Prelude
begin

text \<open>
  \<open>fabric-core/kv_ledger.go\<close>: the ledger that ties block store, private data store, state database
  (through the transaction manager) and history database together. All of these are code outside
  \<open>src/\<close>: the fields of \<open>ledger_env\<close>, acting on a world \<open>'w\<close> that holds their contents. A read
  takes the world, an operation also returns it.

  A method of \<open>kvLedger\<close> is a computation on the ledger's own fields and the world. Go maps keyed by
  block number are association lists in the order the runtime ranges over them. Logging is left out. A block is taken with its header and data present.
\<close>

section \<open>The stores\<close>

record TxPvtData =
  pd_SeqInBlock :: uint64
  pd_WriteSet :: bytes

record MissingPvtData =
  mp_Namespace :: string
  mp_Collection :: string
  mp_IsEligible :: bool

type_synonym TxMissingPvtData = "uint64 \<rightharpoonup> MissingPvtData list"
type_synonym TxPvtDataMap = "uint64 \<rightharpoonup> TxPvtData"
type_synonym blocksPvtData = "(uint64 \<times> TxPvtData list) list"

record BlockAndPvtData =
  bp_Block :: Block
  bp_PvtData :: TxPvtDataMap
  bp_MissingPvtData :: TxMissingPvtData

record VersionHeight =
  vh_BlockNum :: uint64
  vh_TxNum :: uint64

record PurgeUpdate =
  pu_Namespace :: string
  pu_CollectionName :: string
  pu_KeyHash :: string
  pu_Version :: VersionHeight

record PurgeMarker =
  pm_Ns :: string
  pm_Coll :: string
  pm_PvtkeyHash :: bytes
  pm_TxNum :: uint64

record PvtdataCompositeKey =
  pk_Namespace :: string
  pk_CollectionName :: string
  pk_Key :: string

record TxStatInfo =
  ts_TxIDFromChannelHeader :: string
  ts_TxType :: int32
  ts_ValidationCode :: int32
  ts_ChaincodeID :: bytes
  ts_ChaincodeEventData :: bytes

text \<open>What a recoverable database answers: whether to recover, and the next block it needs.\<close>

record 'w recoverable =
  rc_Name :: string
  rc_ShouldRecover :: "uint64 \<Rightarrow> 'w \<Rightarrow> string + bool \<times> uint64"
  rc_CommitLostBlock :: "BlockAndPvtData \<Rightarrow> 'w \<Rightarrow> (string + unit) \<times> 'w"

record DeployedChaincodeInfo =
  dc_Name :: string
  dc_Version :: string
  dc_Hash :: bytes
  dc_IsLegacy :: bool
  dc_ExplicitCollectionConfigPkg :: "string list"

record ChaincodeDefinition =
  cd_Name :: string
  cd_Version :: string
  cd_Hash :: bytes
  cd_CollectionConfigs :: "string list"

record 'w ledger_env =
  bs_GetBlockchainInfo :: "'w \<Rightarrow> string + uint64"
  bs_RetrieveBlockByNumber :: "uint64 \<Rightarrow> 'w \<Rightarrow> string + Block"
  bs_RetrieveBlockByHash :: "bytes \<Rightarrow> 'w \<Rightarrow> string + Block"
  bs_RetrieveBlockByTxID :: "string \<Rightarrow> 'w \<Rightarrow> string + Block"
  bs_TxIDExists :: "string \<Rightarrow> 'w \<Rightarrow> string + bool"
  bs_RetrieveTxByID :: "string \<Rightarrow> 'w \<Rightarrow> string + Envelope"
  bs_RetrieveTxValidationCodeByTxID :: "string \<Rightarrow> 'w \<Rightarrow> string + int32 \<times> uint64"
  bs_RetrieveBlocks :: "uint64 \<Rightarrow> 'w \<Rightarrow> string + nat"
  bs_Shutdown :: "'w \<Rightarrow> 'w"
  it_Next :: "nat \<Rightarrow> 'w \<Rightarrow> (string + Block option) \<times> 'w"
  it_Close :: "nat \<Rightarrow> 'w \<Rightarrow> 'w"
  bs_AddBlock :: "Block \<Rightarrow> 'w \<Rightarrow> (string + unit) \<times> 'w"
  pv_Init :: "'w \<Rightarrow> 'w"
  pv_LastCommittedBlockHeight :: "'w \<Rightarrow> string + uint64"
  pv_GetPvtDataByBlockNum :: "uint64 \<Rightarrow> string set option \<Rightarrow> 'w \<Rightarrow> string + TxPvtData list"
  pv_FetchPrivateDataRawKey :: "string \<Rightarrow> string \<Rightarrow> bytes \<Rightarrow> 'w \<Rightarrow> string + string"
  pv_Commit :: "uint64 \<Rightarrow> TxPvtData list \<Rightarrow> TxMissingPvtData \<Rightarrow> PurgeMarker list \<Rightarrow> 'w \<Rightarrow> (string + unit) \<times> 'w"
  pv_GetLastUpdatedOldBlocksPvtData :: "'w \<Rightarrow> string + blocksPvtData"
  pv_ResetLastUpdatedOldBlocksList :: "'w \<Rightarrow> (string + unit) \<times> 'w"
  pv_CommitPvtDataOfOldBlocks :: "blocksPvtData \<Rightarrow> TxMissingPvtData \<Rightarrow> 'w \<Rightarrow> (string + unit) \<times> 'w"
  pv_extractValidPvtData :: "blocksPvtData \<Rightarrow> uint64 \<Rightarrow> 'w \<Rightarrow> string + blocksPvtData"
  tm_New :: "bool \<Rightarrow> 'w \<Rightarrow> (string + unit) \<times> 'w"
  tm_NewQueryExecutor :: "string \<Rightarrow> 'w \<Rightarrow> (string + unit) \<times> 'w"
  tm_NewQueryExecutorNoCollChecks :: "'w \<Rightarrow> (string + unit) \<times> 'w"
  tm_NewTxSimulator :: "string \<Rightarrow> 'w \<Rightarrow> (string + unit) \<times> 'w"
  tm_Shutdown :: "'w \<Rightarrow> 'w"
  tm_Done :: "'w \<Rightarrow> 'w"
  tm_ValidateAndPrepare ::
    "BlockAndPvtData \<Rightarrow> 'w \<Rightarrow> (string + PurgeUpdate list \<times> TxStatInfo list \<times> bytes \<times> BlockAndPvtData) \<times> 'w"
  tm_UpdateBatch :: "(PvtdataCompositeKey \<rightharpoonup> VersionHeight) \<Rightarrow> 'w \<Rightarrow> 'w"
  tm_Commit :: "'w \<Rightarrow> (string + unit) \<times> 'w"
  tm_RemoveStaleAndCommit :: "blocksPvtData \<Rightarrow> 'w \<Rightarrow> (string + unit) \<times> 'w"
  hd_Commit :: "Block \<Rightarrow> 'w \<Rightarrow> (string + unit) \<times> 'w"
  hd_NewQueryExecutor :: "'w \<Rightarrow> (string + unit) \<times> 'w"
  rc_txmgr :: "'w recoverable"
  rc_historyDB :: "'w recoverable"
  sl_Initialize :: "('w \<Rightarrow> (string + unit) \<times> 'w) list"
  sm_newBookkeeper :: "string \<Rightarrow> 'w \<Rightarrow> (string + unit) \<times> 'w"
  sm_processEvents :: "uint64 \<Rightarrow> 'w \<Rightarrow> 'w"
  sm_regenrateMissedSnapshot :: "uint64 \<Rightarrow> 'w \<Rightarrow> (string + unit) \<times> 'w"
  sm_commitStart :: "uint64 \<Rightarrow> 'w \<Rightarrow> 'w"
  sm_commitDone :: "uint64 \<Rightarrow> 'w \<Rightarrow> 'w"
  sm_shutdown :: "'w \<Rightarrow> 'w"
  st_updateBlockProcessingTime :: "int \<Rightarrow> 'w \<Rightarrow> 'w"
  st_updateBlockstorageAndPvtdataCommitTime :: "int \<Rightarrow> 'w \<Rightarrow> 'w"
  st_updateStatedbCommitTime :: "int \<Rightarrow> 'w \<Rightarrow> 'w"
  st_updateTransactionsStats :: "TxStatInfo list \<Rightarrow> 'w \<Rightarrow> 'w"
  ck_elapsed :: "'w \<Rightarrow> int \<times> int \<times> int"
  ev_hasIndexCreator :: bool
  ev_RegisterListener :: "string \<Rightarrow> bool \<Rightarrow> 'w \<Rightarrow> (string + unit) \<times> 'w"
  ev_Register :: "string \<Rightarrow> 'w \<Rightarrow> 'w"
  ev_RegisterAndInvokeFor :: "ChaincodeDefinition list \<Rightarrow> string \<Rightarrow> 'w \<Rightarrow> (string + unit) \<times> 'w"
  ev_HandleChaincodeDeploy :: "ChaincodeDefinition \<Rightarrow> bytes \<Rightarrow> 'w \<Rightarrow> (string + unit) \<times> 'w"
  ev_ChaincodeDeployDone :: "bool \<Rightarrow> 'w \<Rightarrow> 'w"
  ci_AllChaincodesInfo :: "string \<Rightarrow> 'w \<Rightarrow> string + DeployedChaincodeInfo list"
  ci_ImplicitCollections :: "string \<Rightarrow> string \<Rightarrow> 'w \<Rightarrow> string + string list option"
  ci_CollectionInfo :: "string \<Rightarrow> string \<Rightarrow> string \<Rightarrow> 'w \<Rightarrow> string + string"
  ch_MostRecentCollectionConfigBelow :: "uint64 \<Rightarrow> string \<Rightarrow> 'w \<Rightarrow> string + (string list \<times> uint64) option"
  cc_ExtractTypedDeltaCapability :: "Block \<Rightarrow> string + bool"
  pb_GetLastConfigIndexFromBlock :: "Block \<Rightarrow> string + uint64"
  pb_MarshalMetadata :: "bytes \<Rightarrow> bytes"
  pb_UnmarshalMetadata :: "bytes \<Rightarrow> string + bytes"
  pb_EncodeVarint :: "uint64 \<Rightarrow> bytes"
  ut_ComputeSHA256 :: "bytes \<Rightarrow> bytes"
  ut_GenerateUUID :: "'w \<Rightarrow> string \<times> 'w"
  hp_GetHash :: "string + unit"
  hp_Write :: "bytes \<Rightarrow> string option"
  hp_Sum :: "bytes \<Rightarrow> bytes"
  ut_HexDecodeString :: "string \<Rightarrow> string + bytes"
  tf_IsValid :: "bytes \<Rightarrow> uint64 \<Rightarrow> bool"
  lm_Add :: "uint64 \<Rightarrow> string \<Rightarrow> string \<Rightarrow> bool \<Rightarrow> TxMissingPvtData \<Rightarrow> TxMissingPvtData"
  bi_TRANSACTIONS_FILTER :: nat
  bi_COMMIT_HASH :: nat

section \<open>The ledger\<close>

record SnapshotMetadata =
  sn_LastBlockNumber :: uint64
  sn_LastBlockCommitHashInHex :: string

record CommitNotificationTxInfo =
  ni_TxType :: int32
  ni_TxID :: string
  ni_ValidationCode :: int32
  ni_ChaincodeID :: bytes
  ni_ChaincodeEventData :: bytes

text \<open>
  The notifier: whether the consumer has closed its done channel, and what has been sent on the data
  channel (a send waits while ten notifications are unread).
\<close>

record commitNotifier =
  cn_done :: bool
  cn_sent :: "(uint64 \<times> CommitNotificationTxInfo list) list"

record rwlock =
  lk_readers :: nat
  lk_writer :: bool

record 'w kvLedger =
  l_ledgerID :: string
  l_bootSnapshotMetadata :: "SnapshotMetadata option"
  l_hasHistoryDB :: bool
  l_commitHash :: bytes
  l_isPvtstoreAheadOfBlkstore :: bool
  l_commitNotifier :: "commitNotifier option"
  l_blockAPIsRWLock :: rwlock
  l_pvtdataStoreLock :: bool
  l_world :: 'w

type_synonym ('w, 'a) ledgerM = "('w kvLedger, string + 'a) goM"

definition ask :: "('w \<Rightarrow> 'a) \<Rightarrow> ('w kvLedger, 'a) goM" where
  "ask f l = (Return (f (l_world l)), l)"

definition act :: "('w \<Rightarrow> 'a \<times> 'w) \<Rightarrow> ('w kvLedger, 'a) goM" where
  "act f l = (case f (l_world l) of (a, w) \<Rightarrow> (Return a, l\<lparr>l_world := w\<rparr>))"

definition run :: "('w \<Rightarrow> 'w) \<Rightarrow> ('w kvLedger, unit) goM" where
  "run f = act (\<lambda>w. ((), f w))"

definition withLedger :: "('w kvLedger \<Rightarrow> ('w kvLedger, 'a) goM) \<Rightarrow> ('w kvLedger, 'a) goM" where
  "withLedger f l = f l l"

text \<open>\<open>RLock\<close> with a deferred \<open>RUnlock\<close>, \<open>Lock\<close> with a deferred \<open>Unlock\<close>.\<close>

definition withRLock :: "('w kvLedger, 'a) goM \<Rightarrow> ('w kvLedger, 'a) goM" where
  "withRLock m =
     gbind (gmodify (\<lambda>l. l\<lparr>l_blockAPIsRWLock := (l_blockAPIsRWLock l)\<lparr>lk_readers := lk_readers (l_blockAPIsRWLock l) + 1\<rparr>\<rparr>)) (\<lambda>_.
     gdefer (\<lambda>l. l\<lparr>l_blockAPIsRWLock := (l_blockAPIsRWLock l)\<lparr>lk_readers := lk_readers (l_blockAPIsRWLock l) - 1\<rparr>\<rparr>) m)"

definition withWLock :: "('w kvLedger, 'a) goM \<Rightarrow> ('w kvLedger, 'a) goM" where
  "withWLock m =
     gbind (gmodify (\<lambda>l. l\<lparr>l_blockAPIsRWLock := (l_blockAPIsRWLock l)\<lparr>lk_writer := True\<rparr>\<rparr>)) (\<lambda>_.
     gdefer (\<lambda>l. l\<lparr>l_blockAPIsRWLock := (l_blockAPIsRWLock l)\<lparr>lk_writer := False\<rparr>\<rparr>) m)"

definition withPvtLock :: "('w kvLedger, 'a) goM \<Rightarrow> ('w kvLedger, 'a) goM" where
  "withPvtLock m =
     gbind (gmodify (\<lambda>l. l\<lparr>l_pvtdataStoreLock := True\<rparr>)) (\<lambda>_. gdefer (\<lambda>l. l\<lparr>l_pvtdataStoreLock := False\<rparr>) m)"

section \<open>The typed-delta capability\<close>

definition typedDeltaCapabilityEnabled :: "'w ledger_env \<Rightarrow> Block option \<Rightarrow> 'w \<Rightarrow> bool" where
  "typedDeltaCapabilityEnabled env genesisBlock w =
     (case bs_GetBlockchainInfo env w of
        Inl err \<Rightarrow> False
      | Inr height \<Rightarrow>
          if height = 0 then
            (case genesisBlock of
               None \<Rightarrow> False
             | Some g \<Rightarrow> (case cc_ExtractTypedDeltaCapability env g of Inl err \<Rightarrow> False | Inr enabled \<Rightarrow> enabled))
          else
            (case bs_RetrieveBlockByNumber env (height - 1) w of
               Inl err \<Rightarrow> False
             | Inr latestBlock \<Rightarrow>
                 (case pb_GetLastConfigIndexFromBlock env latestBlock of
                    Inl err \<Rightarrow> False
                  | Inr cfgIndex \<Rightarrow>
                      (case bs_RetrieveBlockByNumber env cfgIndex w of
                         Inl err \<Rightarrow> False
                       | Inr cfgBlock \<Rightarrow>
                           (case cc_ExtractTypedDeltaCapability env cfgBlock of
                              Inl err \<Rightarrow> False
                            | Inr enabled \<Rightarrow> enabled)))))"

section \<open>Queries\<close>

definition kv_TxIDExists :: "'w ledger_env \<Rightarrow> string \<Rightarrow> ('w, bool) ledgerM" where
  "kv_TxIDExists env txID = withRLock (ask (bs_TxIDExists env txID))"

definition kv_GetTransactionByID :: "'w ledger_env \<Rightarrow> string \<Rightarrow> ('w, Envelope \<times> int32) ledgerM" where
  "kv_GetTransactionByID env txID =
     withRLock (
       gtry (ask (bs_RetrieveTxByID env txID)) (\<lambda>tranEnv.
       gtry (ask (bs_RetrieveTxValidationCodeByTxID env txID)) (\<lambda>(txVResult, _).
       gret (Inr (tranEnv, txVResult)))))"

definition kv_GetBlockchainInfo :: "'w ledger_env \<Rightarrow> ('w, uint64) ledgerM" where
  "kv_GetBlockchainInfo env = withRLock (ask (bs_GetBlockchainInfo env))"

definition kv_GetBlockByNumber :: "'w ledger_env \<Rightarrow> uint64 \<Rightarrow> ('w, Block) ledgerM" where
  "kv_GetBlockByNumber env blockNumber = withRLock (ask (bs_RetrieveBlockByNumber env blockNumber))"

definition kv_GetBlockByHash :: "'w ledger_env \<Rightarrow> bytes \<Rightarrow> ('w, Block) ledgerM" where
  "kv_GetBlockByHash env blockHash = withRLock (ask (bs_RetrieveBlockByHash env blockHash))"

definition kv_GetBlockByTxID :: "'w ledger_env \<Rightarrow> string \<Rightarrow> ('w, Block) ledgerM" where
  "kv_GetBlockByTxID env txID = withRLock (ask (bs_RetrieveBlockByTxID env txID))"

definition kv_GetTxValidationCodeByTxID :: "'w ledger_env \<Rightarrow> string \<Rightarrow> ('w, int32 \<times> uint64) ledgerM" where
  "kv_GetTxValidationCodeByTxID env txID = withRLock (ask (bs_RetrieveTxValidationCodeByTxID env txID))"

text \<open>A nil slice of private data gives a nil map; both read as the empty map.\<close>

definition constructPvtdataMap :: "TxPvtData list \<Rightarrow> TxPvtDataMap" where
  "constructPvtdataMap pvtdata = fold (\<lambda>d m. m(pd_SeqInBlock d \<mapsto> d)) pvtdata Map.empty"

definition convertTxPvtDataArrayToMap :: "TxPvtData list \<Rightarrow> TxPvtDataMap" where
  "convertTxPvtDataArrayToMap txPvtData = fold (\<lambda>d m. m(pd_SeqInBlock d \<mapsto> d)) txPvtData Map.empty"

definition kv_GetPvtDataAndBlockByNum ::
  "'w ledger_env \<Rightarrow> uint64 \<Rightarrow> string set option \<Rightarrow> ('w, BlockAndPvtData) ledgerM" where
  "kv_GetPvtDataAndBlockByNum env blockNum filt =
     withRLock (
       gtry (ask (bs_RetrieveBlockByNumber env blockNum)) (\<lambda>block.
       gtry (ask (pv_GetPvtDataByBlockNum env blockNum filt)) (\<lambda>pvtdata.
       gret (Inr \<lparr>bp_Block = block, bp_PvtData = constructPvtdataMap pvtdata, bp_MissingPvtData = Map.empty\<rparr>))))"

definition kv_GetPvtDataByNum :: "'w ledger_env \<Rightarrow> uint64 \<Rightarrow> string set option \<Rightarrow> ('w, TxPvtData list) ledgerM" where
  "kv_GetPvtDataByNum env blockNum filt = withRLock (ask (pv_GetPvtDataByBlockNum env blockNum filt))"

definition kv_DoesPvtDataInfoExist :: "'w ledger_env \<Rightarrow> uint64 \<Rightarrow> ('w, bool) ledgerM" where
  "kv_DoesPvtDataInfoExist env blockNum =
     gtry (ask (pv_LastCommittedBlockHeight env)) (\<lambda>pvtStoreHt. gret (Inr (blockNum + 1 \<le> pvtStoreHt)))"

section \<open>Private data\<close>

text \<open>\<open>block.Metadata.Metadata[idx]\<close>, which panics on a nil pointer and out of range.\<close>

definition metadataAt :: "Block \<Rightarrow> nat \<Rightarrow> ('s, bytes) goM" where
  "metadataAt block idx =
     (case blk_Metadata block of
        None \<Rightarrow> gpanic ''nil pointer dereference''
      | Some m \<Rightarrow> if idx < length m then gret (m ! idx) else gpanic ''index out of range'')"

fun filterInvalid_loop :: "'w ledger_env \<Rightarrow> uint64 \<Rightarrow> blocksPvtData \<Rightarrow> ('w, blocksPvtData) ledgerM" where
  "filterInvalid_loop env lastBlockInBootstrapSnapshot [] = gret (Inr [])"
| "filterInvalid_loop env lastBlockInBootstrapSnapshot ((blkNum, txsPvtData) # r) =
     (if blkNum \<le> lastBlockInBootstrapSnapshot
      then gtry (filterInvalid_loop env lastBlockInBootstrapSnapshot r) (\<lambda>rest. gret (Inr ((blkNum, txsPvtData) # rest)))
      else
        gtry (ask (bs_RetrieveBlockByNumber env blkNum)) (\<lambda>block.
        gbind (metadataAt block (bi_TRANSACTIONS_FILTER env)) (\<lambda>flags.
        gtry (filterInvalid_loop env lastBlockInBootstrapSnapshot r) (\<lambda>rest.
        gret (Inr ((blkNum, filter (\<lambda>d. tf_IsValid env flags (pd_SeqInBlock d)) txsPvtData) # rest))))))"

definition filterPvtDataOfInvalidTx :: "'w ledger_env \<Rightarrow> blocksPvtData \<Rightarrow> uint64 \<Rightarrow> ('w, blocksPvtData) ledgerM" where
  "filterPvtDataOfInvalidTx env hashVerifiedPvtData lastBlockInBootstrapSnapshot =
     filterInvalid_loop env lastBlockInBootstrapSnapshot hashVerifiedPvtData"

definition lastBlockInSnapshot :: "'w kvLedger \<Rightarrow> uint64" where
  "lastBlockInSnapshot l = (case l_bootSnapshotMetadata l of None \<Rightarrow> 0 | Some m \<Rightarrow> sn_LastBlockNumber m)"

definition applyValidTxPvtDataOfOldBlocks :: "'w ledger_env \<Rightarrow> blocksPvtData \<Rightarrow> ('w, unit) ledgerM" where
  "applyValidTxPvtDataOfOldBlocks env hashVerifiedPvtData =
     withLedger (\<lambda>l.
       gtry (filterPvtDataOfInvalidTx env hashVerifiedPvtData (lastBlockInSnapshot l)) (\<lambda>committedPvtData.
       act (tm_RemoveStaleAndCommit env committedPvtData)))"

definition kv_CommitPvtDataOfOldBlocks :: "'w ledger_env \<Rightarrow> blocksPvtData \<Rightarrow> TxMissingPvtData \<Rightarrow> ('w, unit) ledgerM" where
  "kv_CommitPvtDataOfOldBlocks env reconciledPvtdata unreconciled =
     withPvtLock (withLedger (\<lambda>l.
       gtry (ask (pv_extractValidPvtData env reconciledPvtdata (lastBlockInSnapshot l))) (\<lambda>hashVerifiedPvtData.
       gtry (applyValidTxPvtDataOfOldBlocks env hashVerifiedPvtData) (\<lambda>_.
       act (pv_CommitPvtDataOfOldBlocks env hashVerifiedPvtData unreconciled)))))"

text \<open>One transaction number of \<open>constructPvtDataAndMissingData\<close>.\<close>

definition missingStep ::
  "'w ledger_env \<Rightarrow> BlockAndPvtData \<Rightarrow> uint64 \<Rightarrow> TxPvtData list \<times> TxMissingPvtData \<Rightarrow> TxPvtData list \<times> TxMissingPvtData" where
  "missingStep env bp txNum = (\<lambda>(pvtData, missing).
     (case bp_PvtData bp txNum of None \<Rightarrow> pvtData | Some d \<Rightarrow> pvtData @ [d],
      case bp_MissingPvtData bp txNum of
        None \<Rightarrow> missing
      | Some ms \<Rightarrow> fold (\<lambda>m. lm_Add env txNum (mp_Namespace m) (mp_Collection m) (mp_IsEligible m)) ms missing))"

definition constructPvtDataAndMissingData :: "'w ledger_env \<Rightarrow> BlockAndPvtData \<Rightarrow> TxPvtData list \<times> TxMissingPvtData" where
  "constructPvtDataAndMissingData env bp =
     fold (missingStep env bp) (map of_nat [0..<length (blk_Data (bp_Block bp))]) ([], Map.empty)"

section \<open>Starting up and recovering\<close>

definition lastPersistedCommitHash :: "'w ledger_env \<Rightarrow> ('w, bytes) ledgerM" where
  "lastPersistedCommitHash env =
     gtry (kv_GetBlockchainInfo env) (\<lambda>height.
       if height = 0 then gret (Inr [])
       else withLedger (\<lambda>l.
         case (case l_bootSnapshotMetadata l of
                 Some m \<Rightarrow> if sn_LastBlockNumber m = height - 1 then Some m else None | None \<Rightarrow> None) of
           Some m \<Rightarrow> gret (ut_HexDecodeString env (sn_LastBlockCommitHashInHex m))
         | None \<Rightarrow>
             gtry (kv_GetBlockByNumber env (height - 1)) (\<lambda>block.
             case blk_Metadata block of
               None \<Rightarrow> gpanic ''nil pointer dereference''
             | Some m \<Rightarrow>
                 if length m < bi_COMMIT_HASH env + 1 then gret (Inr [])
                 else (case pb_UnmarshalMetadata env (m ! bi_COMMIT_HASH env) of
                         Inl err \<Rightarrow> gret (Inl (''error unmarshalling last persisted commit hash: '' @ err))
                       | Inr v \<Rightarrow> gret (Inr v)))))"

definition isPvtDataStoreAheadOfBlockStore :: "'w ledger_env \<Rightarrow> ('w, bool) ledgerM" where
  "isPvtDataStoreAheadOfBlockStore env =
     gtry (ask (bs_GetBlockchainInfo env)) (\<lambda>height.
     gtry (ask (pv_LastCommittedBlockHeight env)) (\<lambda>pvtstoreHeight.
     gret (Inr (pvtstoreHeight > height))))"

fun commitLost_each :: "'w recoverable list \<Rightarrow> BlockAndPvtData \<Rightarrow> ('w, unit) ledgerM" where
  "commitLost_each [] b = gret (Inr ())"
| "commitLost_each (r # rs) b = gtry (act (rc_CommitLostBlock r b)) (\<lambda>_. commitLost_each rs b)"

text \<open>
  \<open>for blockNumber := first; blockNumber <= last; blockNumber++\<close> on uint64 values: with \<open>last\<close> the
  largest one the condition never fails and the loop only ends with an error (\<open>None\<close>: no end).
\<close>

partial_function (option) recommitLostBlocks ::
  "'w ledger_env \<Rightarrow> uint64 \<Rightarrow> uint64 \<Rightarrow> 'w recoverable list \<Rightarrow> 'w kvLedger \<Rightarrow> ((string + unit) go \<times> 'w kvLedger) option" where
  "recommitLostBlocks env blockNumber lastBlockNum recoverables l =
     (if blockNumber \<le> lastBlockNum then
        (case gtry (kv_GetPvtDataAndBlockByNum env blockNumber None) (commitLost_each recoverables) l of
           (Return (Inr _), l') \<Rightarrow> recommitLostBlocks env (blockNumber + 1) lastBlockNum recoverables l'
         | (r, l') \<Rightarrow> Some (r, l'))
      else Some (Return (Inr ()), l))"

text \<open>The messages of the two configurations that recovery refuses.\<close>

definition notRecoverable :: "string \<Rightarrow> string \<Rightarrow> uint64 \<Rightarrow> uint64 \<Rightarrow> string" where
  "notRecoverable dbName ledgerID lastBlockInSnap nextRequiredBlock =
     ''recovery for DB ['' @ dbName @ ''] not possible. Ledger ['' @ ledgerID @
     ''] is created from a snapshot. Last block in snapshot = ['' @ natString (unat lastBlockInSnap) @
     ''], DB needs block ['' @ natString (unat nextRequiredBlock) @ ''] onward''"

definition aheadOfBlockStore :: "string \<Rightarrow> uint64 \<Rightarrow> uint64 \<Rightarrow> string" where
  "aheadOfBlockStore dbName nextRequiredBlock height =
     ''the '' @ dbName @ '' database [height='' @ natString (unat nextRequiredBlock) @
     ''] is ahead of the block store [height='' @ natString (unat height) @ '']. '' @
     ''This is possible when the '' @ dbName @ '' database is not dropped after a ledger reset/rollback. '' @
     ''The '' @ dbName @ '' database can safely be dropped and will be rebuilt up to block store height upon the next peer start''"

text \<open>The loop over the recoverables: which of them to recover and from which block.\<close>

fun recoverers_loop ::
  "string \<Rightarrow> SnapshotMetadata option \<Rightarrow> uint64 \<Rightarrow> 'w recoverable list \<Rightarrow> 'w \<Rightarrow> string + (uint64 \<times> 'w recoverable) list" where
  "recoverers_loop ledgerID boot lastBlockInBlockStore [] w = Inr []"
| "recoverers_loop ledgerID boot lastBlockInBlockStore (r # rs) w =
     (case rc_ShouldRecover r lastBlockInBlockStore w of
        Inl err \<Rightarrow> Inl err
      | Inr (recoverFlag, nextRequiredBlock) \<Rightarrow>
          if (case boot of None \<Rightarrow> False | Some m \<Rightarrow> nextRequiredBlock \<le> sn_LastBlockNumber m)
          then Inl (notRecoverable (rc_Name r) ledgerID (case boot of None \<Rightarrow> 0 | Some m \<Rightarrow> sn_LastBlockNumber m) nextRequiredBlock)
          else if nextRequiredBlock > lastBlockInBlockStore + 1
          then Inl (aheadOfBlockStore (rc_Name r) nextRequiredBlock (lastBlockInBlockStore + 1))
          else
            (case recoverers_loop ledgerID boot lastBlockInBlockStore rs w of
               Inl err \<Rightarrow> Inl err
             | Inr recoverers \<Rightarrow> Inr (if recoverFlag then (nextRequiredBlock, r) # recoverers else recoverers)))"

text \<open>Both databases: the lagging one is first brought level with the other.\<close>

definition recoverBoth ::
  "'w ledger_env \<Rightarrow> uint64 \<Rightarrow> uint64 \<times> 'w recoverable \<Rightarrow> uint64 \<times> 'w recoverable \<Rightarrow> 'w kvLedger \<Rightarrow>
     ((string + unit) go \<times> 'w kvLedger) option" where
  "recoverBoth env lastBlockInBlockStore a b l =
     (case (if fst a > fst b then (b, a) else (a, b)) of
        ((m0, s0), (m1, s1)) \<Rightarrow>
          (case (if m0 \<noteq> m1 then recommitLostBlocks env m0 (m1 - 1) [s0] l else Some (Return (Inr ()), l)) of
             None \<Rightarrow> None
           | Some (Return (Inr _), l') \<Rightarrow> recommitLostBlocks env m1 lastBlockInBlockStore [s0, s1] l'
           | Some (r, l') \<Rightarrow> Some (r, l')))"

text \<open>\<open>info, _ := GetBlockchainInfo()\<close> drops the error and then reads \<open>info.Height\<close> of a nil pointer.\<close>

definition syncStateAndHistoryDBWithBlockstore ::
  "'w ledger_env \<Rightarrow> 'w kvLedger \<Rightarrow> ((string + unit) go \<times> 'w kvLedger) option" where
  "syncStateAndHistoryDBWithBlockstore env l =
     (case bs_GetBlockchainInfo env (l_world l) of
        Inl err \<Rightarrow> Some (Panic ''nil pointer dereference'', l)
      | Inr height \<Rightarrow>
          if height = 0 then Some (Return (Inr ()), l)
          else
            (let last = height - 1;
                 recoverables = rc_txmgr env # (if l_hasHistoryDB l then [rc_historyDB env] else [])
             in case recoverers_loop (l_ledgerID l) (l_bootSnapshotMetadata l) last recoverables (l_world l) of
                  Inl err \<Rightarrow> Some (Return (Inl err), l)
                | Inr [] \<Rightarrow> Some (Return (Inr ()), l)
                | Inr [(n, r)] \<Rightarrow> recommitLostBlocks env n last [r] l
                | Inr (a # b # _) \<Rightarrow> recoverBoth env last a b l))"

definition filterYetToCommitBlocks :: "'w ledger_env \<Rightarrow> blocksPvtData \<Rightarrow> ('w, blocksPvtData) ledgerM" where
  "filterYetToCommitBlocks env blocksPvtData =
     gtry (ask (bs_GetBlockchainInfo env)) (\<lambda>height.
     gret (Inr (filter (\<lambda>(blkNum, _). \<not> blkNum > height - 1) blocksPvtData)))"

definition syncStateDBWithOldBlkPvtdata :: "'w ledger_env \<Rightarrow> ('w, unit) ledgerM" where
  "syncStateDBWithOldBlkPvtdata env =
     gtry (ask (pv_GetLastUpdatedOldBlocksPvtData env)) (\<lambda>blocksPvtData.
     gtry (filterYetToCommitBlocks env blocksPvtData) (\<lambda>blocksPvtData'.
     gtry (applyValidTxPvtDataOfOldBlocks env blocksPvtData') (\<lambda>_.
     act (pv_ResetLastUpdatedOldBlocksList env))))"

definition recoverDBs :: "'w ledger_env \<Rightarrow> 'w kvLedger \<Rightarrow> ((string + unit) go \<times> 'w kvLedger) option" where
  "recoverDBs env l =
     (case syncStateAndHistoryDBWithBlockstore env l of
        None \<Rightarrow> None
      | Some (Return (Inr _), l') \<Rightarrow> Some (syncStateDBWithOldBlkPvtdata env l')
      | Some (r, l') \<Rightarrow> Some (r, l'))"

fun initialize_each :: "('w \<Rightarrow> (string + unit) \<times> 'w) list \<Rightarrow> ('w, unit) ledgerM" where
  "initialize_each [] = gret (Inr ())"
| "initialize_each (sl # sls) = gtry (act sl) (\<lambda>_. initialize_each sls)"

definition initTxMgr :: "'w ledger_env \<Rightarrow> bool \<Rightarrow> ('w, unit) ledgerM" where
  "initTxMgr env typedDeltaValidation =
     gtry (act (tm_New env typedDeltaValidation)) (\<lambda>_.
     gtry (act (tm_NewQueryExecutorNoCollChecks env)) (\<lambda>_.
     gdefer (\<lambda>l. l\<lparr>l_world := tm_Done env (l_world l)\<rparr>) (initialize_each (sl_Initialize env))))"

text \<open>\<open>bcInfo.Height - 1\<close> wraps on an empty chain; that value only reaches the snapshot goroutine.\<close>

definition initSnapshotMgr :: "'w ledger_env \<Rightarrow> ('w, unit) ledgerM" where
  "initSnapshotMgr env =
     withLedger (\<lambda>l.
       gtry (act (sm_newBookkeeper env (l_ledgerID l))) (\<lambda>_.
       gtry (ask (bs_GetBlockchainInfo env)) (\<lambda>height.
       gbind (run (sm_processEvents env (height - 1))) (\<lambda>_.
         if height \<noteq> 0 then act (sm_regenrateMissedSnapshot env (height - 1)) else gret (Inr ())))))"

definition kv_NewQueryExecutor :: "'w ledger_env \<Rightarrow> ('w, unit) ledgerM" where
  "kv_NewQueryExecutor env = gbind (act (ut_GenerateUUID env)) (\<lambda>uuid. act (tm_NewQueryExecutor env uuid))"

text \<open>Queries that run inside a query executor \<open>qe\<close>, released by the deferred \<open>Done\<close>.\<close>

definition withQueryExecutor :: "'w ledger_env \<Rightarrow> ('w, unit) ledgerM \<Rightarrow> ('w, 'a) ledgerM \<Rightarrow> ('w, 'a) ledgerM" where
  "withQueryExecutor env qe m =
     gtry qe (\<lambda>_. gdefer (\<lambda>l. l\<lparr>l_world := tm_Done env (l_world l)\<rparr>) m)"

definition listLegacyChaincodesDefined :: "'w ledger_env \<Rightarrow> ('w, ChaincodeDefinition list) ledgerM" where
  "listLegacyChaincodesDefined env =
     withLedger (\<lambda>l. withQueryExecutor env (act (tm_NewQueryExecutor env '''')) (
       gtry (ask (ci_AllChaincodesInfo env (l_ledgerID l))) (\<lambda>definedChaincodes.
       gret (Inr (map (\<lambda>c. \<lparr>cd_Name = dc_Name c, cd_Version = dc_Version c, cd_Hash = dc_Hash c,
                            cd_CollectionConfigs = dc_ExplicitCollectionConfigPkg c\<rparr>)
                    (filter dc_IsLegacy definedChaincodes))))))"

definition withMessage :: "string \<Rightarrow> ('w, 'a) ledgerM \<Rightarrow> ('w, 'a) ledgerM" where
  "withMessage msg m = gbind m (\<lambda>r. gret (case r of Inl err \<Rightarrow> Inl (msg @ '': '' @ err) | Inr a \<Rightarrow> Inr a))"

definition registerStateDBIndexCreatorForChaincodeLifecycleEvents :: "'w ledger_env \<Rightarrow> bool \<Rightarrow> ('w, unit) ledgerM" where
  "registerStateDBIndexCreatorForChaincodeLifecycleEvents env bootstrappingFromSnapshot =
     withLedger (\<lambda>l.
       if \<not> bootstrappingFromSnapshot then
         gtry (act (ev_RegisterListener env (l_ledgerID l) False)) (\<lambda>_.
         gbind (run (ev_Register env (l_ledgerID l))) (\<lambda>_. gret (Inr ())))
       else
         (let msg = ''error while creating statdb indexes after bootstrapping from snapshot''
          in gtry (withMessage msg (act (ev_RegisterListener env (l_ledgerID l) True))) (\<lambda>_.
             gtry (withMessage msg (listLegacyChaincodesDefined env)) (\<lambda>legacyChaincodes.
             withMessage msg (act (ev_RegisterAndInvokeFor env legacyChaincodes (l_ledgerID l)))))))"

text \<open>
  The initializer, as far as its fields are not handles of the environment, and the hash function
  that is built from its hash provider for the transaction manager.
\<close>

record lgrInitializer =
  in_ledgerID :: string
  in_initializingFromSnapshot :: bool
  in_bootSnapshotMetadata :: "SnapshotMetadata option"
  in_hasHistoryDB :: bool
  in_genesisBlock :: "Block option"

definition rwsetHashFunc :: "'w ledger_env \<Rightarrow> bytes \<Rightarrow> string + bytes" where
  "rwsetHashFunc env data =
     (case hp_GetHash env of
        Inl err \<Rightarrow> Inl err
      | Inr _ \<Rightarrow> (case hp_Write env data of Some err \<Rightarrow> Inl err | None \<Rightarrow> Inr (hp_Sum env data)))"

definition freshLedger :: "lgrInitializer \<Rightarrow> 'w \<Rightarrow> 'w kvLedger" where
  "freshLedger init w =
     \<lparr>l_ledgerID = in_ledgerID init, l_bootSnapshotMetadata = in_bootSnapshotMetadata init,
      l_hasHistoryDB = in_hasHistoryDB init, l_commitHash = [], l_isPvtstoreAheadOfBlkstore = False,
      l_commitNotifier = None, l_blockAPIsRWLock = \<lparr>lk_readers = 0, lk_writer = False\<rparr>, l_pvtdataStoreLock = False,
      l_world = w\<rparr>"

text \<open>\<open>newKVLedger\<close>; \<open>None\<close> is a recovery that does not end.\<close>

definition newKVLedger ::
  "'w ledger_env \<Rightarrow> lgrInitializer \<Rightarrow> 'w \<Rightarrow> ((string + unit) go \<times> 'w kvLedger) option" where
  "newKVLedger env init w =
     (case
        gtry (initTxMgr env (typedDeltaCapabilityEnabled env (in_genesisBlock init) w)) (\<lambda>_.
        gbind (run (pv_Init env)) (\<lambda>_.
        gtry (lastPersistedCommitHash env) (\<lambda>commitHash.
        gbind (gmodify (\<lambda>l. l\<lparr>l_commitHash := commitHash\<rparr>)) (\<lambda>_.
        gtry (isPvtDataStoreAheadOfBlockStore env) (\<lambda>isAhead.
        gbind (gmodify (\<lambda>l. l\<lparr>l_isPvtstoreAheadOfBlkstore := isAhead\<rparr>)) (\<lambda>_.
          if ev_hasIndexCreator env
          then registerStateDBIndexCreatorForChaincodeLifecycleEvents env (in_initializingFromSnapshot init)
          else gret (Inr ()))))))) (freshLedger init w) of
        (Return (Inr _), l1) \<Rightarrow>
          (case recoverDBs env l1 of
             None \<Rightarrow> None
           | Some (Return (Inr _), l2) \<Rightarrow> Some (initSnapshotMgr env l2)
           | Some (r, l2) \<Rightarrow> Some (r, l2))
      | (r, l1) \<Rightarrow> Some (r, l1))"

section \<open>Committing a block\<close>

definition addBlockCommitHash :: "'w ledger_env \<Rightarrow> Block \<Rightarrow> bytes \<Rightarrow> ('w kvLedger, Block) goM" where
  "addBlockCommitHash env block updateBatchBytes =
     gbind (metadataAt block (bi_TRANSACTIONS_FILTER env)) (\<lambda>txValidationCode.
     withLedger (\<lambda>l.
       let valueBytes = pb_EncodeVarint env (of_nat (length txValidationCode)) @ txValidationCode @ updateBatchBytes @ l_commitHash l;
           commitHash = ut_ComputeSHA256 env valueBytes
       in gbind (gmodify (\<lambda>l. l\<lparr>l_commitHash := commitHash\<rparr>)) (\<lambda>_.
          gbind (metadataAt block (bi_COMMIT_HASH env)) (\<lambda>_.
          gret (block\<lparr>blk_Metadata := Some ((the (blk_Metadata block))[bi_COMMIT_HASH env := pb_MarshalMetadata env commitHash])\<rparr>)))))"

definition purgeMarkersOf :: "PurgeUpdate list \<Rightarrow> PurgeMarker list" where
  "purgeMarkersOf us =
     map (\<lambda>u. \<lparr>pm_Ns = pu_Namespace u, pm_Coll = pu_CollectionName u, pm_PvtkeyHash = bytes_of_string (pu_KeyHash u),
               pm_TxNum = vh_TxNum (pu_Version u)\<rparr>) us"

fun pvtKeys_loop ::
  "'w ledger_env \<Rightarrow> (PvtdataCompositeKey \<rightharpoonup> VersionHeight) \<Rightarrow> PurgeUpdate list \<Rightarrow> ('w, PvtdataCompositeKey \<rightharpoonup> VersionHeight) ledgerM" where
  "pvtKeys_loop env m [] = gret (Inr m)"
| "pvtKeys_loop env m (u # us) =
     gtry (ask (pv_FetchPrivateDataRawKey env (pu_Namespace u) (pu_CollectionName u) (bytes_of_string (pu_KeyHash u)))) (\<lambda>pvtKey.
       if pvtKey = '''' then pvtKeys_loop env m us
       else pvtKeys_loop env
              (m(\<lparr>pk_Namespace = pu_Namespace u, pk_CollectionName = pu_CollectionName u, pk_Key = pvtKey\<rparr> \<mapsto> pu_Version u)) us)"

definition commitToPvtAndBlockStore :: "'w ledger_env \<Rightarrow> BlockAndPvtData \<Rightarrow> PurgeMarker list \<Rightarrow> ('w, unit) ledgerM" where
  "commitToPvtAndBlockStore env blockAndPvtdata markers =
     gtry (ask (pv_LastCommittedBlockHeight env)) (\<lambda>pvtdataStoreHt.
     withLedger (\<lambda>l.
       let blockNum = blk_Number (bp_Block blockAndPvtdata);
           addBlock = gtry (act (bs_AddBlock env (bp_Block blockAndPvtdata))) (\<lambda>_.
             if pvtdataStoreHt = blockNum + 1
             then gbind (gmodify (\<lambda>l. l\<lparr>l_isPvtstoreAheadOfBlkstore := False\<rparr>)) (\<lambda>_. gret (Inr ()))
             else gret (Inr ()))
       in if \<not> l_isPvtstoreAheadOfBlkstore l then
            (case constructPvtDataAndMissingData env blockAndPvtdata of
               (pvtData, missingPvtData) \<Rightarrow>
                 (let write = gtry (act (pv_Commit env blockNum pvtData missingPvtData markers)) (\<lambda>_. addBlock)
                  in if length markers > 0 then withPvtLock write else write))
          else addBlock))"

definition txInfoOf :: "TxStatInfo \<Rightarrow> CommitNotificationTxInfo" where
  "txInfoOf t = \<lparr>ni_TxType = ts_TxType t, ni_TxID = ts_TxIDFromChannelHeader t, ni_ValidationCode = ts_ValidationCode t,
     ni_ChaincodeID = ts_ChaincodeID t, ni_ChaincodeEventData = ts_ChaincodeEventData t\<rparr>"

fun notification_loop :: "string set \<Rightarrow> TxStatInfo list \<Rightarrow> CommitNotificationTxInfo list" where
  "notification_loop txsByID [] = []"
| "notification_loop txsByID (t # ts) =
     (let txID = ts_TxIDFromChannelHeader t
      in if txID = '''' \<or> txID \<in> txsByID then notification_loop txsByID ts
         else txInfoOf t # notification_loop (insert txID txsByID) ts)"

definition sendCommitNotification :: "uint64 \<Rightarrow> TxStatInfo list \<Rightarrow> ('w kvLedger, unit) goM" where
  "sendCommitNotification blockNum txStatsInfo =
     gmodify (\<lambda>l.
       case l_commitNotifier l of
         None \<Rightarrow> l
       | Some n \<Rightarrow>
           if cn_done n then l\<lparr>l_commitNotifier := None\<rparr>
           else l\<lparr>l_commitNotifier := Some (n\<lparr>cn_sent := cn_sent n @ [(blockNum, notification_loop {} txStatsInfo)]\<rparr>)\<rparr>)"

definition CommitNotificationsChannel :: "('w, commitNotifier) ledgerM" where
  "CommitNotificationsChannel =
     withLedger (\<lambda>l.
       if l_commitNotifier l \<noteq> None then gret (Inl ''only one commit notifications channel is allowed at a time'')
       else
         (let n = \<lparr>cn_done = False, cn_sent = []\<rparr>
          in gbind (gmodify (\<lambda>l. l\<lparr>l_commitNotifier := Some n\<rparr>)) (\<lambda>_. gret (Inr n))))"

definition orPanic :: "string \<Rightarrow> ('w, unit) ledgerM \<Rightarrow> ('w kvLedger, unit) goM" where
  "orPanic msg m = gbind m (\<lambda>r. case r of Inl err \<Rightarrow> gpanic (msg @ '': '' @ err) | Inr _ \<Rightarrow> gret ())"

definition fetchPvtData :: "'w ledger_env \<Rightarrow> bool \<Rightarrow> BlockAndPvtData \<Rightarrow> ('w, BlockAndPvtData) ledgerM" where
  "fetchPvtData env fetchPvtDataFromLedger bp =
     (if fetchPvtDataFromLedger then
        gtry (ask (pv_GetPvtDataByBlockNum env (blk_Number (bp_Block bp)) None)) (\<lambda>txPvtData.
        gret (Inr (bp\<lparr>bp_PvtData := convertTxPvtDataArrayToMap txPvtData\<rparr>)))
      else gret (Inr bp))"

text \<open>The block statistics; the three intervals are what the clock measured.\<close>

definition updateBlockStats :: "'w ledger_env \<Rightarrow> int \<Rightarrow> int \<Rightarrow> int \<Rightarrow> TxStatInfo list \<Rightarrow> ('w kvLedger, unit) goM" where
  "updateBlockStats env blockProcessingTime blockstorageAndPvtdataCommitTime statedbCommitTime txstatsInfo =
     gbind (run (st_updateBlockProcessingTime env blockProcessingTime)) (\<lambda>_.
     gbind (run (st_updateBlockstorageAndPvtdataCommitTime env blockstorageAndPvtdataCommitTime)) (\<lambda>_.
     gbind (run (st_updateStatedbCommitTime env statedbCommitTime)) (\<lambda>_.
     run (st_updateTransactionsStats env txstatsInfo))))"

text \<open>The part of \<open>commit\<close> after the block is stored: the databases, the statistics and the notification.\<close>

definition commitToDatabases ::
  "'w ledger_env \<Rightarrow> uint64 \<Rightarrow> Block \<Rightarrow> (PvtdataCompositeKey \<rightharpoonup> VersionHeight) \<Rightarrow> TxStatInfo list \<Rightarrow> ('w, unit) ledgerM" where
  "commitToDatabases env blockNo block pvtKeysToDelete txstatsInfo =
     gbind (run (tm_UpdateBatch env pvtKeysToDelete)) (\<lambda>_.
     gbind (orPanic ''error during commit to txmgr'' (act (tm_Commit env))) (\<lambda>_.
     withLedger (\<lambda>l.
     gbind (if l_hasHistoryDB l
            then orPanic ''Error during commit to history db'' (act (hd_Commit env block)) else gret ()) (\<lambda>_.
     gbind (ask (ck_elapsed env)) (\<lambda>(blockProcessing, blockstorageAndPvtdata, commitState).
     gbind (updateBlockStats env blockProcessing blockstorageAndPvtdata commitState txstatsInfo) (\<lambda>_.
     gbind (sendCommitNotification blockNo txstatsInfo) (\<lambda>_.
     gret (Inr ()))))))))"

text \<open>The part of \<open>commit\<close> that runs with the write lock held.\<close>

definition commitUnderLock ::
  "'w ledger_env \<Rightarrow> uint64 \<Rightarrow> BlockAndPvtData \<Rightarrow> PurgeUpdate list \<Rightarrow> TxStatInfo list \<Rightarrow> ('w, unit) ledgerM" where
  "commitUnderLock env blockNo bp appInitiatedPurgeUpdates txstatsInfo =
     withWLock (
       gtry (pvtKeys_loop env Map.empty appInitiatedPurgeUpdates) (\<lambda>pvtKeysToDelete.
       gtry (commitToPvtAndBlockStore env bp (purgeMarkersOf appInitiatedPurgeUpdates)) (\<lambda>_.
       commitToDatabases env blockNo (bp_Block bp) pvtKeysToDelete txstatsInfo)))"

definition kv_commit :: "'w ledger_env \<Rightarrow> BlockAndPvtData \<Rightarrow> bool \<Rightarrow> ('w, unit) ledgerM" where
  "kv_commit env pvtdataAndBlock fetchPvtDataFromLedger =
     gtry (fetchPvtData env fetchPvtDataFromLedger pvtdataAndBlock) (\<lambda>bp0.
     gtry (act (tm_ValidateAndPrepare env bp0)) (\<lambda>(appInitiatedPurgeUpdates, txstatsInfo, updateBatchBytes, bp1).
     withLedger (\<lambda>l.
     gbind (if blk_Number (bp_Block bp1) = 1 \<or> length (l_commitHash l) \<noteq> 0
            then addBlockCommitHash env (bp_Block bp1) updateBatchBytes else gret (bp_Block bp1)) (\<lambda>block.
     commitUnderLock env (blk_Number (bp_Block pvtdataAndBlock)) (bp1\<lparr>bp_Block := block\<rparr>)
       appInitiatedPurgeUpdates txstatsInfo))))"

definition CommitLegacy :: "'w ledger_env \<Rightarrow> BlockAndPvtData \<Rightarrow> bool \<Rightarrow> ('w, unit) ledgerM" where
  "CommitLegacy env pvtdataAndBlock fetchPvtDataFromLedger =
     (let blockNumber = blk_Number (bp_Block pvtdataAndBlock)
      in gbind (run (sm_commitStart env blockNumber)) (\<lambda>_.
         gtry (kv_commit env pvtdataAndBlock fetchPvtDataFromLedger) (\<lambda>_.
         gbind (run (sm_commitDone env blockNumber)) (\<lambda>_. gret (Inr ())))))"

section \<open>Collections\<close>

definition CollectionInfo :: "'w ledger_env \<Rightarrow> string \<Rightarrow> string \<Rightarrow> ('w, string) ledgerM" where
  "CollectionInfo env chaincodeName collectionName =
     withLedger (\<lambda>l. withQueryExecutor env (kv_NewQueryExecutor env) (ask (ci_CollectionInfo env (l_ledgerID l) chaincodeName collectionName)))"

text \<open>Explicit collections with the block they were committed in, then the implicit ones appended.\<close>

definition MostRecentCollectionConfigBelow ::
  "'w ledger_env \<Rightarrow> uint64 \<Rightarrow> string \<Rightarrow> ('w, (string list \<times> uint64) option) ledgerM" where
  "MostRecentCollectionConfigBelow env blockNum chaincodeName =
     gtry (withMessage ''error while retrieving explicit collections''
             (ask (ch_MostRecentCollectionConfigBelow env blockNum chaincodeName))) (\<lambda>explicitCollections.
     withLedger (\<lambda>l. withQueryExecutor env (kv_NewQueryExecutor env) (
       gtry (withMessage ''error while retrieving implicit collections''
               (ask (ci_ImplicitCollections env (l_ledgerID l) chaincodeName))) (\<lambda>implicitCollections.
       gret (Inr (case explicitCollections of
                    Some (cs, n) \<Rightarrow> Some (cs @ (case implicitCollections of None \<Rightarrow> [] | Some is \<Rightarrow> is), n)
                  | None \<Rightarrow> (case implicitCollections of None \<Rightarrow> None | Some is \<Rightarrow> Some (is, 0))))))))"

section \<open>Iterators, executors and shutdown\<close>

text \<open>A block iterator is a handle of the block store.\<close>

definition kv_GetBlocksIterator :: "'w ledger_env \<Rightarrow> uint64 \<Rightarrow> ('w, nat) ledgerM" where
  "kv_GetBlocksIterator env startBlockNumber = ask (bs_RetrieveBlocks env startBlockNumber)"

text \<open>The read lock is taken and released after the block was obtained, as a synchronisation point.\<close>

definition blocksItr_Next :: "'w ledger_env \<Rightarrow> nat \<Rightarrow> ('w, Block option) ledgerM" where
  "blocksItr_Next env itr =
     gtry (act (it_Next env itr)) (\<lambda>block. gbind (withRLock (gret ())) (\<lambda>_. gret (Inr block)))"

definition blocksItr_Close :: "'w ledger_env \<Rightarrow> nat \<Rightarrow> ('w kvLedger, unit) goM" where
  "blocksItr_Close env itr = run (it_Close env itr)"

definition kv_NewTxSimulator :: "'w ledger_env \<Rightarrow> string \<Rightarrow> ('w, unit) ledgerM" where
  "kv_NewTxSimulator env txid = act (tm_NewTxSimulator env txid)"

text \<open>Without a history database the executor is nil.\<close>

definition kv_NewHistoryQueryExecutor :: "'w ledger_env \<Rightarrow> ('w, unit option) ledgerM" where
  "kv_NewHistoryQueryExecutor env =
     withLedger (\<lambda>l.
       if l_hasHistoryDB l then gtry (act (hd_NewQueryExecutor env)) (\<lambda>qe. gret (Inr (Some qe)))
       else gret (Inr None))"

text \<open>A tracker of missing private data starts at the largest block number.\<close>

record missingPvtdataTracker =
  mt_nextStartingBlockNum :: uint64

definition GetMissingPvtDataTracker :: "('w, missingPvtdataTracker) ledgerM" where
  "GetMissingPvtDataTracker = gret (Inr \<lparr>mt_nextStartingBlockNum = - 1\<rparr>)"

definition kv_Close :: "'w ledger_env \<Rightarrow> ('w kvLedger, unit) goM" where
  "kv_Close env = gbind (run (bs_Shutdown env)) (\<lambda>_. gbind (run (tm_Shutdown env)) (\<lambda>_. run (sm_shutdown env)))"

text \<open>The adaptor hands lifecycle events to a listener of the legacy lifecycle.\<close>

definition HandleChaincodeDeploy :: "'w ledger_env \<Rightarrow> ChaincodeDefinition \<Rightarrow> bytes \<Rightarrow> ('w, unit) ledgerM" where
  "HandleChaincodeDeploy env chaincodeDefinition dbArtifactsTar =
     act (ev_HandleChaincodeDeploy env
       \<lparr>cd_Name = cd_Name chaincodeDefinition, cd_Version = cd_Version chaincodeDefinition,
        cd_Hash = cd_Hash chaincodeDefinition, cd_CollectionConfigs = cd_CollectionConfigs chaincodeDefinition\<rparr> dbArtifactsTar)"

definition ChaincodeDeployDone :: "'w ledger_env \<Rightarrow> bool \<Rightarrow> ('w kvLedger, unit) goM" where
  "ChaincodeDeployDone env succeeded = run (ev_ChaincodeDeployDone env succeeded)"

end
