(* ===== verification/KV_Commit.thy ===== *)
theory KV_Commit
  imports KV_Ledger "HOL-Library.Sublist"
begin

text \<open>
  Properties of the ledger's commit: the order in which the stores are written, the locks, the
  commit hash and the notifications.
\<close>

section \<open>The order of the writes\<close>

datatype store_op = OpValidate | OpPvtData uint64 | OpAddBlock Block | OpState | OpHistory Block

text \<open>
  A log of the writing operations, kept by stores that append each one they are asked to do, with
  whether it failed.
\<close>

type_synonym store_log = "(store_op \<times> bool) list"

definition recordsOps :: "'w ledger_env \<Rightarrow> ('w \<Rightarrow> store_log) \<Rightarrow> bool" where
  "recordsOps env log \<longleftrightarrow>
     (\<forall>b w. log (snd (tm_ValidateAndPrepare env b w)) = log w @ [(OpValidate, isl (fst (tm_ValidateAndPrepare env b w)))]) \<and>
     (\<forall>n d m p w. log (snd (pv_Commit env n d m p w)) = log w @ [(OpPvtData n, isl (fst (pv_Commit env n d m p w)))]) \<and>
     (\<forall>b w. log (snd (bs_AddBlock env b w)) = log w @ [(OpAddBlock b, isl (fst (bs_AddBlock env b w)))]) \<and>
     (\<forall>m w. log (tm_UpdateBatch env m w) = log w) \<and>
     (\<forall>w. log (snd (tm_Commit env w)) = log w @ [(OpState, isl (fst (tm_Commit env w)))]) \<and>
     (\<forall>b w. log (snd (hd_Commit env b w)) = log w @ [(OpHistory b, isl (fst (hd_Commit env b w)))]) \<and>
     (\<forall>d ts w. log (st_updateBlockProcessingTime env d w) = log w \<and> log (st_updateBlockstorageAndPvtdataCommitTime env d w) = log w \<and>
        log (st_updateStatedbCommitTime env d w) = log w \<and> log (st_updateTransactionsStats env ts w) = log w)"

text \<open>The stores that \<open>commitToPvtAndBlockStore\<close> writes, and all of them.\<close>

definition storeOps :: "bool \<Rightarrow> Block \<Rightarrow> store_op list" where
  "storeOps ahead b = (if ahead then [] else [OpPvtData (blk_Number b)]) @ [OpAddBlock b]"

definition commitOps :: "bool \<Rightarrow> bool \<Rightarrow> Block \<Rightarrow> store_op list" where
  "commitOps ahead hist b = OpValidate # storeOps ahead b @ [OpState] @ (if hist then [OpHistory b] else [])"

abbreviation logOf :: "('w \<Rightarrow> store_log) \<Rightarrow> 'w kvLedger \<Rightarrow> store_log" where
  "logOf log l \<equiv> log (l_world l)"

text \<open>Operations that succeeded, followed by at most one that failed.\<close>

fun failedOp :: "store_op option \<Rightarrow> store_op list" where
  "failedOp None = []"
| "failedOp (Some x) = [x]"

definition asked :: "store_op list \<Rightarrow> store_op option \<Rightarrow> store_log" where
  "asked ops failed = map (\<lambda>x. (x, False)) ops @ map (\<lambda>x. (x, True)) (failedOp failed)"

lemmas ledger_defs = go_defs ask_def act_def run_def withLedger_def withRLock_def withWLock_def withPvtLock_def

lemma recordsOpsD:
  assumes "recordsOps env log"
  shows "tm_ValidateAndPrepare env b w = (x, w') \<Longrightarrow> log w' = log w @ [(OpValidate, isl x)]"
    "pv_Commit env n d m p w = (y, w') \<Longrightarrow> log w' = log w @ [(OpPvtData n, isl y)]"
    "bs_AddBlock env blk w = (y, w') \<Longrightarrow> log w' = log w @ [(OpAddBlock blk, isl y)]"
    "tm_Commit env w = (y, w') \<Longrightarrow> log w' = log w @ [(OpState, isl y)]"
    "hd_Commit env blk w = (y, w') \<Longrightarrow> log w' = log w @ [(OpHistory blk, isl y)]"
    "log (tm_UpdateBatch env ks w) = log w"
    "log (st_updateBlockProcessingTime env x1 w) = log w" "log (st_updateBlockstorageAndPvtdataCommitTime env x1 w) = log w"
    "log (st_updateStatedbCommitTime env x1 w) = log w" "log (st_updateTransactionsStats env ts w) = log w"
  using assms unfolding recordsOps_def by (metis fst_conv snd_conv)+

lemma pvtKeys_loop_pure: "pvtKeys_loop env m us l = (r, l') \<Longrightarrow> l' = l \<and> (\<forall>p. r \<noteq> Panic p)"
  by (induction env m us arbitrary: l rule: pvtKeys_loop.induct)
     (auto simp: ledger_defs split: sum.splits if_splits)

lemma addBlockCommitHash_keeps:
  "addBlockCommitHash env block batch l = (r, l') \<Longrightarrow>
     l_world l' = l_world l \<and> l_isPvtstoreAheadOfBlkstore l' = l_isPvtstoreAheadOfBlkstore l \<and>
     l_hasHistoryDB l' = l_hasHistoryDB l \<and> l_blockAPIsRWLock l' = l_blockAPIsRWLock l \<and>
     (\<forall>b. r = Return b \<longrightarrow> blk_Number b = blk_Number block)"
  by (auto simp: addBlockCommitHash_def metadataAt_def ledger_defs Let_def split: option.splits if_splits)

lemma fetchPvtData_pure:
  "fetchPvtData env f bp l = (r, l') \<Longrightarrow> l' = l \<and> (\<forall>p. r \<noteq> Panic p)"
  by (auto simp: fetchPvtData_def ledger_defs split: sum.splits if_splits)

lemma fetchPvtData_block: "fetchPvtData env f bp l = (Return (Inr bp0), l') \<Longrightarrow> bp_Block bp0 = bp_Block bp"
  by (auto simp: fetchPvtData_def ledger_defs split: sum.splits if_splits)

text \<open>Taking and releasing the write lock.\<close>

abbreviation locked :: "'w kvLedger \<Rightarrow> 'w kvLedger" where
  "locked l \<equiv> l\<lparr>l_blockAPIsRWLock := (l_blockAPIsRWLock l)\<lparr>lk_writer := True\<rparr>\<rparr>"

abbreviation unlocked :: "'w kvLedger \<Rightarrow> 'w kvLedger" where
  "unlocked l \<equiv> l\<lparr>l_blockAPIsRWLock := (l_blockAPIsRWLock l)\<lparr>lk_writer := False\<rparr>\<rparr>"

lemma commitToPvtAndBlockStore_returns: "commitToPvtAndBlockStore env bp ms l \<noteq> (Panic p, l')"
  by (auto simp: commitToPvtAndBlockStore_def ledger_defs Let_def split: sum.splits prod.splits if_splits)

text \<open>How the writes to the two stores end; \<open>w0\<close> is the world between them.\<close>

definition storedPvt :: "'w ledger_env \<Rightarrow> BlockAndPvtData \<Rightarrow> PurgeMarker list \<Rightarrow> 'w kvLedger \<Rightarrow> (string + unit) \<times> 'w" where
  "storedPvt env bp ms l =
     (if l_isPvtstoreAheadOfBlkstore l then (Inr (), l_world l)
      else (case constructPvtDataAndMissingData env bp of
              (d, m) \<Rightarrow> pv_Commit env (blk_Number (bp_Block bp)) d m ms (l_world l)))"

lemma commitToPvtAndBlockStore_cases:
  assumes "commitToPvtAndBlockStore env bp ms l = (r, l')"
  obtains (unread) e where "r = Return (Inl e)" "l' = l"
  | (no_pvt) e w0 where "storedPvt env bp ms l = (Inl e, w0)" "r = Return (Inl e)" "l_world l' = w0"
      "l_hasHistoryDB l' = l_hasHistoryDB l" "l_isPvtstoreAheadOfBlkstore l' = l_isPvtstoreAheadOfBlkstore l"
  | (no_block) e w0 w1 where "storedPvt env bp ms l = (Inr (), w0)" "bs_AddBlock env (bp_Block bp) w0 = (Inl e, w1)"
      "r = Return (Inl e)" "l_world l' = w1" "l_hasHistoryDB l' = l_hasHistoryDB l"
      "l_isPvtstoreAheadOfBlkstore l' = l_isPvtstoreAheadOfBlkstore l"
  | (written) w0 w1 h where "pv_LastCommittedBlockHeight env (l_world l) = Inr h" "storedPvt env bp ms l = (Inr (), w0)"
      "bs_AddBlock env (bp_Block bp) w0 = (Inr (), w1)" "r = Return (Inr ())" "l_world l' = w1" "l_hasHistoryDB l' = l_hasHistoryDB l"
      "l_isPvtstoreAheadOfBlkstore l' = (l_isPvtstoreAheadOfBlkstore l \<and> h \<noteq> blk_Number (bp_Block bp) + 1)"
proof (cases "pv_LastCommittedBlockHeight env (l_world l)")
  case (Inl e)
  then show thesis using assms by (intro unread [of e]) (simp_all add: commitToPvtAndBlockStore_def ledger_defs)
next
  case (Inr h)
  obtain x w0 where x: "storedPvt env bp ms l = (x, w0)" by fastforce
  obtain y w1 where y: "bs_AddBlock env (bp_Block bp) w0 = (y, w1)" by fastforce
  obtain d m where dm: "constructPvtDataAndMissingData env bp = (d, m)" by fastforce
  note defs = commitToPvtAndBlockStore_def ledger_defs Let_def storedPvt_def dm Inr
  show thesis
  proof (cases x)
    case x': (Inl e)
    then show thesis using assms x by (intro no_pvt [of e w0]) (auto simp: defs split: if_splits)
  next
    case x': (Inr u)
    show thesis
    proof (cases y)
      case y': (Inl e)
      then show thesis using assms x x' y by (intro no_block [of w0 e w1]) (auto simp: defs split: if_splits)
    next
      case y': (Inr u')
      then show thesis using assms x x' y Inr by (intro written [of h w0 w1]) (auto simp: defs split: if_splits)
    qed
  qed
qed

lemma commitToPvtAndBlockStore_lock:
  "commitToPvtAndBlockStore env bp ms l = (r, l') \<Longrightarrow> l_blockAPIsRWLock l' = l_blockAPIsRWLock l"
  by (auto simp: commitToPvtAndBlockStore_def ledger_defs Let_def split: sum.splits prod.splits if_splits)

lemma commitToPvtAndBlockStore_ops:
  assumes rec: "recordsOps env log" and "commitToPvtAndBlockStore env bp ms l = (r, l')"
  shows "\<exists>ops failed rest. logOf log l' = logOf log l @ asked ops failed \<and>
    storeOps (l_isPvtstoreAheadOfBlkstore l) (bp_Block bp) = ops @ failedOp failed @ rest \<and>
    (r = Return (Inr ()) \<longleftrightarrow> failed = None \<and> rest = [])"
proof -
  let ?pvt = "if l_isPvtstoreAheadOfBlkstore l then [] else [OpPvtData (blk_Number (bp_Block bp))]"
  have pvt: "log w0 = logOf log l @ map (\<lambda>x. (x, isl x0)) ?pvt" if "storedPvt env bp ms l = (x0, w0)" for x0 w0
    using that recordsOpsD(2) [OF rec] by (auto simp: storedPvt_def split: if_splits prod.splits)
  note add = recordsOpsD(3) [OF rec]
  from assms(2) show ?thesis
  proof (cases rule: commitToPvtAndBlockStore_cases)
    case (unread e)
    then show ?thesis by (intro exI [of _ "[]"] exI [of _ None] exI [of _ "storeOps (l_isPvtstoreAheadOfBlkstore l) (bp_Block bp)"]) (auto simp: asked_def storeOps_def)
  next
    case (no_pvt e w0)
    then have "\<not> l_isPvtstoreAheadOfBlkstore l" by (auto simp: storedPvt_def)
    with pvt [OF no_pvt(1)] no_pvt show ?thesis
      by (intro exI [of _ "[]"] exI [of _ "Some (OpPvtData (blk_Number (bp_Block bp)))"] exI [of _ "[OpAddBlock (bp_Block bp)]"]) (auto simp: asked_def storeOps_def)
  next
    case (no_block e w0 w1)
    with pvt [OF no_block(1)] add [OF no_block(2)] show ?thesis
      by (intro exI [of _ ?pvt] exI [of _ "Some (OpAddBlock (bp_Block bp))"] exI [of _ "[]"]) (auto simp: asked_def storeOps_def)
  next
    case (written w0 w1 h)
    with pvt [OF written(2)] add [OF written(3)] show ?thesis
      by (intro exI [of _ "?pvt @ [OpAddBlock (bp_Block bp)]"] exI [of _ None] exI [of _ "[]"]) (auto simp: asked_def storeOps_def)
  qed
qed

text \<open>After the stores the state and history databases are written, or the commit panics.\<close>

definition dbOps :: "bool \<Rightarrow> Block \<Rightarrow> store_op list" where
  "dbOps hist b = OpState # (if hist then [OpHistory b] else [])"

lemma commitToDatabases_ops:
  assumes rec: "recordsOps env log" and run: "commitToDatabases env n b ks ts l = (r, l')"
  shows "\<exists>ops failed rest. logOf log l' = logOf log l @ asked ops failed \<and>
    dbOps (l_hasHistoryDB l) b = ops @ failedOp failed @ rest \<and> (r = Return (Inr ()) \<longleftrightarrow> failed = None \<and> rest = []) \<and>
    (failed = None \<longrightarrow> rest = []) \<and> (failed \<noteq> None \<longrightarrow> (\<exists>p. r = Panic p)) \<and> l_blockAPIsRWLock l' = l_blockAPIsRWLock l"
proof -
  obtain c w1 where c: "tm_Commit env (tm_UpdateBatch env ks (l_world l)) = (c, w1)" by fastforce
  obtain x w2 where x: "hd_Commit env b w1 = (x, w2)" by fastforce
  note logs = recordsOpsD(4) [OF rec c] recordsOpsD(5) [OF rec x] recordsOpsD(6-10) [OF rec]
  note defs = commitToDatabases_def orPanic_def sendCommitNotification_def updateBlockStats_def ledger_defs asked_def dbOps_def
  show ?thesis
  proof (cases "isl c")
    case True
    then show ?thesis using run c logs
      by (intro exI [of _ "[]"] exI [of _ "Some OpState"] exI [of _ "tl (dbOps (l_hasHistoryDB l) b)"]) (auto simp: defs split: sum.splits)
  next
    case c': False
    show ?thesis
    proof (cases "l_hasHistoryDB l \<and> isl x")
      case True
      then show ?thesis using run c c' x logs
        by (intro exI [of _ "[OpState]"] exI [of _ "Some (OpHistory b)"] exI [of _ "[]"]) (auto simp: defs split: sum.splits)
    next
      case False
      then show ?thesis using run c c' x logs
        by (intro exI [of _ "dbOps (l_hasHistoryDB l) b"] exI [of _ None] exI [of _ "[]"])
           (auto simp: defs split: sum.splits option.splits prod.splits if_splits)
    qed
  qed
qed

lemma commitUnderLock_cases:
  assumes "commitUnderLock env n bp us ts l = (r, l')"
  obtains (no_keys) e where "r = Return (Inl e)" "l' = unlocked l"
  | (no_stores) e l1 where "commitToPvtAndBlockStore env bp (purgeMarkersOf us) (locked l) = (Return (Inl e), l1)"
      "r = Return (Inl e)" "l' = unlocked l1"
  | (stored) l1 ks l2 where "commitToPvtAndBlockStore env bp (purgeMarkersOf us) (locked l) = (Return (Inr ()), l1)"
      "commitToDatabases env n (bp_Block bp) ks ts l1 = (r, l2)" "l' = unlocked l2"
proof -
  obtain k where k: "pvtKeys_loop env Map.empty us (locked l) = (Return k, locked l)"
    using pvtKeys_loop_pure by (metis go.exhaust surj_pair)
  show thesis
  proof (cases k)
    case (Inl e)
    then show thesis using assms k by (intro no_keys [of e]) (simp_all add: commitUnderLock_def withWLock_def go_defs)
  next
    case (Inr ks)
    obtain x l1 where st: "commitToPvtAndBlockStore env bp (purgeMarkersOf us) (locked l) = (Return x, l1)"
      using commitToPvtAndBlockStore_returns by (metis go.exhaust surj_pair)
    show thesis
    proof (cases x)
      case (Inl e)
      then show thesis using assms k Inr st
        by (intro no_stores [of e l1]) (simp_all add: commitUnderLock_def withWLock_def go_defs)
    next
      case x: (Inr u)
      obtain r2 l2 where db: "commitToDatabases env n (bp_Block bp) ks ts l1 = (r2, l2)" by fastforce
      then show thesis using assms k Inr st x
        by (intro stored [of l1 ks l2]) (simp_all add: commitUnderLock_def withWLock_def go_defs)
    qed
  qed
qed

lemma asked_append: "asked ops None @ asked ops' failed = asked (ops @ ops') failed"
  by (simp add: asked_def)

text \<open>What is known of the operations a commit has asked for when it ends with \<open>r\<close>; \<open>all\<close> are those of a whole commit.\<close>

definition commitAsks :: "store_op list \<Rightarrow> (string + unit) go \<Rightarrow> store_log \<Rightarrow> bool" where
  "commitAsks all r new \<longleftrightarrow>
     (\<exists>ops failed rest. new = asked ops failed \<and> all = ops @ failedOp failed @ rest \<and>
        (r = Return (Inr ()) \<longleftrightarrow> failed = None \<and> rest = []) \<and>
        (\<forall>x. failed = Some x \<longrightarrow> (if x = OpState \<or> (\<exists>b. x = OpHistory b) then \<exists>p. r = Panic p else \<exists>e. r = Return (Inl e))) \<and>
        (\<forall>e. r = Return (Inl e) \<longrightarrow> OpState \<notin> set ops \<and> (\<forall>b. OpHistory b \<notin> set ops)))"

lemma commitUnderLock_ops:
  assumes rec: "recordsOps env log" and "commitUnderLock env n bp us ts l = (r, l')"
  shows "\<exists>new. logOf log l' = logOf log l @ new \<and> commitAsks (tl (commitOps (l_isPvtstoreAheadOfBlkstore l) (l_hasHistoryDB l) (bp_Block bp))) r new \<and>
    \<not> lk_writer (l_blockAPIsRWLock l')"
  using assms(2)
proof (cases rule: commitUnderLock_cases)
  case (no_keys e)
  then show ?thesis unfolding commitAsks_def
    by (intro exI [of _ "[]"] conjI exI [of _ "[] :: store_op list"] exI [of _ None] exI [of _ "tl (commitOps (l_isPvtstoreAheadOfBlkstore l) (l_hasHistoryDB l) (bp_Block bp))"]) (auto simp: asked_def commitOps_def)
next
  case (no_stores e l1)
  from commitToPvtAndBlockStore_ops [OF rec no_stores(1)] obtain ops failed rest where ops:
    "logOf log l1 = logOf log l @ asked ops failed" "storeOps (l_isPvtstoreAheadOfBlkstore l) (bp_Block bp) = ops @ failedOp failed @ rest"
    "failed \<noteq> None \<or> rest \<noteq> []" by auto
  have mem: "set (ops @ failedOp failed @ rest) \<subseteq> {OpPvtData (blk_Number (bp_Block bp)), OpAddBlock (bp_Block bp)}"
    unfolding ops(2) [symmetric] by (simp add: storeOps_def)
  show ?thesis unfolding commitAsks_def
    by (intro exI [of _ "asked ops failed"] conjI exI [of _ ops] exI [of _ failed] exI [of _ "rest @ dbOps (l_hasHistoryDB l) (bp_Block bp)"])
       (use ops mem no_stores(2,3) in \<open>auto simp: commitOps_def dbOps_def\<close>)
next
  case (stored l1 ks l2)
  have l1: "logOf log l1 = logOf log l @ asked (storeOps (l_isPvtstoreAheadOfBlkstore l) (bp_Block bp)) None"
    "l_hasHistoryDB l1 = l_hasHistoryDB l"
  proof -
    show "logOf log l1 = logOf log l @ asked (storeOps (l_isPvtstoreAheadOfBlkstore l) (bp_Block bp)) None"
      using commitToPvtAndBlockStore_ops [OF rec stored(1)] by auto
    show "l_hasHistoryDB l1 = l_hasHistoryDB l" by (cases rule: commitToPvtAndBlockStore_cases [OF stored(1)]) simp_all
  qed
  from commitToDatabases_ops [OF rec stored(2)] obtain ops failed rest where ops:
    "logOf log l2 = logOf log l1 @ asked ops failed" "dbOps (l_hasHistoryDB l) (bp_Block bp) = ops @ failedOp failed @ rest"
    "r = Return (Inr ()) \<longleftrightarrow> failed = None \<and> rest = []" "failed = None \<longrightarrow> rest = []" "failed \<noteq> None \<longrightarrow> (\<exists>p. r = Panic p)"
    unfolding l1(2) by blast
  have mem: "set (failedOp failed) \<subseteq> {OpState, OpHistory (bp_Block bp)}"
    using arg_cong [OF ops(2), of set] by (auto simp: dbOps_def split: if_splits)
  show ?thesis unfolding commitAsks_def
    by (intro exI [of _ "asked (storeOps (l_isPvtstoreAheadOfBlkstore l) (bp_Block bp) @ ops) failed"] conjI
        exI [of _ "storeOps (l_isPvtstoreAheadOfBlkstore l) (bp_Block bp) @ ops"] exI [of _ failed] exI [of _ rest])
       (use ops l1 mem stored(3) in \<open>auto simp: commitOps_def dbOps_def asked_append [symmetric]\<close>)
qed

lemma kv_commit_cases:
  assumes "kv_commit env bp fetch l = (r, l')"
  obtains (unfetched) e where "r = Return (Inl e)" "l' = l"
  | (unprepared) bp0 x w where "tm_ValidateAndPrepare env bp0 (l_world l) = (x, w)" "r \<noteq> Return (Inr ())"
      "l_world l' = w" "l_blockAPIsRWLock l' = l_blockAPIsRWLock l" "if isl x then \<exists>e. r = Return (Inl e) else \<exists>p. r = Panic p"
  | (locked) bp0 b1 batch w n bp1 us ts l2 where "tm_ValidateAndPrepare env bp0 (l_world l) = (Inr (us, ts, batch, b1), w)"
      "commitUnderLock env n bp1 us ts l2 = (r, l')" "l_world l2 = w" "l_blockAPIsRWLock l2 = l_blockAPIsRWLock l"
      "l_isPvtstoreAheadOfBlkstore l2 = l_isPvtstoreAheadOfBlkstore l" "l_hasHistoryDB l2 = l_hasHistoryDB l"
      "bp_Block bp0 = bp_Block bp" "blk_Number (bp_Block bp1) = blk_Number (bp_Block b1)"
proof -
  obtain f where f: "fetchPvtData env fetch bp l = (Return f, l)"
    using fetchPvtData_pure by (metis go.exhaust surj_pair)
  show thesis
  proof (cases f)
    case (Inl e)
    then show thesis using assms f by (intro unfetched [of e]) (simp_all add: kv_commit_def go_defs)
  next
    case (Inr bp0)
    then have bp0: "bp_Block bp0 = bp_Block bp" using fetchPvtData_block [OF f [unfolded Inr]] by simp
    obtain v w where v: "tm_ValidateAndPrepare env bp0 (l_world l) = (v, w)" by fastforce
    let ?l1 = "l\<lparr>l_world := w\<rparr>"
    show thesis
    proof (cases v)
      case v': (Inl e)
      then show thesis using assms f Inr v by (intro unprepared [OF v]) (auto simp: kv_commit_def go_defs act_def)
    next
      case v': (Inr x)
      obtain us ts batch bp1 where x: "x = (us, ts, batch, bp1)" by (cases x)
      obtain h l2 where h: "(if blk_Number (bp_Block bp1) = 1 \<or> length (l_commitHash ?l1) \<noteq> 0
        then addBlockCommitHash env (bp_Block bp1) batch else gret (bp_Block bp1)) ?l1 = (h, l2)" by fastforce
      then have same: "l_world l2 = w" "l_isPvtstoreAheadOfBlkstore l2 = l_isPvtstoreAheadOfBlkstore l"
        "l_hasHistoryDB l2 = l_hasHistoryDB l" "l_blockAPIsRWLock l2 = l_blockAPIsRWLock l"
        using addBlockCommitHash_keeps [of env "bp_Block bp1" batch ?l1 h l2] by (auto simp: gret_def split: if_splits)
      have run: "(r, l') = (case h of Panic p \<Rightarrow> (Panic p, l2)
          | Return block \<Rightarrow> commitUnderLock env (blk_Number (bp_Block bp)) (bp1\<lparr>bp_Block := block\<rparr>) us ts l2)"
        using assms f Inr v v' x h by (simp add: kv_commit_def gtry_def gbind_def act_def withLedger_def)
      show thesis
      proof (cases h)
        case (Panic p)
        then show thesis using run same v' by (intro unprepared [OF v]) simp_all
      next
        case (Return block)
        then have under: "commitUnderLock env (blk_Number (bp_Block bp)) (bp1\<lparr>bp_Block := block\<rparr>) us ts l2 = (r, l')"
          using run by simp
        have "blk_Number block = blk_Number (bp_Block bp1)"
          using h Return addBlockCommitHash_keeps [of env "bp_Block bp1" batch ?l1 h l2] by (auto simp: gret_def split: if_splits)
        then have "blk_Number (bp_Block (bp1\<lparr>bp_Block := block\<rparr>)) = blk_Number (bp_Block bp1)" by simp
        from locked [OF v [unfolded v' x] under same(1,4,2,3) bp0 this] show thesis .
      qed
    qed
  qed
qed

text \<open>
  C13 (the commit order). Whatever the stores answer, a commit asks them in one order: validation,
  private data (unless its store is already ahead), the block store, the state database and then
  the history database if there is one. It stops at the first failure: every operation but the last has succeeded, and
  the commit reports success exactly when all of them have. A failed database ends in a panic and any other failed operation
  in an error; when an error is returned the state and history databases were not touched, so that
  databases are never ahead of the block store. The write lock is not held afterwards, also when
  it panics.
\<close>

theorem commit_order:
  assumes "recordsOps env log" and "kv_commit env bp fetch l = (r, l')" and "\<not> lk_writer (l_blockAPIsRWLock l)"
  shows "\<exists>b ops failed rest. log (l_world l') = log (l_world l) @ map (\<lambda>x. (x, False)) ops @ map (\<lambda>x. (x, True)) (failedOp failed) \<and>
    commitOps (l_isPvtstoreAheadOfBlkstore l) (l_hasHistoryDB l) b = ops @ failedOp failed @ rest \<and>
    (r = Return (Inr ()) \<longleftrightarrow> failed = None \<and> rest = []) \<and>
    (\<forall>x. failed = Some x \<longrightarrow> (if x = OpState \<or> (\<exists>b. x = OpHistory b) then \<exists>p. r = Panic p else \<exists>e. r = Return (Inl e))) \<and>
    (\<forall>e. r = Return (Inl e) \<longrightarrow> OpState \<notin> set ops \<and> (\<forall>b. OpHistory b \<notin> set ops)) \<and>
    \<not> lk_writer (l_blockAPIsRWLock l')"
proof -
  have "\<exists>b new. logOf log l' = logOf log l @ new \<and> commitAsks (commitOps (l_isPvtstoreAheadOfBlkstore l) (l_hasHistoryDB l) b) r new \<and>
    \<not> lk_writer (l_blockAPIsRWLock l')"
    using assms(2)
  proof (cases rule: kv_commit_cases)
    case (unfetched e)
    then show ?thesis using assms(3) unfolding commitAsks_def
      by (intro exI [of _ "bp_Block bp"] exI [of _ "[]"] conjI exI [of _ "[] :: store_op list"] exI [of _ None] 
        exI [of _ "commitOps (l_isPvtstoreAheadOfBlkstore l) (l_hasHistoryDB l) (bp_Block bp)"]) (auto simp: asked_def commitOps_def)
  next
    case (unprepared bp0 x w)
    have "commitAsks (commitOps (l_isPvtstoreAheadOfBlkstore l) (l_hasHistoryDB l) (bp_Block bp)) r [(OpValidate, isl x)]"
      unfolding commitAsks_def
      by (intro exI [of _ "if isl x then [] else [OpValidate]"] exI [of _ "if isl x then Some OpValidate else None"]
          exI [of _ "tl (commitOps (l_isPvtstoreAheadOfBlkstore l) (l_hasHistoryDB l) (bp_Block bp))"])
         (use unprepared(2,5) in \<open>auto simp: asked_def commitOps_def storeOps_def\<close>)
    then show ?thesis using recordsOpsD(1) [OF assms(1) unprepared(1)] unprepared(3,4) assms(3) by auto
  next
    case (locked bp0 b1 batch w n bp1 us ts l2)
    from commitUnderLock_ops [OF assms(1) locked(2)] obtain new where new: "logOf log l' = logOf log l2 @ new"
      "commitAsks (tl (commitOps (l_isPvtstoreAheadOfBlkstore l) (l_hasHistoryDB l) (bp_Block bp1))) r new" "\<not> lk_writer (l_blockAPIsRWLock l')"
      unfolding locked(5,6) by blast
    from new(2) obtain ops failed rest where ops: "new = asked ops failed"
      "tl (commitOps (l_isPvtstoreAheadOfBlkstore l) (l_hasHistoryDB l) (bp_Block bp1)) = ops @ failedOp failed @ rest"
      "r = Return (Inr ()) \<longleftrightarrow> failed = None \<and> rest = []"
      "\<forall>x. failed = Some x \<longrightarrow> (if x = OpState \<or> (\<exists>b. x = OpHistory b) then \<exists>p. r = Panic p else \<exists>e. r = Return (Inl e))"
      "\<forall>e. r = Return (Inl e) \<longrightarrow> OpState \<notin> set ops \<and> (\<forall>b. OpHistory b \<notin> set ops)"
      unfolding commitAsks_def by blast
    have "commitOps (l_isPvtstoreAheadOfBlkstore l) (l_hasHistoryDB l) (bp_Block bp1) = (OpValidate # ops) @ failedOp failed @ rest"
      using ops(2) by (simp add: commitOps_def)
    moreover have "(OpValidate, False) # new = asked (OpValidate # ops) failed" by (simp add: ops(1) asked_def)
    ultimately have "commitAsks (commitOps (l_isPvtstoreAheadOfBlkstore l) (l_hasHistoryDB l) (bp_Block bp1)) r ((OpValidate, False) # new)"
      unfolding commitAsks_def using ops(3-5) by (intro exI [of _ "OpValidate # ops"] exI [of _ failed] exI [of _ rest]) auto
    then show ?thesis using new(1,3) locked(3) recordsOpsD(1) [OF assms(1) locked(1)] by auto
  qed
  then show ?thesis unfolding commitAsks_def asked_def by blast
qed

section \<open>An example ledger\<close>

text \<open>Stores that never fail: a chain of blocks, the heights of the two databases and of the private data store, and the log.\<close>

record exWorld =
  xw_log :: store_log
  xw_blocks :: "Block list"
  xw_state :: uint64
  xw_history :: uint64
  xw_pvt :: uint64

definition exStores :: "exWorld ledger_env" where
  "exStores = \<lparr>bs_GetBlockchainInfo = (\<lambda>w. Inr (of_nat (length (xw_blocks w)))),
     bs_RetrieveBlockByNumber = (\<lambda>n w. case find (\<lambda>b. blk_Number b = n) (xw_blocks w) of Some b \<Rightarrow> Inr b | None \<Rightarrow> Inl ''not found''),
     bs_RetrieveBlockByHash = (\<lambda>_ _. Inl ''not found''), bs_RetrieveBlockByTxID = (\<lambda>_ _. Inl ''not found''),
     bs_TxIDExists = (\<lambda>_ _. Inr False), bs_RetrieveTxByID = (\<lambda>_ _. Inl ''not found''),
     bs_RetrieveTxValidationCodeByTxID = (\<lambda>_ _. Inl ''not found''),
     bs_RetrieveBlocks = (\<lambda>_ _. Inr 0), bs_Shutdown = (\<lambda>w. w), it_Next = (\<lambda>_ w. (Inr None, w)), it_Close = (\<lambda>_ w. w),
     bs_AddBlock = (\<lambda>b w. (Inr (), w\<lparr>xw_log := xw_log w @ [(OpAddBlock b, False)], xw_blocks := xw_blocks w @ [b]\<rparr>)),
     pv_Init = (\<lambda>w. w), pv_LastCommittedBlockHeight = (\<lambda>w. Inr (xw_pvt w)),
     pv_GetPvtDataByBlockNum = (\<lambda>_ _ _. Inr []), pv_FetchPrivateDataRawKey = (\<lambda>_ _ _ _. Inr ''''),
     pv_Commit = (\<lambda>n _ _ _ w. (Inr (), w\<lparr>xw_log := xw_log w @ [(OpPvtData n, False)], xw_pvt := xw_pvt w + 1\<rparr>)),
     pv_GetLastUpdatedOldBlocksPvtData = (\<lambda>_. Inr []), pv_ResetLastUpdatedOldBlocksList = (\<lambda>w. (Inr (), w)),
     pv_CommitPvtDataOfOldBlocks = (\<lambda>_ _ w. (Inr (), w)), pv_extractValidPvtData = (\<lambda>d _ _. Inr d),
     tm_New = (\<lambda>_ w. (Inr (), w)), tm_NewQueryExecutor = (\<lambda>_ w. (Inr (), w)),
     tm_NewQueryExecutorNoCollChecks = (\<lambda>w. (Inr (), w)), tm_NewTxSimulator = (\<lambda>_ w. (Inr (), w)), tm_Shutdown = (\<lambda>w. w), tm_Done = (\<lambda>w. w),
     tm_ValidateAndPrepare = (\<lambda>b w. (Inr ([], [], [], b), w\<lparr>xw_log := xw_log w @ [(OpValidate, False)]\<rparr>)),
     tm_UpdateBatch = (\<lambda>_ w. w),
     tm_Commit = (\<lambda>w. (Inr (), w\<lparr>xw_log := xw_log w @ [(OpState, False)], xw_state := xw_state w + 1\<rparr>)),
     tm_RemoveStaleAndCommit = (\<lambda>_ w. (Inr (), w)),
     hd_Commit = (\<lambda>b w. (Inr (), w\<lparr>xw_log := xw_log w @ [(OpHistory b, False)], xw_history := xw_history w + 1\<rparr>)),
     hd_NewQueryExecutor = (\<lambda>w. (Inr (), w)),
     rc_txmgr = \<lparr>rc_Name = ''state'', rc_ShouldRecover = (\<lambda>n w. Inr (xw_state w \<noteq> n + 1, xw_state w)),
       rc_CommitLostBlock = (\<lambda>b w. (Inr (), w\<lparr>xw_state := xw_state w + 1\<rparr>))\<rparr>,
     rc_historyDB = \<lparr>rc_Name = ''history'', rc_ShouldRecover = (\<lambda>n w. Inr (xw_history w \<noteq> n + 1, xw_history w)),
       rc_CommitLostBlock = (\<lambda>b w. (Inr (), w\<lparr>xw_history := xw_history w + 1\<rparr>))\<rparr>,
     sl_Initialize = [], sm_newBookkeeper = (\<lambda>_ w. (Inr (), w)), sm_processEvents = (\<lambda>_ w. w),
     sm_regenrateMissedSnapshot = (\<lambda>_ w. (Inr (), w)), sm_commitStart = (\<lambda>_ w. w), sm_commitDone = (\<lambda>_ w. w),
     sm_shutdown = (\<lambda>w. w), st_updateBlockProcessingTime = (\<lambda>_ w. w),
     st_updateBlockstorageAndPvtdataCommitTime = (\<lambda>_ w. w), st_updateStatedbCommitTime = (\<lambda>_ w. w),
     st_updateTransactionsStats = (\<lambda>_ w. w), ck_elapsed = (\<lambda>_. (0, 0, 0)),
     ev_hasIndexCreator = False, ev_RegisterListener = (\<lambda>_ _ w. (Inr (), w)), ev_Register = (\<lambda>_ w. w),
     ev_RegisterAndInvokeFor = (\<lambda>_ _ w. (Inr (), w)), ev_HandleChaincodeDeploy = (\<lambda>_ _ w. (Inr (), w)),
     ev_ChaincodeDeployDone = (\<lambda>_ w. w), ci_AllChaincodesInfo = (\<lambda>_ _. Inr []),
     ci_ImplicitCollections = (\<lambda>_ _ _. Inr None), ci_CollectionInfo = (\<lambda>_ _ _ _. Inl ''none''),
     ch_MostRecentCollectionConfigBelow = (\<lambda>_ _ _. Inr None),
     cc_ExtractTypedDeltaCapability = (\<lambda>_. Inr True), pb_GetLastConfigIndexFromBlock = (\<lambda>_. Inr 0),
     pb_MarshalMetadata = (\<lambda>v. v), pb_UnmarshalMetadata = Inr, pb_EncodeVarint = (\<lambda>n. [ucast n]),
     ut_ComputeSHA256 = rev, ut_GenerateUUID = (\<lambda>w. (''uuid'', w)),
     hp_GetHash = Inr (), hp_Write = (\<lambda>_. None), hp_Sum = rev, ut_HexDecodeString = (\<lambda>_. Inr []), tf_IsValid = (\<lambda>_ _. True),
     lm_Add = (\<lambda>_ _ _ _ m. m), bi_TRANSACTIONS_FILTER = 0, bi_COMMIT_HASH = 1\<rparr>"

definition exChainBlock :: "uint64 \<Rightarrow> Block" where
  "exChainBlock n = \<lparr>blk_Number = n, blk_Data = [], blk_Metadata = Some [[0], []]\<rparr>"

definition exLedger :: "exWorld kvLedger" where
  "exLedger = \<lparr>l_ledgerID = ''ch'', l_bootSnapshotMetadata = None, l_hasHistoryDB = True, l_commitHash = [],
     l_isPvtstoreAheadOfBlkstore = False, l_commitNotifier = None,
     l_blockAPIsRWLock = \<lparr>lk_readers = 0, lk_writer = False\<rparr>, l_pvtdataStoreLock = False,
     l_world = \<lparr>xw_log = [], xw_blocks = [exChainBlock 0], xw_state = 1, xw_history = 1, xw_pvt = 1\<rparr>\<rparr>"

definition exCommitted :: BlockAndPvtData where
  "exCommitted = \<lparr>bp_Block = exChainBlock 1, bp_PvtData = Map.empty, bp_MissingPvtData = Map.empty\<rparr>"

lemma exStores_records: "recordsOps exStores xw_log"
  by (simp add: recordsOps_def exStores_def)

lemmas exLedger_evals = exStores_def exLedger_def exCommitted_def exChainBlock_def ledger_defs kv_commit_def fetchPvtData_def
  commitUnderLock_def commitToDatabases_def commitToPvtAndBlockStore_def constructPvtDataAndMissingData_def purgeMarkersOf_def
  addBlockCommitHash_def metadataAt_def orPanic_def sendCommitNotification_def updateBlockStats_def Let_def

text \<open>A block store that is full: the commit returns its error and asks for nothing more.\<close>

definition exFull :: "exWorld ledger_env" where
  "exFull = exStores\<lparr>bs_AddBlock := (\<lambda>b w. (Inl ''full'', w\<lparr>xw_log := xw_log w @ [(OpAddBlock b, True)]\<rparr>))\<rparr>"

lemma exFull_records: "recordsOps exFull xw_log"
  by (simp add: recordsOps_def exStores_def exFull_def)

theorem commit_order_witness:
  "\<exists>b l'. kv_commit exFull exCommitted False exLedger = (Return (Inl ''full''), l') \<and>
     xw_log (l_world l') = [(OpValidate, False), (OpPvtData (blk_Number b), False), (OpAddBlock b, True)] \<and>
     \<not> lk_writer (l_blockAPIsRWLock l')"
proof -
  obtain l' b where run: "kv_commit exFull exCommitted False exLedger = (Return (Inl ''full''), l')"
    and len: "length (xw_log (l_world l')) = 3" "last (xw_log (l_world l')) = (OpAddBlock b, True)"
    by (simp add: exFull_def exLedger_evals)
  have free: "\<not> lk_writer (l_blockAPIsRWLock exLedger)" by (simp add: exLedger_def)
  from commit_order [OF exFull_records run free] obtain c ops failed rest where
    log: "xw_log (l_world l') = map (\<lambda>x. (x, False)) ops @ map (\<lambda>x. (x, True)) (failedOp failed)"
    and all: "commitOps False True c = ops @ failedOp failed @ rest" and lock: "\<not> lk_writer (l_blockAPIsRWLock l')"
    by (auto simp: exLedger_def)
  have "(OpAddBlock b, True) \<in> set (xw_log (l_world l'))" using len by (metis last_in_set list.size(3) zero_neq_numeral)
  then have f: "failed = Some (OpAddBlock b)" using log by (cases failed) auto
  then have n: "length ops = 2" using len(1) log by simp
  have "ops = take 2 (commitOps False True c)" "OpAddBlock b = commitOps False True c ! 2" unfolding all using n f by (simp_all add: nth_append)
  then have "ops = [OpValidate, OpPvtData (blk_Number c)]" "b = c" by (simp_all add: commitOps_def storeOps_def)
  then show ?thesis using run log f lock by auto
qed

section \<open>The commit hash\<close>

text \<open>
  C30 (the commit hash survives a restart). \<open>addBlockCommitHash\<close> sets the ledger's commit hash to
  the hash of the length-prefixed validation codes, the update batch and the previous commit hash,
  and stores it in the block without touching the other metadata; a ledger that starts on a chain
  whose last block is that block, and that was not just created from a snapshot, takes the same
  commit hash from it.
\<close>

theorem commit_hash_survives_restart:
  assumes "addBlockCommitHash env block batch l = (Return block', l1)"
    and "bi_COMMIT_HASH env \<noteq> bi_TRANSACTIONS_FILTER env"
    and "\<And>v. pb_UnmarshalMetadata env (pb_MarshalMetadata env v) = Inr v"
    and "bs_GetBlockchainInfo env (l_world l2) = Inr (blk_Number block' + 1)" and "blk_Number block' + 1 \<noteq> 0"
    and "bs_RetrieveBlockByNumber env (blk_Number block') (l_world l2) = Inr block'"
    and "\<And>m. l_bootSnapshotMetadata l2 = Some m \<Longrightarrow> sn_LastBlockNumber m \<noteq> blk_Number block'"
  shows "\<exists>codes l2'. metadataAt block (bi_TRANSACTIONS_FILTER env) l = (Return codes, l) \<and>
    l_commitHash l1 = ut_ComputeSHA256 env
      (pb_EncodeVarint env (of_nat (length codes)) @ codes @ batch @ l_commitHash l) \<and>
    metadataAt block' (bi_TRANSACTIONS_FILTER env) l = (Return codes, l) \<and>
    lastPersistedCommitHash env l2 = (Return (Inr (l_commitHash l1)), l2')"
proof -
  obtain m where m: "blk_Metadata block = Some m" "bi_TRANSACTIONS_FILTER env < length m" "bi_COMMIT_HASH env < length m"
    and h: "l_commitHash l1 = ut_ComputeSHA256 env (pb_EncodeVarint env (of_nat (length (m ! bi_TRANSACTIONS_FILTER env))) @
        m ! bi_TRANSACTIONS_FILTER env @ batch @ l_commitHash l)"
    and b: "block' = block\<lparr>blk_Metadata := Some (m[bi_COMMIT_HASH env := pb_MarshalMetadata env (l_commitHash l1)])\<rparr>"
    using assms(1) by (auto simp: addBlockCommitHash_def metadataAt_def ledger_defs Let_def split: option.splits if_splits)
  have "\<exists>l2'. lastPersistedCommitHash env l2 = (Return (Inr (l_commitHash l1)), l2')"
    using assms(3-7) m(3)
    by (cases "l_bootSnapshotMetadata l2")
       (simp_all add: lastPersistedCommitHash_def kv_GetBlockchainInfo_def kv_GetBlockByNumber_def ledger_defs b)
  with m h b assms(2) show ?thesis
    by (intro exI [of _ "m ! bi_TRANSACTIONS_FILTER env"]) (auto simp: metadataAt_def go_defs)
qed

theorem commit_hash_survives_restart_witness:
  "\<exists>block' l1 l2'. addBlockCommitHash exStores (exChainBlock 1) [] exLedger = (Return block', l1) \<and>
     lastPersistedCommitHash exStores (exLedger\<lparr>l_world := (l_world exLedger)\<lparr>xw_blocks := [exChainBlock 0, block']\<rparr>\<rparr>) =
       (Return (Inr (l_commitHash l1)), l2')"
proof -
  obtain block' l1 where a: "addBlockCommitHash exStores (exChainBlock 1) [] exLedger = (Return block', l1)"
    and n: "blk_Number block' = 1"
    by (simp add: exLedger_evals)
  let ?l2 = "exLedger\<lparr>l_world := (l_world exLedger)\<lparr>xw_blocks := [exChainBlock 0, block']\<rparr>\<rparr>"
  have "\<exists>codes l2'. metadataAt (exChainBlock 1) (bi_TRANSACTIONS_FILTER exStores) exLedger = (Return codes, exLedger) \<and>
    l_commitHash l1 = ut_ComputeSHA256 exStores
      (pb_EncodeVarint exStores (of_nat (length codes)) @ codes @ [] @ l_commitHash exLedger) \<and>
    metadataAt block' (bi_TRANSACTIONS_FILTER exStores) exLedger = (Return codes, exLedger) \<and>
    lastPersistedCommitHash exStores ?l2 = (Return (Inr (l_commitHash l1)), l2')"
    by (rule commit_hash_survives_restart [OF a]) (simp_all add: n, simp_all add: exStores_def exLedger_def n exChainBlock_def)
  with a show ?thesis by auto
qed

end
