(* ===== verification/KV_Recovery.thy ===== *)
theory KV_Recovery
  imports KV_Commit
begin

text \<open>
  Properties of the recovery at start-up: the loops end, and they bring the databases level with the
  block store; and of the filters on private data and notifications.
\<close>

section \<open>Recovery ends\<close>

lemma unat_succ: "x \<noteq> - 1 \<Longrightarrow> unat (x + 1 :: uint64) = unat x + 1"
proof -
  assume "x \<noteq> - 1"
  then have "unat x \<noteq> 2 ^ 64 - 1" by (simp add: word_unat_eq_iff unsigned_minus_1_eq_mask mask_eq_exp_minus_1)
  then have "unat x + 1 < 2 ^ 64" using unsigned_less [of x, where ?'a = nat] by simp
  then show ?thesis by (simp add: unat_word_ariths)
qed

lemma recommitLostBlocks_ends:
  assumes "lastBlockNum \<noteq> - 1"
  shows "\<exists>r. recommitLostBlocks env n lastBlockNum rs l = Some r"
proof (induction "unat (lastBlockNum + 1) - unat n" arbitrary: n l rule: less_induct)
  case less
  show ?case
  proof (cases "n \<le> lastBlockNum")
    case True
    then have le: "unat n \<le> unat lastBlockNum" by (simp add: word_le_nat_alt)
    moreover have "n \<noteq> - 1" using True assms word_order.extremum_uniqueI [of lastBlockNum] by auto
    ultimately have "unat (lastBlockNum + 1) - unat (n + 1) < unat (lastBlockNum + 1) - unat n"
      using unat_succ [OF assms] unat_succ [of n] by simp
    from less [OF this] True show ?thesis
      by (subst recommitLostBlocks.simps) (auto split: prod.splits go.splits sum.splits)
  qed (subst recommitLostBlocks.simps, simp)
qed

lemma recoverBoth_ends:
  assumes "lastBlockNum \<noteq> - 1"
  shows "\<exists>r. recoverBoth env lastBlockNum a b l = Some r"
proof -
  obtain m0 s0 m1 s1 where p: "(if fst a > fst b then (b, a) else (a, b)) = ((m0, s0), (m1, s1))" and le: "m0 \<le> m1"
    by (cases "fst a > fst b") (metis (no_types, lifting) prod.collapse fst_conv less_imp_le not_le)+
  have "\<exists>x. (if m0 \<noteq> m1 then recommitLostBlocks env m0 (m1 - 1) [s0] l else Some (Return (Inr ()), l)) = Some x"
    using recommitLostBlocks_ends [of "m1 - 1" env m0 "[s0]" l] le by (cases "m1 = 0") auto
  then obtain r1 l1 where 1: "(if m0 \<noteq> m1 then recommitLostBlocks env m0 (m1 - 1) [s0] l else Some (Return (Inr ()), l)) = Some (r1, l1)"
    by fastforce
  show ?thesis unfolding recoverBoth_def p using 1 recommitLostBlocks_ends [OF assms, of env m1 "[s0, s1]" l1]
    by (auto split: go.splits sum.splits)
qed

text \<open>
  C31 (recovery ends). Whatever the stores and databases answer, recovering the state and history
  databases ends: the bound of the recommit loop is never the largest uint64, for which the loop
  condition could not fail.
\<close>

theorem recovery_ends:
  "\<exists>r. syncStateAndHistoryDBWithBlockstore env l = Some r"
proof (cases "bs_GetBlockchainInfo env (l_world l)")
  case (Inr h)
  show ?thesis
  proof (cases "h = 0")
    case False
    then have "h - 1 \<noteq> - 1" by simp
    note ends = recommitLostBlocks_ends [OF this] recoverBoth_ends [OF this]
    with Inr False show ?thesis
      by (auto simp: syncStateAndHistoryDBWithBlockstore_def Let_def split: sum.splits list.splits)
  qed (simp add: syncStateAndHistoryDBWithBlockstore_def Inr)
qed (simp add: syncStateAndHistoryDBWithBlockstore_def)

section \<open>Recovery brings the databases level\<close>

text \<open>The two databases.\<close>

datatype database = StateDB | HistoryDB

fun dbOf :: "'w ledger_env \<Rightarrow> database \<Rightarrow> 'w recoverable" where
  "dbOf env StateDB = rc_txmgr env"
| "dbOf env HistoryDB = rc_historyDB env"

text \<open>
  What is assumed of the databases: \<open>ShouldRecover\<close> reports the height, that is the next block
  needed; recommitting the block with that number, and only that, raises this height by one and
  leaves the other database alone. The block store returns the block it was asked for.
\<close>

definition recoveryLaws :: "'w ledger_env \<Rightarrow> (database \<Rightarrow> 'w \<Rightarrow> uint64) \<Rightarrow> bool" where
  "recoveryLaws env ht \<longleftrightarrow>
     (\<forall>i n w. rc_ShouldRecover (dbOf env i) n w = Inr (ht i w \<noteq> n + 1, ht i w)) \<and>
     (\<forall>i b w w' u. rc_CommitLostBlock (dbOf env i) b w = (Inr u, w') \<longrightarrow> ht i w = blk_Number (bp_Block b) \<longrightarrow>
        ht i w' = ht i w + 1 \<and> (\<forall>j. j \<noteq> i \<longrightarrow> ht j w' = ht j w)) \<and>
     (\<forall>n w b. bs_RetrieveBlockByNumber env n w = Inr b \<longrightarrow> blk_Number b = n)"

lemma all_database: "(\<forall>i. P i) \<longleftrightarrow> P StateDB \<and> P HistoryDB"
  by (metis database.exhaust)

lemma recoveryLawsD:
  assumes "recoveryLaws env ht"
  shows "rc_ShouldRecover (dbOf env i) n w = Inr (ht i w \<noteq> n + 1, ht i w)"
    "rc_CommitLostBlock (dbOf env i) b w = (Inr u, w') \<Longrightarrow> ht i w = blk_Number (bp_Block b) \<Longrightarrow>
       ht j w' = (if j = i then ht i w + 1 else ht j w)"
    "bs_RetrieveBlockByNumber env n w = Inr blk \<Longrightarrow> blk_Number blk = n"
  using assms unfolding recoveryLaws_def by (metis | auto)+

lemma commitLost_each_levels:
  assumes "recoveryLaws env ht"
  shows "commitLost_each (map (dbOf env) is) b l = (Return (Inr u), l') \<Longrightarrow> distinct is \<Longrightarrow>
    \<forall>i \<in> set is. ht i (l_world l) = blk_Number (bp_Block b) \<Longrightarrow>
    ht j (l_world l') = (if j \<in> set is then ht j (l_world l) + 1 else ht j (l_world l))"
proof (induction "is" arbitrary: l)
  case (Cons i "is")
  obtain x w where c: "rc_CommitLostBlock (dbOf env i) b (l_world l) = (x, w)" by fastforce
  with Cons.prems(1) obtain v where v: "x = Inr v"
    and rest: "commitLost_each (map (dbOf env) is) b (l\<lparr>l_world := w\<rparr>) = (Return (Inr u), l')"
    by (auto simp: gtry_def gbind_def act_def gret_def split: sum.splits)
  have w: "ht j' w = (if j' = i then ht i (l_world l) + 1 else ht j' (l_world l))" for j'
    using recoveryLawsD(2) [OF assms c [unfolded v]] Cons.prems(3) by simp
  have "\<forall>i' \<in> set is. ht i' (l_world (l\<lparr>l_world := w\<rparr>)) = blk_Number (bp_Block b)"
  proof
    fix i' assume i': "i' \<in> set is"
    then have "i' \<noteq> i" using Cons.prems(2) by auto
    then have "ht i' w = ht i' (l_world l)" using w by metis
    then show "ht i' (l_world (l\<lparr>l_world := w\<rparr>)) = blk_Number (bp_Block b)" using Cons.prems(3) i' by simp
  qed
  from Cons.IH [OF rest _ this] Cons.prems(2)
  have "ht j (l_world l') = (if j \<in> set is then ht j w + 1 else ht j w)" by simp
  moreover have "i \<notin> set is" using Cons.prems(2) by simp
  ultimately show ?case using w [of j] by auto
qed (simp add: gret_def)

text \<open>A recommitted range takes the databases from its start to its end.\<close>

lemma getBlock_number:
  assumes "recoveryLaws env ht" "kv_GetPvtDataAndBlockByNum env n filt l = (Return (Inr bp), l')"
  shows "blk_Number (bp_Block bp) = n" "l_world l' = l_world l"
  using assms(2) recoveryLawsD(3) [OF assms(1)]
  by (auto simp: kv_GetPvtDataAndBlockByNum_def withRLock_def ask_def go_defs split: sum.splits)

lemma recommitLostBlocks_levels:
  assumes laws: "recoveryLaws env ht" and last: "lastBlockNum \<noteq> - 1" and "distinct is"
  shows "recommitLostBlocks env n lastBlockNum (map (dbOf env) is) l = Some (Return (Inr u), l') \<Longrightarrow>
    n \<le> lastBlockNum + 1 \<Longrightarrow> \<forall>i \<in> set is. ht i (l_world l) = n \<Longrightarrow>
    ht j (l_world l') = (if j \<in> set is then lastBlockNum + 1 else ht j (l_world l))"
proof (induction "unat (lastBlockNum + 1) - unat n" arbitrary: n l rule: less_induct)
  case less
  show ?case
  proof (cases "n \<le> lastBlockNum")
    case False
    then have "l' = l" using less.prems(1) by (subst (asm) recommitLostBlocks.simps) simp
    moreover have "n = lastBlockNum + 1"
      using False less.prems(2) unat_succ [OF last] by (simp add: word_le_nat_alt word_unat_eq_iff)
    ultimately show ?thesis using less.prems(3) by simp
  next
    case True
    let ?step = "gtry (kv_GetPvtDataAndBlockByNum env n None) (commitLost_each (map (dbOf env) is)) l"
    obtain v l2 where s: "?step = (Return (Inr v), l2)"
      and rest: "recommitLostBlocks env (n + 1) lastBlockNum (map (dbOf env) is) l2 = Some (Return (Inr u), l')"
      using less.prems(1) True by (subst (asm) recommitLostBlocks.simps) (auto split: prod.splits go.splits sum.splits)
    from s obtain bp l1 where g: "kv_GetPvtDataAndBlockByNum env n None l = (Return (Inr bp), l1)"
      and c: "commitLost_each (map (dbOf env) is) bp l1 = (Return (Inr v), l2)"
      by (auto simp: gtry_def gbind_def gret_def split: prod.splits go.splits sum.splits)
    have lv: "ht j (l_world l2) = (if j \<in> set is then n + 1 else ht j (l_world l))" for j
      using commitLost_each_levels [OF laws c assms(3), of j] getBlock_number [OF laws g] less.prems(3) by auto
    have "n \<noteq> - 1" using True last word_order.extremum_uniqueI [of lastBlockNum] by auto
    then have u: "unat (n + 1) = unat n + 1" by (rule unat_succ)
    have "unat (lastBlockNum + 1) - unat (n + 1) < unat (lastBlockNum + 1) - unat n" "n + 1 \<le> lastBlockNum + 1"
      using True u unat_succ [OF last] by (simp_all add: word_le_nat_alt)
    from less.hyps [OF this(1) rest this(2)] lv show ?thesis by simp
  qed
qed

lemma recoverers_lagging:
  assumes "recoveryLaws env ht"
  shows "recoverers_loop lid boot n (map (dbOf env) is) w = Inr rs \<Longrightarrow>
    rs = map (\<lambda>i. (ht i w, dbOf env i)) (filter (\<lambda>i. ht i w \<noteq> n + 1) is) \<and> (\<forall>i \<in> set is. ht i w \<le> n + 1)"
proof (induction "is" arbitrary: rs)
  case (Cons i "is")
  then show ?case
    by (auto simp: recoveryLawsD(1) [OF assms] not_less split: if_splits option.splits sum.splits)
qed simp

lemma recovered_then:
  assumes "(case x of None \<Rightarrow> None | Some (Return (Inr _), l') \<Rightarrow> f l' | Some (r, l') \<Rightarrow> Some (r, l')) = Some (Return (Inr u), l')"
  obtains v l2 where "x = Some (Return (Inr v), l2)" "f l2 = Some (Return (Inr (u :: unit)), l')"
proof (cases x)
  case (Some y)
  obtain r l2 where y: "y = (r, l2)" by fastforce
  show thesis
  proof (cases r)
    case (Return e)
    then show thesis using assms Some y that by (cases e) simp_all
  qed (use assms Some y in simp)
qed (use assms in simp)

lemma one_recovered:
  assumes laws: "recoveryLaws env ht" and last: "lastBlockNum \<noteq> - 1" and "ht i (l_world l) \<le> lastBlockNum + 1"
    and "recommitLostBlocks env (ht i (l_world l)) lastBlockNum [dbOf env i] l = Some (Return (Inr u), l')"
  shows "ht j (l_world l') = (if j = i then lastBlockNum + 1 else ht j (l_world l))"
proof -
  have r: "recommitLostBlocks env (ht i (l_world l)) lastBlockNum (map (dbOf env) [i]) l = Some (Return (Inr u), l')" using assms(4) by simp
  have "ht j (l_world l') = (if j \<in> set [i] then lastBlockNum + 1 else ht j (l_world l))"
    by (rule recommitLostBlocks_levels [OF laws last _ r assms(3)]) simp_all
  then show ?thesis by simp
qed
lemma recoverBoth_ordered:
  assumes laws: "recoveryLaws env ht" and last: "lastBlockNum \<noteq> - 1" and ab: "a \<noteq> b"
    and le: "ht a (l_world l) \<le> ht b (l_world l)" "ht b (l_world l) \<le> lastBlockNum + 1"
    and one: "(if ht a (l_world l) \<noteq> ht b (l_world l)
         then recommitLostBlocks env (ht a (l_world l)) (ht b (l_world l) - 1) [dbOf env a] l else Some (Return (Inr ()), l)) =
       Some (Return (Inr v), l2)"
    and two: "recommitLostBlocks env (ht b (l_world l)) lastBlockNum [dbOf env a, dbOf env b] l2 = Some (Return (Inr u), l')"
  shows "ht a (l_world l') = lastBlockNum + 1 \<and> ht b (l_world l') = lastBlockNum + 1"
proof -
  have "ht j (l_world l2) = (if j = a then ht b (l_world l) else ht j (l_world l))" for j
  proof (cases "ht a (l_world l) = ht b (l_world l)")
    case False
    then have r: "recommitLostBlocks env (ht a (l_world l)) (ht b (l_world l) - 1) [dbOf env a] l = Some (Return (Inr v), l2)"
      using one by simp
    have "ht b (l_world l) \<noteq> 0" using False le(1) by auto
    then have "ht b (l_world l) - 1 \<noteq> - 1" by simp
    moreover have "ht a (l_world l) \<le> ht b (l_world l) - 1 + 1" using le(1) by simp
    ultimately have "ht j (l_world l2) = (if j = a then ht b (l_world l) - 1 + 1 else ht j (l_world l))"
      by (rule one_recovered [OF laws _ _ r])
    then show ?thesis by simp
  qed (use one in simp)
  then have h: "\<forall>i \<in> set [a, b]. ht i (l_world l2) = ht b (l_world l)" using ab by simp
  have r: "recommitLostBlocks env (ht b (l_world l)) lastBlockNum (map (dbOf env) [a, b]) l2 = Some (Return (Inr u), l')"
    using two by simp
  have "ht j (l_world l') = (if j \<in> set [a, b] then lastBlockNum + 1 else ht j (l_world l2))" for j
    by (rule recommitLostBlocks_levels [OF laws last _ r le(2) h]) (simp add: ab)
  then show ?thesis by simp
qed

lemma recoverBoth_levels:
  assumes laws: "recoveryLaws env ht" and last: "lastBlockNum \<noteq> - 1" and ij: "i \<noteq> j"
    and le: "ht i (l_world l) \<le> lastBlockNum + 1" "ht j (l_world l) \<le> lastBlockNum + 1"
    and run: "recoverBoth env lastBlockNum (ht i (l_world l), dbOf env i) (ht j (l_world l), dbOf env j) l = Some (Return (Inr u), l')"
  shows "ht i (l_world l') = lastBlockNum + 1 \<and> ht j (l_world l') = lastBlockNum + 1"
proof (cases "ht i (l_world l) > ht j (l_world l)")
  case True
  from run [unfolded recoverBoth_def fst_conv if_P [OF True] prod.case] obtain v l2 where
    "(if ht j (l_world l) \<noteq> ht i (l_world l)
      then recommitLostBlocks env (ht j (l_world l)) (ht i (l_world l) - 1) [dbOf env j] l else Some (Return (Inr ()), l)) = Some (Return (Inr v), l2)"
    "recommitLostBlocks env (ht i (l_world l)) lastBlockNum [dbOf env j, dbOf env i] l2 = Some (Return (Inr u), l')"
    by (rule recovered_then)
  from recoverBoth_ordered [OF laws last ij [symmetric] less_imp_le [OF True] le(1) this] show ?thesis by simp
next
  case False
  from run [unfolded recoverBoth_def fst_conv if_not_P [OF False] prod.case] obtain v l2 where
    "(if ht i (l_world l) \<noteq> ht j (l_world l)
      then recommitLostBlocks env (ht i (l_world l)) (ht j (l_world l) - 1) [dbOf env i] l else Some (Return (Inr ()), l)) = Some (Return (Inr v), l2)"
    "recommitLostBlocks env (ht j (l_world l)) lastBlockNum [dbOf env i, dbOf env j] l2 = Some (Return (Inr u), l')"
    by (rule recovered_then)
  from recoverBoth_ordered [OF laws last ij _ le(2) this] False show ?thesis by (simp add: not_less)
qed

lemma sync_levels:
  assumes "recoveryLaws env ht" and "bs_GetBlockchainInfo env (l_world l) = Inr h" and "h \<noteq> 0"
    and "syncStateAndHistoryDBWithBlockstore env l = Some (Return (Inr ()), l')"
  shows "ht StateDB (l_world l') = h \<and> (l_hasHistoryDB l \<longrightarrow> ht HistoryDB (l_world l') = h)"
proof -
  let ?is = "StateDB # (if l_hasHistoryDB l then [HistoryDB] else [])"
  let ?w = "l_world l"
  have last: "h - 1 \<noteq> - 1" using assms(3) by simp
  have dbs: "rc_txmgr env # (if l_hasHistoryDB l then [rc_historyDB env] else []) = map (dbOf env) ?is" by simp
  note sync = assms(4) [unfolded syncStateAndHistoryDBWithBlockstore_def assms(2) sum.case if_not_P [OF assms(3)] Let_def dbs]
  obtain rs where rs: "recoverers_loop (l_ledgerID l) (l_bootSnapshotMetadata l) (h - 1) (map (dbOf env) ?is) ?w = Inr rs"
    using sync by (cases "recoverers_loop (l_ledgerID l) (l_bootSnapshotMetadata l) (h - 1) (map (dbOf env) ?is) ?w") simp_all
  note run = sync [unfolded rs sum.case]
  have le: "ht StateDB ?w \<le> h" "l_hasHistoryDB l \<Longrightarrow> ht HistoryDB ?w \<le> h"
    using recoverers_lagging [OF assms(1) rs] by simp_all
  have lag: "rs = (if ht StateDB ?w \<noteq> h then [(ht StateDB ?w, dbOf env StateDB)] else []) @
      (if l_hasHistoryDB l \<and> ht HistoryDB ?w \<noteq> h then [(ht HistoryDB ?w, dbOf env HistoryDB)] else [])"
    using recoverers_lagging [OF assms(1) rs] by simp
  show ?thesis
  proof (cases "ht StateDB ?w = h")
    case True
    show ?thesis
    proof (cases "l_hasHistoryDB l \<and> ht HistoryDB ?w \<noteq> h")
      case h: True
      then have "recommitLostBlocks env (ht HistoryDB ?w) (h - 1) [dbOf env HistoryDB] l = Some (Return (Inr ()), l')"
        using run lag True by simp
      from one_recovered [OF assms(1) last _ this] le True h show ?thesis by simp
    qed (use run lag True in auto)
  next
    case False
    show ?thesis
    proof (cases "l_hasHistoryDB l \<and> ht HistoryDB ?w \<noteq> h")
      case h: True
      then have "recoverBoth env (h - 1) (ht StateDB ?w, dbOf env StateDB) (ht HistoryDB ?w, dbOf env HistoryDB) l = Some (Return (Inr ()), l')"
        using run lag False by simp
      from recoverBoth_levels [OF assms(1) last _ _ _ this] le h show ?thesis by simp
    next
      case nh: False
      then have "recommitLostBlocks env (ht StateDB ?w) (h - 1) [dbOf env StateDB] l = Some (Return (Inr ()), l')"
        using run lag False by (simp only: if_False if_True simp_thms append_Cons append_Nil append_Nil2 list.case prod.case)
      from one_recovered [OF assms(1) last _ this] le nh show ?thesis by simp
    qed
  qed
qed

text \<open>
  C14 (recovery brings the databases level with the block store). When recovery succeeds on a chain
  of height \<open>h > 0\<close>, the state database, and the history database if there is one, are at height
  \<open>h\<close>. Nothing is assumed of a database that is handed another block than the one it asks for
  next, so that the loops have to hand over the blocks in sequence.
\<close>

theorem recovery_levels_databases:
  assumes "recoveryLaws env ht" and "bs_GetBlockchainInfo env (l_world l) = Inr h" and "h \<noteq> 0"
    and "syncStateAndHistoryDBWithBlockstore env l = Some (Return (Inr ()), l')"
  shows "ht StateDB (l_world l') = h \<and> (l_hasHistoryDB l \<longrightarrow> ht HistoryDB (l_world l') = h)"
  using assms by (rule sync_levels)

lemma exStores_recover: "recoveryLaws exStores (\<lambda>i w. case i of StateDB \<Rightarrow> xw_state w | HistoryDB \<Rightarrow> xw_history w)"
proof -
  have "blk_Number b = n" if "find (\<lambda>b. blk_Number b = n) bs = Some b" for n b bs
    using that by (auto simp: find_Some_iff)
  then show ?thesis
    unfolding recoveryLaws_def by (auto simp: exStores_def all_database split: option.splits)
qed

lemma exLedger_recovers:
  "\<exists>l'. syncStateAndHistoryDBWithBlockstore exStores
     (exLedger\<lparr>l_world := \<lparr>xw_log = [], xw_blocks = [exChainBlock 0, exChainBlock 1], xw_state = 0, xw_history = 1, xw_pvt = 2\<rparr>\<rparr>) = Some (Return (Inr ()), l')"
proof -
  have once: "recommitLostBlocks env n n rs l = (case gtry (kv_GetPvtDataAndBlockByNum env n None) (commitLost_each rs) l of
       (Return (Inr _), l') \<Rightarrow> Some (Return (Inr ()), l') | (r, l') \<Rightarrow> Some (r, l'))" if "\<not> n + 1 \<le> n" for env :: "exWorld ledger_env" and n rs l
    by (subst recommitLostBlocks.simps, subst recommitLostBlocks.simps) (simp add: that split: prod.split go.split sum.split)
  have "\<not> (2 :: uint64) \<le> 1" by (simp add: word_le_def)
  then show ?thesis
    by (simp add: syncStateAndHistoryDBWithBlockstore_def recoverBoth_def once kv_GetPvtDataAndBlockByNum_def exLedger_evals)
qed

theorem recovery_levels_databases_witness:
  "\<exists>l'. syncStateAndHistoryDBWithBlockstore exStores
       (exLedger\<lparr>l_world := \<lparr>xw_log = [], xw_blocks = [exChainBlock 0, exChainBlock 1], xw_state = 0, xw_history = 1, xw_pvt = 2\<rparr>\<rparr>) = Some (Return (Inr ()), l') \<and>
     xw_state (l_world l') = 2 \<and> xw_history (l_world l') = 2"
proof -
  let ?l = "exLedger\<lparr>l_world := \<lparr>xw_log = [], xw_blocks = [exChainBlock 0, exChainBlock 1], xw_state = 0, xw_history = 1, xw_pvt = 2\<rparr>\<rparr>"
  obtain l' where run: "syncStateAndHistoryDBWithBlockstore exStores ?l = Some (Return (Inr ()), l')"
    using exLedger_recovers by blast
  have "bs_GetBlockchainInfo exStores (l_world ?l) = Inr 2" by (simp add: exStores_def)
  from recovery_levels_databases [OF exStores_recover this _ run] run show ?thesis
    by (auto simp: exLedger_def)
qed

section \<open>Private data and notifications\<close>

text \<open>
  On an empty chain \<open>info.Height - 1\<close> is the largest uint64, so that the filter for blocks which
  are not committed yet removes nothing.
\<close>

lemma filterYetToCommitBlocks_empty_chain:
  assumes "bs_GetBlockchainInfo env (l_world l) = Inr 0"
  shows "filterYetToCommitBlocks env blocks l = (Return (Inr blocks), l)"
  using assms by (simp add: filterYetToCommitBlocks_def ask_def go_defs case_prod_unfold not_less)

lemma filterYetToCommitBlocks_filters:
  assumes "bs_GetBlockchainInfo env (l_world l) = Inr h" "h \<noteq> 0"
  shows "filterYetToCommitBlocks env blocks l = (Return (Inr (filter (\<lambda>(n, _). n < h) blocks)), l)"
proof -
  have "(\<not> n > h - 1) = (n < h)" for n
    using assms(2) unat_succ [of "h - 1"] by (simp add: word_less_nat_alt not_less word_le_nat_alt less_Suc_eq_le)
  then show ?thesis using assms(1) by (simp add: filterYetToCommitBlocks_def ask_def go_defs)
qed

text \<open>
  The notification of a block lists the transaction ids of the block once each, without the empty
  id, and for each the outcome of its first transaction: later ones are duplicates.
\<close>

lemma notification_ids: "ni_TxID ` set (notification_loop seen ts) = ts_TxIDFromChannelHeader ` set ts - insert [] seen"
  by (induction seen ts rule: notification_loop.induct) (auto simp: Let_def txInfoOf_def)

theorem notification_exact:
  "distinct (map ni_TxID (notification_loop {} ts)) \<and>
   set (map ni_TxID (notification_loop {} ts)) = set (map ts_TxIDFromChannelHeader ts) - {''''} \<and>
   (\<forall>x \<in> set (notification_loop {} ts).
      \<exists>t. find (\<lambda>t. ts_TxIDFromChannelHeader t = ni_TxID x) ts = Some t \<and> x = txInfoOf t)"
proof -
  have "distinct (map ni_TxID (notification_loop seen ts))" for seen
    by (induction seen ts rule: notification_loop.induct) (auto simp: Let_def notification_ids txInfoOf_def)
  moreover have "\<exists>t. find (\<lambda>t. ts_TxIDFromChannelHeader t = ni_TxID x) ts = Some t \<and> x = txInfoOf t"
    if "x \<in> set (notification_loop seen ts)" for seen x
    using that
  proof (induction seen ts rule: notification_loop.induct)
    case (2 seen t ts)
    have new: "ni_TxID x \<notin> insert [] seen" using notification_ids [of seen "t # ts"] 2(3) by blast
    show ?case
    proof (cases "x = txInfoOf t")
      case True
      then show ?thesis by (simp add: txInfoOf_def)
    next
      case False
      let ?skip = "ts_TxIDFromChannelHeader t = '''' \<or> ts_TxIDFromChannelHeader t \<in> seen"
      have x: "x \<in> set (notification_loop (if ?skip then seen else insert (ts_TxIDFromChannelHeader t) seen) ts)"
        using 2(3) False by (auto simp: Let_def split: if_splits)
      then have "ts_TxIDFromChannelHeader t \<noteq> ni_TxID x"
        using new notification_ids [of "insert (ts_TxIDFromChannelHeader t) seen" ts] by (auto split: if_splits)
      with 2(1,2) x show ?thesis by (auto split: if_splits)
    qed
  qed simp
  ultimately show ?thesis using notification_ids [of "{}" ts] by simp
qed

text \<open>The private data of a block is written in transaction order.\<close>

lemma constructPvtData_order:
  "fst (constructPvtDataAndMissingData env bp) =
     List.map_filter (bp_PvtData bp) (map of_nat [0..<length (blk_Data (bp_Block bp))])"
proof -
  have "fst (fold (missingStep env bp) ns acc) = fst acc @ List.map_filter (bp_PvtData bp) ns" for ns acc
    by (induction ns arbitrary: acc) (auto simp: missingStep_def List.map_filter_def split: prod.splits option.splits)
  then show ?thesis by (simp add: constructPvtDataAndMissingData_def)
qed

end
