(* ===== verification/KV_Crash.thy ===== *)
theory KV_Crash
  imports KV_Recovery
begin

text \<open>
  Crashes: however a commit ends (an error of a store, a panic, or the end of the process after any
  of its writes, which is a write that took effect without being acknowledged), the restart finds
  databases that are not ahead of the block store and brings them level; and the private data store,
  when it is ahead, is not written again for the blocks it already has.
\<close>

section \<open>Heights\<close>

text \<open>
  The heights of the stores. An acknowledged write raises the height of its own store by one; a write
  that is not acknowledged may or may not have raised it. No operation changes another height.
\<close>

abbreviation same :: "('w \<Rightarrow> uint64) list \<Rightarrow> 'w \<Rightarrow> 'w \<Rightarrow> bool" where
  "same hs w w' \<equiv> list_all (\<lambda>h. h w' = h w) hs"

definition raises :: "('w \<Rightarrow> uint64) \<Rightarrow> ('w \<Rightarrow> uint64) list \<Rightarrow> ('w \<Rightarrow> (string + unit) \<times> 'w) \<Rightarrow> bool" where
  "raises h others op \<longleftrightarrow>
     (\<forall>w y w'. op w = (y, w') \<longrightarrow> (h w' = h w + 1 \<or> h w' = h w \<and> isl y) \<and> same others w w')"

definition keepsAll :: "('w \<Rightarrow> uint64) list \<Rightarrow> ('w \<Rightarrow> 'w) \<Rightarrow> bool" where
  "keepsAll hs f \<longleftrightarrow> (\<forall>w. same hs w (f w))"

lemma raisesD: "raises h others op \<Longrightarrow> op w = (y, w') \<Longrightarrow> (h w' = h w + 1 \<or> h w' = h w \<and> isl y) \<and> same others w w'"
  unfolding raises_def by blast

lemma keepsAllD: "keepsAll hs f \<Longrightarrow> same hs w (f w)"
  unfolding keepsAll_def by blast

definition heightLaws ::
  "'w ledger_env \<Rightarrow> ('w \<Rightarrow> uint64) \<Rightarrow> ('w \<Rightarrow> uint64) \<Rightarrow> (database \<Rightarrow> 'w \<Rightarrow> uint64) \<Rightarrow> bool" where
  "heightLaws env bh ph ht \<longleftrightarrow>
     (\<forall>w. bs_GetBlockchainInfo env w = Inr (bh w)) \<and>
     (\<forall>w h. pv_LastCommittedBlockHeight env w = Inr h \<longrightarrow> h = ph w) \<and>
     (\<forall>b w us ts bt b'. fst (tm_ValidateAndPrepare env b w) = Inr (us, ts, bt, b') \<longrightarrow>
        blk_Number (bp_Block b') = blk_Number (bp_Block b)) \<and>
     (\<forall>n d m p. raises ph [bh, ht StateDB, ht HistoryDB] (pv_Commit env n d m p)) \<and>
     (\<forall>b. raises bh [ph, ht StateDB, ht HistoryDB] (bs_AddBlock env b)) \<and>
     raises (ht StateDB) [bh, ph, ht HistoryDB] (tm_Commit env) \<and>
     (\<forall>b. raises (ht HistoryDB) [bh, ph, ht StateDB] (hd_Commit env b)) \<and>
     (\<forall>f \<in> {snd \<circ> tm_ValidateAndPrepare env b | b. True} \<union> {tm_UpdateBatch env ks | ks. True} \<union>
         {st_updateBlockProcessingTime env t | t. True} \<union> {st_updateBlockstorageAndPvtdataCommitTime env t | t. True} \<union>
         {st_updateStatedbCommitTime env t | t. True} \<union> {st_updateTransactionsStats env ts | ts. True}.
        keepsAll [bh, ph, ht StateDB, ht HistoryDB] f)"

lemma heightLawsD:
  assumes "heightLaws env bh ph ht"
  shows "bs_GetBlockchainInfo env w = Inr (bh w)"
    "pv_LastCommittedBlockHeight env w = Inr h \<Longrightarrow> h = ph w"
    "tm_ValidateAndPrepare env b w = (Inr (us, ts, bt, b'), w') \<Longrightarrow> blk_Number (bp_Block b') = blk_Number (bp_Block b)"
    "raises ph [bh, ht StateDB, ht HistoryDB] (pv_Commit env n d m p)"
    "raises bh [ph, ht StateDB, ht HistoryDB] (bs_AddBlock env blk)"
    "raises (ht StateDB) [bh, ph, ht HistoryDB] (tm_Commit env)"
    "raises (ht HistoryDB) [bh, ph, ht StateDB] (hd_Commit env blk)"
  using assms unfolding heightLaws_def by (blast | metis fst_conv)+

lemma heightLaws_keep:
  assumes "heightLaws env bh ph ht"
  shows "same [bh, ph, ht StateDB, ht HistoryDB] w (snd (tm_ValidateAndPrepare env b w))"
    "same [bh, ph, ht StateDB, ht HistoryDB] w (tm_UpdateBatch env ks w)"
    "same [bh, ph, ht StateDB, ht HistoryDB] w (st_updateBlockProcessingTime env t w)"
    "same [bh, ph, ht StateDB, ht HistoryDB] w (st_updateBlockstorageAndPvtdataCommitTime env t w)"
    "same [bh, ph, ht StateDB, ht HistoryDB] w (st_updateStatedbCommitTime env t w)"
    "same [bh, ph, ht StateDB, ht HistoryDB] w (st_updateTransactionsStats env ts' w)"
proof -
  have k: "keepsAll [bh, ph, ht StateDB, ht HistoryDB] f"
    if "f \<in> {snd \<circ> tm_ValidateAndPrepare env b, tm_UpdateBatch env ks, st_updateBlockProcessingTime env t,
         st_updateBlockstorageAndPvtdataCommitTime env t, st_updateStatedbCommitTime env t, st_updateTransactionsStats env ts'}" for f
    using assms that unfolding heightLaws_def by blast
  show "same [bh, ph, ht StateDB, ht HistoryDB] w (snd (tm_ValidateAndPrepare env b w))"
    using keepsAllD [OF k, of "snd \<circ> tm_ValidateAndPrepare env b" w] by simp
  show "same [bh, ph, ht StateDB, ht HistoryDB] w (tm_UpdateBatch env ks w)"
    "same [bh, ph, ht StateDB, ht HistoryDB] w (st_updateBlockProcessingTime env t w)"
    "same [bh, ph, ht StateDB, ht HistoryDB] w (st_updateBlockstorageAndPvtdataCommitTime env t w)"
    "same [bh, ph, ht StateDB, ht HistoryDB] w (st_updateStatedbCommitTime env t w)"
    "same [bh, ph, ht StateDB, ht HistoryDB] w (st_updateTransactionsStats env ts' w)"
    by (rule keepsAllD [OF k], blast)+
qed

section \<open>A commit and the heights\<close>

lemma commitToPvtAndBlockStore_heights:
  assumes laws: "heightLaws env bh ph ht" and run: "commitToPvtAndBlockStore env bp ms l = (r, l')"
  shows "same [ht StateDB, ht HistoryDB] (l_world l) (l_world l') \<and> l_hasHistoryDB l' = l_hasHistoryDB l \<and>
    (bh (l_world l') = bh (l_world l) + 1 \<or> bh (l_world l') = bh (l_world l) \<and> r \<noteq> Return (Inr ())) \<and>
    (r = Return (Inr ()) \<longrightarrow> ph (l_world l') = (if l_isPvtstoreAheadOfBlkstore l then ph (l_world l) else ph (l_world l) + 1) \<and>
       l_isPvtstoreAheadOfBlkstore l' = (l_isPvtstoreAheadOfBlkstore l \<and> ph (l_world l) \<noteq> blk_Number (bp_Block bp) + 1))"
proof -
  note add = raisesD [OF heightLawsD(5) [OF laws]] and pv = raisesD [OF heightLawsD(4) [OF laws]]
  have pvt: "(ph w0 = (if l_isPvtstoreAheadOfBlkstore l then ph (l_world l) else ph (l_world l) + 1) \<or> isl x) \<and>
      same [bh, ht StateDB, ht HistoryDB] (l_world l) w0" if "storedPvt env bp ms l = (x, w0)" for x w0
    using that by (auto simp: storedPvt_def dest!: pv split: if_splits prod.splits)
  show ?thesis
    using run
  proof (cases rule: commitToPvtAndBlockStore_cases)
    case (no_pvt e w0)
    with pvt show ?thesis by auto
  next
    case (no_block e w0 w1)
    with pvt [OF no_block(1)] add [OF no_block(2)] show ?thesis by auto
  next
    case (written w0 w1 h)
    with pvt [OF written(2)] add [OF written(3)] heightLawsD(2) [OF laws written(1)] show ?thesis by auto
  qed auto
qed

lemma commitToDatabases_heights:
  assumes laws: "heightLaws env bh ph ht" and run: "commitToDatabases env n b ks ts l = (r, l')"
  shows "same [bh, ph] (l_world l) (l_world l') \<and> l_hasHistoryDB l' = l_hasHistoryDB l \<and>
    l_isPvtstoreAheadOfBlkstore l' = l_isPvtstoreAheadOfBlkstore l \<and>
    (ht StateDB (l_world l') = ht StateDB (l_world l) + 1 \<or>
       ht StateDB (l_world l') = ht StateDB (l_world l) \<and> ht HistoryDB (l_world l') = ht HistoryDB (l_world l) \<and> r \<noteq> Return (Inr ())) \<and>
    (ht HistoryDB (l_world l') = ht HistoryDB (l_world l) \<or> l_hasHistoryDB l \<and> ht HistoryDB (l_world l') = ht HistoryDB (l_world l) + 1) \<and>
    (r = Return (Inr ()) \<longrightarrow> l_hasHistoryDB l \<longrightarrow> ht HistoryDB (l_world l') = ht HistoryDB (l_world l) + 1)"
proof -
  obtain c w1 where c: "tm_Commit env (tm_UpdateBatch env ks (l_world l)) = (c, w1)" by fastforce
  obtain x w2 where x: "hd_Commit env b w1 = (x, w2)" by fastforce
  note c' = raisesD [OF heightLawsD(6) [OF laws] c] heightLaws_keep(2) [OF laws, of ks "l_world l"]
  note x' = raisesD [OF heightLawsD(7) [OF laws] x]
  note keep = heightLaws_keep(3-6) [OF laws, simplified]
  note defs = commitToDatabases_def orPanic_def updateBlockStats_def ledger_defs case_prod_unfold
  have notify: "\<exists>l2. sendCommitNotification n ts l1 = (Return (), l2) \<and> l_world l2 = l_world l1 \<and> l_hasHistoryDB l2 = l_hasHistoryDB l1 \<and>
    l_isPvtstoreAheadOfBlkstore l2 = l_isPvtstoreAheadOfBlkstore l1" for l1 :: "'a kvLedger"
    by (auto simp: sendCommitNotification_def go_defs split: option.splits)
  show ?thesis
  proof (cases c)
    case (Inl e)
    then show ?thesis using run c c' by (auto simp: defs)
  next
    case c1: (Inr u)
    show ?thesis
    proof (cases "l_hasHistoryDB l \<and> isl x")
      case True
      then show ?thesis using run c c' c1 x x' by (cases x) (auto simp: defs)
    next
      case False
      define w3 where "w3 = (if l_hasHistoryDB l then w2 else w1)"
      define w4 where "w4 = st_updateTransactionsStats env ts (st_updateStatedbCommitTime env (snd (snd (ck_elapsed env w3)))
        (st_updateBlockstorageAndPvtdataCommitTime env (fst (snd (ck_elapsed env w3))) (st_updateBlockProcessingTime env (fst (ck_elapsed env w3)) w3)))"
      obtain l2 where l2: "sendCommitNotification n ts (l\<lparr>l_world := w4\<rparr>) = (Return (), l2)" "l_world l2 = w4"
        "l_hasHistoryDB l2 = l_hasHistoryDB l" "l_isPvtstoreAheadOfBlkstore l2 = l_isPvtstoreAheadOfBlkstore l"
        using notify [of "l\<lparr>l_world := w4\<rparr>"] by auto
      have "(r, l') = (Return (Inr ()), l2)"
        using run c c1 x False l2(1) by (cases "l_hasHistoryDB l"; cases x) (auto simp: defs w3_def w4_def)
      moreover have "same [bh, ph, ht StateDB, ht HistoryDB] w3 w4" by (simp add: w4_def keep)
      moreover have "same [bh, ph] w1 w3" "ht StateDB w3 = ht StateDB w1"
        "ht HistoryDB w3 = (if l_hasHistoryDB l then ht HistoryDB w1 + 1 else ht HistoryDB w1)"
        using x' False by (auto simp: w3_def)
      ultimately show ?thesis using c' c1 l2 by auto
    qed
  qed
qed

lemma kv_commit_heights:
  assumes laws: "heightLaws env bh ph ht" and run: "kv_commit env bp fetch l = (r, l')"
    and level: "ht StateDB (l_world l) = bh (l_world l)" "l_hasHistoryDB l \<Longrightarrow> ht HistoryDB (l_world l) = bh (l_world l)"
  shows "(bh (l_world l') = bh (l_world l) \<or> bh (l_world l') = bh (l_world l) + 1) \<and>
    (\<forall>i. i = StateDB \<or> l_hasHistoryDB l \<longrightarrow> ht i (l_world l') = bh (l_world l) \<or> ht i (l_world l') = bh (l_world l')) \<and>
    (r = Return (Inr ()) \<longrightarrow> bh (l_world l') = bh (l_world l) + 1 \<and>
       (\<forall>i. i = StateDB \<or> l_hasHistoryDB l \<longrightarrow> ht i (l_world l') = bh (l_world l')))"
  using run
proof (cases rule: kv_commit_cases)
  case (unfetched e)
  then show ?thesis using level by (auto simp: all_database)
next
  case (unprepared bp0 x w)
  then have "same [bh, ph, ht StateDB, ht HistoryDB] (l_world l) (l_world l')"
    using heightLaws_keep(1) [OF laws, of bp0 "l_world l"] by simp
  then show ?thesis using level unprepared(2) by (auto simp: all_database)
next
  case (locked bp0 b1 batch w n bp1 us ts l2)
  have w: "same [bh, ph, ht StateDB, ht HistoryDB] (l_world l) (l_world l2)"
    using heightLaws_keep(1) [OF laws, of bp0 "l_world l"] locked(1,3) by simp
  from locked(2) show ?thesis
  proof (cases rule: commitUnderLock_cases)
    case (no_keys e)
    then show ?thesis using w level by (auto simp: all_database)
  next
    case (no_stores e l3)
    from commitToPvtAndBlockStore_heights [OF laws no_stores(1)] no_stores(2,3) w level show ?thesis by (auto simp: all_database)
  next
    case (stored l3 ks l4)
    from commitToPvtAndBlockStore_heights [OF laws stored(1)] commitToDatabases_heights [OF laws stored(2)] stored(3) w level locked(6)
    show ?thesis by (auto simp: all_database)
  qed
qed

section \<open>Recovery succeeds\<close>

text \<open>Stores that answer: the blocks below the height and their private data can be read, and lost blocks can be committed.\<close>

definition storesAnswer :: "'w ledger_env \<Rightarrow> ('w \<Rightarrow> uint64) \<Rightarrow> bool" where
  "storesAnswer env bh \<longleftrightarrow>
     (\<forall>n w. n < bh w \<longrightarrow> (\<exists>b d. bs_RetrieveBlockByNumber env n w = Inr b \<and> pv_GetPvtDataByBlockNum env n None w = Inr d)) \<and>
     (\<forall>i b w. \<exists>w'. rc_CommitLostBlock (dbOf env i) b w = (Inr (), w') \<and> bh w' = bh w)"

lemma commitLost_each_succeeds:
  assumes "storesAnswer env bh"
  shows "\<exists>l'. commitLost_each (map (dbOf env) is) b l = (Return (Inr ()), l') \<and> bh (l_world l') = bh (l_world l)"
proof (induction "is" arbitrary: l)
  case (Cons i "is")
  obtain w where w: "rc_CommitLostBlock (dbOf env i) b (l_world l) = (Inr (), w)" "bh w = bh (l_world l)"
    using assms unfolding storesAnswer_def by blast
  from Cons [of "l\<lparr>l_world := w\<rparr>"] w show ?case by (auto simp: ledger_defs)
qed (simp add: gret_def)

lemma recommitLostBlocks_succeeds:
  assumes ans: "storesAnswer env bh" and last: "lastBlockNum \<noteq> - 1"
  shows "lastBlockNum < bh (l_world l) \<Longrightarrow>
    \<exists>l'. recommitLostBlocks env n lastBlockNum (map (dbOf env) is) l = Some (Return (Inr ()), l') \<and> bh (l_world l') = bh (l_world l)"
proof (induction "unat (lastBlockNum + 1) - unat n" arbitrary: n l rule: less_induct)
  case less
  show ?case
  proof (cases "n \<le> lastBlockNum")
    case False
    then show ?thesis by (subst recommitLostBlocks.simps) simp
  next
    case True
    then have "n < bh (l_world l)" using less.prems by (rule order.strict_trans1)
    then obtain b d where bd: "bs_RetrieveBlockByNumber env n (l_world l) = Inr b" "pv_GetPvtDataByBlockNum env n None (l_world l) = Inr d"
      using ans unfolding storesAnswer_def by blast
    let ?bp = "\<lparr>bp_Block = b, bp_PvtData = constructPvtdataMap d, bp_MissingPvtData = Map.empty\<rparr>"
    have get: "kv_GetPvtDataAndBlockByNum env n None l = (Return (Inr ?bp), l)"
      using bd by (simp add: kv_GetPvtDataAndBlockByNum_def ledger_defs)
    obtain l1 where l1: "commitLost_each (map (dbOf env) is) ?bp l = (Return (Inr ()), l1)" "bh (l_world l1) = bh (l_world l)"
      using commitLost_each_succeeds [OF ans] by blast
    have "n \<noteq> - 1" using True last word_order.extremum_uniqueI [of lastBlockNum] by auto
    then have "unat (lastBlockNum + 1) - unat (n + 1) < unat (lastBlockNum + 1) - unat n"
      using True unat_succ [OF last] unat_succ [of n] by (simp add: word_le_nat_alt)
    from less.hyps [OF this, of l1] less.prems l1(2) obtain l2 where
      l2: "recommitLostBlocks env (n + 1) lastBlockNum (map (dbOf env) is) l1 = Some (Return (Inr ()), l2)" "bh (l_world l2) = bh (l_world l)"
      by auto
    have "recommitLostBlocks env n lastBlockNum (map (dbOf env) is) l = Some (Return (Inr ()), l2)"
      using True get l1(1) l2(1) by (subst recommitLostBlocks.simps) (simp add: gtry_def gbind_def)
    with l2(2) show ?thesis by blast
  qed
qed

lemma recoverers_accept:
  assumes "recoveryLaws env ht"
  shows "\<forall>i \<in> set is. ht i w \<le> n + 1 \<Longrightarrow>
    recoverers_loop lid None n (map (dbOf env) is) w = Inr (map (\<lambda>i. (ht i w, dbOf env i)) (filter (\<lambda>i. ht i w \<noteq> n + 1) is))"
  by (induction "is") (auto simp: recoveryLawsD(1) [OF assms] not_less)

lemma recoverBoth_succeeds:
  assumes ans: "storesAnswer env bh" and last: "lastBlockNum \<noteq> - 1" "lastBlockNum < bh (l_world l)"
    and le: "m \<le> lastBlockNum + 1" "m' \<le> lastBlockNum + 1"
  shows "\<exists>l'. recoverBoth env lastBlockNum (m, dbOf env i) (m', dbOf env j) l = Some (Return (Inr ()), l')"
proof -
  have ordered: "\<exists>l'. (case (if a \<noteq> b then recommitLostBlocks env a (b - 1) [dbOf env x] l else Some (Return (Inr ()), l)) of
        None \<Rightarrow> None
      | Some (Return (Inr _), l') \<Rightarrow> recommitLostBlocks env b lastBlockNum [dbOf env x, dbOf env y] l'
      | Some (r, l') \<Rightarrow> Some (r, l')) = Some (Return (Inr ()), l')"
    if "a \<le> b" "b \<le> lastBlockNum + 1" for a b x y
  proof -
    have "\<exists>l1. (if a \<noteq> b then recommitLostBlocks env a (b - 1) [dbOf env x] l else Some (Return (Inr ()), l)) = Some (Return (Inr ()), l1) \<and>
      bh (l_world l1) = bh (l_world l)"
    proof (cases "a = b")
      case False
      then have b: "b \<noteq> 0" using that(1) by auto
      then have "unat (b - 1) + 1 = unat b" using unat_succ [of "b - 1"] by simp
      then have "b - 1 \<le> lastBlockNum" using that(2) unat_succ [OF last(1)] by (simp add: word_le_nat_alt)
      then have "b - 1 < bh (l_world l)" using last(2) by (rule order.strict_trans1)
      from recommitLostBlocks_succeeds [OF ans _ this, of a "[x]"] b False show ?thesis by simp
    qed simp
    then obtain l1 where l1: "(if a \<noteq> b then recommitLostBlocks env a (b - 1) [dbOf env x] l else Some (Return (Inr ()), l)) = Some (Return (Inr ()), l1)"
      "bh (l_world l1) = bh (l_world l)" by blast
    then have "lastBlockNum < bh (l_world l1)" using last(2) by simp
    from recommitLostBlocks_succeeds [OF ans last(1) this, of b "[x, y]"] l1(1) show ?thesis by auto
  qed
  show ?thesis
  proof (cases "m > m'")
    case True
    with ordered [of m' m j i] le show ?thesis unfolding recoverBoth_def fst_conv if_P [OF True] prod.case by simp
  next
    case False
    with ordered [of m m' i j] le show ?thesis unfolding recoverBoth_def fst_conv if_not_P [OF False] prod.case by simp
  qed
qed

lemma sync_succeeds:
  assumes laws: "recoveryLaws env ht" and ans: "storesAnswer env bh"
    and info: "bs_GetBlockchainInfo env (l_world l) = Inr (bh (l_world l))" and boot: "l_bootSnapshotMetadata l = None"
    and le: "ht StateDB (l_world l) \<le> bh (l_world l)" "l_hasHistoryDB l \<Longrightarrow> ht HistoryDB (l_world l) \<le> bh (l_world l)"
  shows "\<exists>l'. syncStateAndHistoryDBWithBlockstore env l = Some (Return (Inr ()), l')"
proof (cases "bh (l_world l) = 0")
  case False
  let ?is = "StateDB # (if l_hasHistoryDB l then [HistoryDB] else [])"
  let ?n = "bh (l_world l) - 1"
  let ?rs = "map (\<lambda>i. (ht i (l_world l), dbOf env i)) (filter (\<lambda>i. ht i (l_world l) \<noteq> ?n + 1) ?is)"
  have last: "?n \<noteq> - 1" "?n < bh (l_world l)" using False unat_succ [of ?n] by (simp_all add: word_less_nat_alt)
  have dbs: "rc_txmgr env # (if l_hasHistoryDB l then [rc_historyDB env] else []) = map (dbOf env) ?is" by simp
  have rs: "recoverers_loop (l_ledgerID l) (l_bootSnapshotMetadata l) ?n (map (dbOf env) ?is) (l_world l) = Inr ?rs"
    unfolding boot using le by (intro recoverers_accept [OF laws]) auto
  have sync: "syncStateAndHistoryDBWithBlockstore env l =
      (case ?rs of [] \<Rightarrow> Some (Return (Inr ()), l) | [(n, r)] \<Rightarrow> recommitLostBlocks env n ?n [r] l | a # b # _ \<Rightarrow> recoverBoth env ?n a b l)"
    unfolding syncStateAndHistoryDBWithBlockstore_def info sum.case if_not_P [OF False] Let_def dbs rs ..
  have one: "\<exists>l'. recommitLostBlocks env n ?n [dbOf env i] l = Some (Return (Inr ()), l')" for n i
    using recommitLostBlocks_succeeds [OF ans last, of n "[i]"] by auto
  have both: "\<exists>l'. recoverBoth env ?n (ht StateDB (l_world l), dbOf env StateDB) (ht HistoryDB (l_world l), dbOf env HistoryDB) l = Some (Return (Inr ()), l')"
    if "l_hasHistoryDB l"
    using recoverBoth_succeeds [OF ans last, of "ht StateDB (l_world l)" "ht HistoryDB (l_world l)" StateDB HistoryDB] le that by simp
  show ?thesis
  proof (cases "l_hasHistoryDB l \<and> ht HistoryDB (l_world l) \<noteq> bh (l_world l)")
    case True
    with one [of "ht HistoryDB (l_world l)" HistoryDB] both show ?thesis
      unfolding sync by (cases "ht StateDB (l_world l) = bh (l_world l)") simp_all
  next
    case F: False
    then have "filter (\<lambda>i. ht i (l_world l) \<noteq> ?n + 1) ?is = (if ht StateDB (l_world l) = bh (l_world l) then [] else [StateDB])" by auto
    with one [of "ht StateDB (l_world l)" StateDB] show ?thesis unfolding sync by simp
  qed
qed (simp add: syncStateAndHistoryDBWithBlockstore_def info)

text \<open>
  C11 (a crash during a commit is repaired at the restart). On a ledger whose databases are level with
  the block store, however a commit ends (success, error or panic, and with writes that were not
  acknowledged) the recovery of a ledger restarted on what is stored returns without error and leaves
  the state database, and the history database if there is one, at the height of the block store. That
  height is the old one or one more, and one more when the commit reported success.
\<close>

theorem crash_recovery:
  assumes "heightLaws env bh ph ht" and "recoveryLaws env ht" and "storesAnswer env bh"
    and "ht StateDB (l_world l) = bh (l_world l)" and "l_hasHistoryDB l \<longrightarrow> ht HistoryDB (l_world l) = bh (l_world l)"
    and "bh (l_world l) \<noteq> - 1" and "kv_commit env bp fetch l = (r, l1)"
    and "l_world l2 = l_world l1" and "l_hasHistoryDB l2 = l_hasHistoryDB l" and "l_bootSnapshotMetadata l2 = None"
  shows "\<exists>l3. syncStateAndHistoryDBWithBlockstore env l2 = Some (Return (Inr ()), l3) \<and>
    ht StateDB (l_world l3) = bh (l_world l1) \<and> (l_hasHistoryDB l \<longrightarrow> ht HistoryDB (l_world l3) = bh (l_world l1)) \<and>
    (bh (l_world l1) = bh (l_world l) \<or> bh (l_world l1) = bh (l_world l) + 1) \<and>
    (r = Return (Inr ()) \<longrightarrow> bh (l_world l1) = bh (l_world l) + 1)"
proof -
  let ?w = "l_world l1"
  note com = kv_commit_heights [OF assms(1,7,4) assms(5) [rule_format]]
  have up: "bh (l_world l) \<le> bh (l_world l) + 1" using unat_succ [OF assms(6)] by (simp add: word_le_nat_alt)
  have le: "ht i (l_world l2) \<le> bh (l_world l2)" if "i = StateDB \<or> l_hasHistoryDB l2" for i
  proof -
    have "ht i ?w = bh (l_world l) \<or> ht i ?w = bh ?w" "bh ?w = bh (l_world l) \<or> bh ?w = bh (l_world l) + 1"
      using com that assms(9) by blast+
    then show ?thesis unfolding assms(8) using up by (elim disjE) simp_all
  qed
  have info: "bs_GetBlockchainInfo env (l_world l2) = Inr (bh (l_world l2))" by (rule heightLawsD(1) [OF assms(1)])
  obtain l3 where l3: "syncStateAndHistoryDBWithBlockstore env l2 = Some (Return (Inr ()), l3)"
    using sync_succeeds [OF assms(2,3) info assms(10)] le by blast
  have "ht StateDB (l_world l3) = bh ?w \<and> (l_hasHistoryDB l \<longrightarrow> ht HistoryDB (l_world l3) = bh ?w)"
  proof (cases "bh ?w = 0")
    case True
    then have "l3 = l2" using l3 info assms(8) by (simp add: syncStateAndHistoryDBWithBlockstore_def)
    then show ?thesis using le [of StateDB] le [of HistoryDB] True assms(8,9) by auto
  next
    case False
    then show ?thesis using sync_levels [OF assms(2) info _ l3] assms(8,9) by simp
  qed
  with l3 com show ?thesis by blast
qed

text \<open>
  C32 (private data is written once). The flag that the private data store is ahead of the block store
  stays true to the heights of the two stores across every successful commit of the next block, and
  the private data store is raised only when it is not ahead: a store that is ahead after a crash
  or a rollback keeps its height until the block store has caught up, and from then on both grow
  together.
\<close>

theorem private_data_written_once:
  assumes "heightLaws env bh ph ht" and "kv_commit env bp fetch l = (Return (Inr ()), l')"
    and "blk_Number (bp_Block bp) = bh (l_world l)" and "bh (l_world l) \<noteq> - 1" and "bh (l_world l) \<le> ph (l_world l)"
    and "l_isPvtstoreAheadOfBlkstore l \<longleftrightarrow> bh (l_world l) < ph (l_world l)"
  shows "bh (l_world l') = bh (l_world l) + 1 \<and> ph (l_world l') = max (ph (l_world l)) (bh (l_world l')) \<and>
    (l_isPvtstoreAheadOfBlkstore l' \<longleftrightarrow> bh (l_world l') < ph (l_world l'))"
  using assms(2)
proof (cases rule: kv_commit_cases)
  case (locked bp0 b1 batch w n bp1 us ts l2)
  have w: "same [bh, ph] (l_world l) (l_world l2)"
    using heightLaws_keep(1) [OF assms(1), of bp0 "l_world l"] locked(1,3) by simp
  have n: "blk_Number (bp_Block bp1) = bh (l_world l)" using locked(7,8) heightLawsD(3) [OF assms(1) locked(1)] assms(3) by simp
  from locked(2) show ?thesis
  proof (cases rule: commitUnderLock_cases)
    case (stored l3 ks l4)
    have run: "bh (l_world l') = bh (l_world l) + 1 \<and>
      ph (l_world l') = (if l_isPvtstoreAheadOfBlkstore l then ph (l_world l) else ph (l_world l) + 1) \<and>
      l_isPvtstoreAheadOfBlkstore l' = (l_isPvtstoreAheadOfBlkstore l \<and> ph (l_world l) \<noteq> bh (l_world l) + 1)"
    proof -
      have s: "bh (l_world l3) = bh (l_world l2) + 1"
        "ph (l_world l3) = (if l_isPvtstoreAheadOfBlkstore l2 then ph (l_world l2) else ph (l_world l2) + 1)"
        "l_isPvtstoreAheadOfBlkstore l3 = (l_isPvtstoreAheadOfBlkstore l2 \<and> ph (l_world l2) \<noteq> blk_Number (bp_Block bp1) + 1)"
        using commitToPvtAndBlockStore_heights [OF assms(1) stored(1)] by auto
      have d: "bh (l_world l4) = bh (l_world l3)" "ph (l_world l4) = ph (l_world l3)"
        "l_isPvtstoreAheadOfBlkstore l4 = l_isPvtstoreAheadOfBlkstore l3"
        using commitToDatabases_heights [OF assms(1) stored(2)] by auto
      show ?thesis using s d stored(3) w n locked(5) by simp
    qed
    have next_iff: "bh (l_world l) + 1 \<le> p \<longleftrightarrow> bh (l_world l) < p" for p
      using unat_succ [OF assms(4)] by (simp add: word_le_nat_alt word_less_nat_alt Suc_le_eq)
    show ?thesis
    proof (cases "l_isPvtstoreAheadOfBlkstore l")
      case True
      then have "bh (l_world l) + 1 \<le> ph (l_world l)" using assms(6) next_iff by simp
      then show ?thesis using run True by (auto simp: max_absorb1 less_le)
    next
      case False
      then have "ph (l_world l) = bh (l_world l)" using assms(5,6) by simp
      moreover have "bh (l_world l) \<le> bh (l_world l) + 1" using next_iff [of "bh (l_world l) + 1"] by (simp add: less_imp_le)
      ultimately show ?thesis using run False by (simp add: max_absorb2)
    qed
  qed simp_all
qed simp_all

section \<open>An example\<close>

text \<open>A chain of example blocks on which the history database does not take a block while the peer commits it.\<close>

definition exHeight :: "database \<Rightarrow> exWorld \<Rightarrow> uint64" where
  "exHeight i = (case i of StateDB \<Rightarrow> xw_state | HistoryDB \<Rightarrow> xw_history)"

definition exChain :: "exWorld ledger_env" where
  "exChain = exStores\<lparr>bs_RetrieveBlockByNumber := (\<lambda>n _. Inr (exChainBlock n))\<rparr>"

definition exBroken :: "exWorld ledger_env" where
  "exBroken = exChain\<lparr>hd_Commit := (\<lambda>_ w. (Inl ''io error'', w))\<rparr>"

lemmas exChain_evals = exBroken_def exChain_def exHeight_def

lemma exChain_heights: "heightLaws exChain (\<lambda>w. of_nat (length (xw_blocks w))) xw_pvt exHeight"
  unfolding heightLaws_def raises_def keepsAll_def by (auto simp: exChain_evals exStores_def)

lemma exBroken_heights: "heightLaws exBroken (\<lambda>w. of_nat (length (xw_blocks w))) xw_pvt exHeight"
  unfolding heightLaws_def raises_def keepsAll_def by (auto simp: exChain_evals exStores_def)

lemma exBroken_recover: "recoveryLaws exBroken exHeight"
  unfolding recoveryLaws_def by (auto simp: exChain_evals exStores_def all_database exChainBlock_def)

lemma exBroken_answers: "storesAnswer exBroken (\<lambda>w. of_nat (length (xw_blocks w)))"
  unfolding storesAnswer_def by (auto simp: exChain_evals exStores_def all_database)

theorem crash_recovery_witness:
  "\<exists>v l3. fst (kv_commit exBroken exCommitted False exLedger) = Panic v \<and>
     syncStateAndHistoryDBWithBlockstore exBroken (snd (kv_commit exBroken exCommitted False exLedger)) = Some (Return (Inr ()), l3) \<and>
     xw_state (l_world l3) = 2 \<and> xw_history (l_world l3) = 2"
proof -
  obtain v l1 where run: "kv_commit exBroken exCommitted False exLedger = (Panic v, l1)"
    and l1: "length (xw_blocks (l_world l1)) = 2" "l_hasHistoryDB l1" "l_bootSnapshotMetadata l1 = None"
    by (simp add: exChain_evals exLedger_evals)
  from crash_recovery [OF exBroken_heights exBroken_recover exBroken_answers _ _ _ run refl _ l1(3)] l1 run show ?thesis
    by (auto simp: exLedger_def exHeight_def)
qed

theorem private_data_written_once_witness:
  "\<exists>l'. kv_commit exChain exCommitted False (exLedger\<lparr>l_isPvtstoreAheadOfBlkstore := True, l_world := (l_world exLedger)\<lparr>xw_pvt := 2\<rparr>\<rparr>) =
      (Return (Inr ()), l') \<and> xw_pvt (l_world l') = 2 \<and> \<not> l_isPvtstoreAheadOfBlkstore l'"
proof -
  let ?l = "exLedger\<lparr>l_isPvtstoreAheadOfBlkstore := True, l_world := (l_world exLedger)\<lparr>xw_pvt := 2\<rparr>\<rparr>"
  obtain l' where run: "kv_commit exChain exCommitted False ?l = (Return (Inr ()), l')"
    by (simp add: exChain_evals exLedger_evals)
  from private_data_written_once [OF exChain_heights run] run show ?thesis
    by (auto simp: exLedger_def exCommitted_def exChainBlock_def)
qed

end
