(* ===== verification/KV_Concurrent.thy ===== *)
theory KV_Concurrent
  imports KV_Commit "HOL-Library.Sublist"
begin

text \<open>
  The goroutines that meet at a ledger: the committer, which holds \<open>blockAPIsRWLock\<close> from before
  its first store to after the commit notification; clients that read the block store under the read
  lock or through a block iterator; and the consumer of the commit notifications. The functions of
  \<open>KV_Ledger\<close> say what each does alone; here their steps interleave.
\<close>

section \<open>Threads and shared state\<close>

text \<open>
  What remains for the committer to do. \<open>Lock\<close> first announces the writer, which keeps new readers
  out, and then waits for the readers that are in; the private keys to purge are fetched under the
  lock; \<open>sendCommitNotification\<close> first looks at the done channel and then sends.
\<close>

datatype commitAction =
    Store store_op
  | LockCall
  | LockWait
  | FetchKeys
  | NotifySelect
  | NotifySend
  | Unlock

definition commitProgram :: "bool \<Rightarrow> bool \<Rightarrow> Block \<Rightarrow> commitAction list" where
  "commitProgram ahead hist b =
     [Store OpValidate, LockCall, LockWait, FetchKeys] @ map Store (tl (commitOps ahead hist b)) @
     [NotifySelect, NotifySend, Unlock]"

text \<open>A client of the ledger: at a block iterator positioned at a block, or at a query.\<close>

datatype client =
    Idle
  | NextCalled nat  \<comment> \<open>\<open>Next\<close> waits for the block\<close>
  | NextGot nat  \<comment> \<open>the iterator of the block store has returned it\<close>
  | NextSync nat  \<comment> \<open>between \<open>RLock\<close> and \<open>RUnlock\<close>\<close>
  | NextReturned nat
  | QueryCalled
  | QueryReads  \<comment> \<open>between \<open>RLock\<close> and \<open>RUnlock\<close>\<close>

fun holdsRLock :: "client \<Rightarrow> bool" where
  "holdsRLock (NextSync _) = True"
| "holdsRLock QueryReads = True"
| "holdsRLock _ = False"

record notifier =
  nt_buffered :: nat
  nt_done :: bool

definition dataChannelCap :: nat where
  "dataChannelCap = 10"

record shared =
  sh_program :: "commitAction list"
  sh_panicked :: bool
  sh_writer :: bool
  sh_readers :: "nat set"
  sh_blocks :: nat
  sh_state :: nat
  sh_history :: nat
  sh_notifier :: "notifier option"
  sh_notifierLock :: bool
  sh_clients :: "nat \<Rightarrow> client"

fun applyOp :: "store_op \<Rightarrow> shared \<Rightarrow> shared" where
  "applyOp (OpAddBlock _) s = s\<lparr>sh_blocks := sh_blocks s + 1\<rparr>"
| "applyOp OpState s = s\<lparr>sh_state := sh_state s + 1\<rparr>"
| "applyOp (OpHistory _) s = s\<lparr>sh_history := sh_history s + 1\<rparr>"
| "applyOp _ s = s"

text \<open>
  The two halves of \<open>sendCommitNotification\<close>: with no notifier there is nothing to send, a closed
  done channel removes the notifier, and otherwise the lock is kept for the send, which needs room in the channel.
\<close>

definition notifySelect :: "shared \<Rightarrow> shared" where
  "notifySelect s =
     (case sh_notifier s of
        None \<Rightarrow> s\<lparr>sh_program := [Unlock]\<rparr>
      | Some n \<Rightarrow>
          if nt_done n then s\<lparr>sh_program := [Unlock], sh_notifier := None\<rparr>
          else s\<lparr>sh_program := [NotifySend, Unlock], sh_notifierLock := True\<rparr>)"

definition canSend :: "shared \<Rightarrow> bool" where
  "canSend s = (case sh_notifier s of None \<Rightarrow> False | Some n \<Rightarrow> nt_buffered n < dataChannelCap)"

definition notifySend :: "shared \<Rightarrow> shared" where
  "notifySend s =
     s\<lparr>sh_program := [Unlock], sh_notifierLock := False,
       sh_notifier := map_option (\<lambda>n. n\<lparr>nt_buffered := nt_buffered n + 1\<rparr>) (sh_notifier s)\<rparr>"

abbreviation rlockFree :: "shared \<Rightarrow> bool" where
  "rlockFree s \<equiv> \<not> sh_writer s \<and> (\<forall>p. sh_program s \<noteq> LockWait # p)"

text \<open>
  A step, with who takes it: the committer, a store that fails it, a client, or the consumer. A failed
  read of the private keys, or a failed private data or block store, makes the commit return its error; a
  block store that reports an error is taken not to have changed its height. A state or history database
  that fails, with or without having written the block, makes the commit panic: the deferred unlock
  still runs while the panic unwinds, the other goroutines run on until the process has ended, and
  there is no further commit.
\<close>

datatype ledgerEvent = Commit | StoreFails | StorePanics | Client nat | Receive | CloseDone | Register

inductive cstep :: "bool \<Rightarrow> shared \<Rightarrow> ledgerEvent \<Rightarrow> shared \<Rightarrow> bool" for hist where
  start: "sh_program s = [] \<Longrightarrow> \<not> sh_panicked s \<Longrightarrow> cstep hist s Commit (s\<lparr>sh_program := commitProgram ahead hist b\<rparr>)"
| store: "sh_program s = Store op # p \<Longrightarrow> cstep hist s Commit (applyOp op (s\<lparr>sh_program := p\<rparr>))"
| invalid: "sh_program s = Store OpValidate # p \<Longrightarrow> cstep hist s StoreFails (s\<lparr>sh_program := []\<rparr>)"
| fails: "sh_program s = Store op # p \<Longrightarrow> op = OpPvtData n \<or> op = OpAddBlock b \<Longrightarrow> cstep hist s StoreFails (s\<lparr>sh_program := [Unlock]\<rparr>)"
| fetch: "sh_program s = FetchKeys # p \<Longrightarrow> cstep hist s Commit (s\<lparr>sh_program := p\<rparr>)"
| fetchFails: "sh_program s = FetchKeys # p \<Longrightarrow> cstep hist s StoreFails (s\<lparr>sh_program := [Unlock]\<rparr>)"
| panics: "sh_program s = Store op # p \<Longrightarrow> op = OpState \<or> op = OpHistory b \<Longrightarrow>
    cstep hist s StorePanics (s\<lparr>sh_program := [Unlock], sh_panicked := True\<rparr>)"
| panicsLate: "sh_program s = Store op # p \<Longrightarrow> op = OpState \<or> op = OpHistory b \<Longrightarrow>
    cstep hist s StorePanics (applyOp op (s\<lparr>sh_program := [Unlock], sh_panicked := True\<rparr>))"
| lockCall: "sh_program s = LockCall # p \<Longrightarrow> cstep hist s Commit (s\<lparr>sh_program := p\<rparr>)"
| lockWait: "sh_program s = LockWait # p \<Longrightarrow> sh_readers s = {} \<Longrightarrow> cstep hist s Commit (s\<lparr>sh_program := p, sh_writer := True\<rparr>)"
| select: "sh_program s = NotifySelect # p \<Longrightarrow> \<not> sh_notifierLock s \<Longrightarrow> cstep hist s Commit (notifySelect s)"
| send: "sh_program s = NotifySend # p \<Longrightarrow> canSend s \<Longrightarrow> cstep hist s Commit (notifySend s)"
| unlock: "sh_program s = Unlock # p \<Longrightarrow> cstep hist s Commit (s\<lparr>sh_program := p, sh_writer := False\<rparr>)"
| nextCall: "sh_clients s i = Idle \<or> sh_clients s i = NextReturned m \<Longrightarrow>
    cstep hist s (Client i) (s\<lparr>sh_clients := (sh_clients s)(i := NextCalled n)\<rparr>)"
| nextGot: "sh_clients s i = NextCalled n \<Longrightarrow> n < sh_blocks s \<Longrightarrow>
    cstep hist s (Client i) (s\<lparr>sh_clients := (sh_clients s)(i := NextGot n)\<rparr>)"
| nextRLock: "sh_clients s i = NextGot n \<Longrightarrow> rlockFree s \<Longrightarrow>
    cstep hist s (Client i) (s\<lparr>sh_clients := (sh_clients s)(i := NextSync n), sh_readers := insert i (sh_readers s)\<rparr>)"
| nextRUnlock: "sh_clients s i = NextSync n \<Longrightarrow>
    cstep hist s (Client i) (s\<lparr>sh_clients := (sh_clients s)(i := NextReturned n), sh_readers := sh_readers s - {i}\<rparr>)"
| queryCall: "sh_clients s i = Idle \<or> sh_clients s i = NextReturned m \<Longrightarrow>
    cstep hist s (Client i) (s\<lparr>sh_clients := (sh_clients s)(i := QueryCalled)\<rparr>)"
| queryRLock: "sh_clients s i = QueryCalled \<Longrightarrow> rlockFree s \<Longrightarrow>
    cstep hist s (Client i) (s\<lparr>sh_clients := (sh_clients s)(i := QueryReads), sh_readers := insert i (sh_readers s)\<rparr>)"
| queryRUnlock: "sh_clients s i = QueryReads \<Longrightarrow>
    cstep hist s (Client i) (s\<lparr>sh_clients := (sh_clients s)(i := Idle), sh_readers := sh_readers s - {i}\<rparr>)"
| receive: "sh_notifier s = Some n \<Longrightarrow> 0 < nt_buffered n \<Longrightarrow>
    cstep hist s Receive (s\<lparr>sh_notifier := Some (n\<lparr>nt_buffered := nt_buffered n - 1\<rparr>)\<rparr>)"
| closeDone: "sh_notifier s = Some n \<Longrightarrow> cstep hist s CloseDone (s\<lparr>sh_notifier := Some (n\<lparr>nt_done := True\<rparr>)\<rparr>)"
| register: "sh_notifier s = None \<Longrightarrow> \<not> sh_notifierLock s \<Longrightarrow>
    cstep hist s Register (s\<lparr>sh_notifier := Some \<lparr>nt_buffered = 0, nt_done = False\<rparr>\<rparr>)"

inductive crun :: "bool \<Rightarrow> shared \<Rightarrow> ledgerEvent list \<Rightarrow> shared \<Rightarrow> bool" for hist where
  run_nil: "crun hist s [] s"
| run_cons: "cstep hist s e s1 \<Longrightarrow> crun hist s1 es s' \<Longrightarrow> crun hist s (e # es) s'"

text \<open>A ledger that has been opened on a chain: its databases are level and nobody is at work.\<close>

definition opened :: "nat \<Rightarrow> shared" where
  "opened h = \<lparr>sh_program = [], sh_panicked = False, sh_writer = False, sh_readers = {}, sh_blocks = h, sh_state = h, sh_history = h,
     sh_notifier = None, sh_notifierLock = False, sh_clients = (\<lambda>_. Idle)\<rparr>"

inductive_simps run_simps: "crun hist s [] s'" "crun hist s (e # es) s'"

text \<open>The stores are asked in the order of \<open>commitOps\<close>, which is the order of the sequential model (\<open>commit_order\<close>).\<close>

fun storeOf :: "commitAction \<Rightarrow> store_op option" where
  "storeOf (Store op) = Some op"
| "storeOf _ = None"

lemma commitProgram_ops: "List.map_filter storeOf (commitProgram ahead hist b) = commitOps ahead hist b"
  by (simp add: commitProgram_def commitOps_def storeOps_def List.map_filter_def)

section \<open>The invariant\<close>

fun isAdd :: "commitAction \<Rightarrow> bool" where
  "isAdd (Store (OpAddBlock _)) = True" | "isAdd _ = False"

fun isHist :: "commitAction \<Rightarrow> bool" where
  "isHist (Store (OpHistory _)) = True" | "isHist _ = False"

abbreviation times :: "(commitAction \<Rightarrow> bool) \<Rightarrow> commitAction list \<Rightarrow> nat" where
  "times P p \<equiv> length (filter P p)"

definition level :: "bool \<Rightarrow> shared \<Rightarrow> bool" where
  "level hist s \<longleftrightarrow> sh_state s = sh_blocks s \<and> (hist \<longrightarrow> sh_history s = sh_blocks s)"

definition shapeOk :: "bool \<Rightarrow> shared \<Rightarrow> bool" where
  "shapeOk hist s \<longleftrightarrow>
     (\<exists>ahead b. suffix (sh_program s) (commitProgram ahead hist b)) \<and>
     (sh_writer s \<longleftrightarrow> LockWait \<notin> set (sh_program s) \<and> sh_program s \<noteq> []) \<and>
     (sh_notifierLock s \<longleftrightarrow> sh_program s = [NotifySend, Unlock]) \<and>
     (sh_notifierLock s \<longrightarrow> sh_notifier s \<noteq> None) \<and>
     (sh_panicked s \<longrightarrow> sh_program s = [Unlock] \<or> sh_program s = [])"

definition heightsOk :: "bool \<Rightarrow> shared \<Rightarrow> bool" where
  "heightsOk hist s \<longleftrightarrow>
     (if sh_panicked s
      then (sh_blocks s = sh_state s \<or> sh_blocks s = sh_state s + 1) \<and>
           (hist \<longrightarrow> sh_blocks s = sh_history s \<or> sh_blocks s = sh_history s + 1)
      else sh_blocks s + times isAdd (sh_program s) = sh_state s + times (\<lambda>a. a = Store OpState) (sh_program s) \<and>
           (hist \<longrightarrow> sh_blocks s + times isAdd (sh_program s) = sh_history s + times isHist (sh_program s)))"

abbreviation committerOk :: "bool \<Rightarrow> shared \<Rightarrow> bool" where
  "committerOk hist s \<equiv> shapeOk hist s \<and> heightsOk hist s"

definition clientsOk :: "bool \<Rightarrow> shared \<Rightarrow> bool" where
  "clientsOk hist s \<longleftrightarrow>
     finite (sh_readers s) \<and> sh_readers s = {i. holdsRLock (sh_clients s i)} \<and> (sh_writer s \<longrightarrow> sh_readers s = {}) \<and>
     (\<forall>i n. sh_clients s i = NextGot n \<or> sh_clients s i = NextSync n \<longrightarrow> n < sh_blocks s) \<and>
     (\<forall>i n. sh_clients s i = NextReturned n \<longrightarrow> n < sh_blocks s \<and> (sh_panicked s \<or> n < sh_state s \<and> (hist \<longrightarrow> n < sh_history s)))"

lemma suffix_program:
  assumes "suffix (a # p) (commitProgram ahead hist b)"
  shows "suffix p (commitProgram ahead hist b)"
  using assms by (rule suffix_ConsD)

lemma program_short:
  "suffix [] (commitProgram ahead hist b)" "suffix [Unlock] (commitProgram ahead hist b)"
  "suffix [NotifySend, Unlock] (commitProgram ahead hist b)"
  by (simp_all add: commitProgram_def suffix_def)

lemmas program_shape = commitProgram_def commitOps_def storeOps_def suffix_Cons

lemma program_heads:
  "suffix (LockCall # p) (commitProgram ahead hist b) \<Longrightarrow> LockWait \<in> set p"
  "suffix (LockWait # p) (commitProgram ahead hist b) \<Longrightarrow> LockWait \<notin> set p \<and> p \<noteq> [] \<and> p \<noteq> [NotifySend, Unlock]"
  "suffix (Store op # p) (commitProgram ahead hist b) \<Longrightarrow>
     p \<noteq> [] \<and> p \<noteq> [NotifySend, Unlock] \<and> (op = OpValidate \<longleftrightarrow> LockWait \<in> set p)"
  "suffix (FetchKeys # p) (commitProgram ahead hist b) \<Longrightarrow> p \<noteq> [] \<and> p \<noteq> [NotifySend, Unlock] \<and> LockWait \<notin> set p"
  "suffix (NotifySelect # p) (commitProgram ahead hist b) \<Longrightarrow> p = [NotifySend, Unlock]"
  "suffix (NotifySend # p) (commitProgram ahead hist b) \<Longrightarrow> p = [Unlock]"
  "suffix (Unlock # p) (commitProgram ahead hist b) \<Longrightarrow> p = []"
  by (auto simp: program_shape split: if_splits)

text \<open>Before the block is added, one block is due to the block store and to each database.\<close>

lemma program_counts:
  assumes "suffix p (commitProgram ahead hist b)"
    and "LockWait \<in> set p \<or> (\<exists>q. p = FetchKeys # q) \<or> (\<exists>q n. p = Store (OpPvtData n) # q) \<or> (\<exists>q c. p = Store (OpAddBlock c) # q)"
  shows "times isAdd p = 1 \<and> times (\<lambda>a. a = Store OpState) p = 1 \<and> times isHist p = (if hist then 1 else 0)"
  using assms by (auto simp: program_shape split: if_splits)

text \<open>From then on they are written one after the other.\<close>

lemma program_dbs:
  "suffix (Store OpState # p) (commitProgram ahead hist b) \<Longrightarrow>
     times isAdd p = 0 \<and> times (\<lambda>a. a = Store OpState) p = 0 \<and> times isHist p = (if hist then 1 else 0)"
  "suffix (Store (OpHistory c) # p) (commitProgram ahead hist b) \<Longrightarrow>
     hist \<and> times isAdd p = 0 \<and> times (\<lambda>a. a = Store OpState) p = 0 \<and> times isHist p = 0"
  by (auto simp: program_shape split: if_splits)

lemma applyOp_clients:
  "sh_clients (applyOp op s) = sh_clients s" "sh_readers (applyOp op s) = sh_readers s" "sh_writer (applyOp op s) = sh_writer s"
  "sh_notifier (applyOp op s) = sh_notifier s" "sh_notifierLock (applyOp op s) = sh_notifierLock s" "sh_program (applyOp op s) = sh_program s"
  "sh_panicked (applyOp op s) = sh_panicked s"
  "sh_blocks s \<le> sh_blocks (applyOp op s)" "sh_state s \<le> sh_state (applyOp op s)" "sh_history s \<le> sh_history (applyOp op s)"
  by (cases op; simp)+

lemma unlocked_level:
  assumes "committerOk hist s" "\<not> sh_writer s" "\<not> sh_panicked s"
  shows "level hist s"
proof -
  obtain ahead b where suf: "suffix (sh_program s) (commitProgram ahead hist b)" and "LockWait \<in> set (sh_program s) \<or> sh_program s = []"
    using assms unfolding shapeOk_def by blast
  then show ?thesis using program_counts [OF suf] assms unfolding heightsOk_def level_def by (auto split: if_splits)
qed

text \<open>A committer that is still to write a store has not panicked.\<close>

lemma shape_sound: "shapeOk hist s \<Longrightarrow> sh_program s = a # p \<Longrightarrow> a \<noteq> Unlock \<Longrightarrow> \<not> sh_panicked s"
  unfolding shapeOk_def by auto

lemma shape_suffix:
  assumes "shapeOk hist s" "sh_program s = a # p"
  obtains ahead b where "suffix (a # p) (commitProgram ahead hist b)" "suffix p (commitProgram ahead hist b)"
  using assms suffix_ConsD unfolding shapeOk_def by metis

lemma shape_advance:
  assumes "shapeOk hist s" "sh_program s = a # p" "a \<noteq> NotifySend" "p \<noteq> [NotifySend, Unlock]" "\<not> sh_panicked s" "sh_program s' = p"
    "sh_writer s' \<longleftrightarrow> LockWait \<notin> set p \<and> p \<noteq> []" "sh_notifierLock s' = sh_notifierLock s" "\<not> sh_panicked s'"
  shows "shapeOk hist s'"
proof -
  obtain ahead b where "suffix p (commitProgram ahead hist b)" by (rule shape_suffix [OF assms(1,2)])
  then show ?thesis using assms unfolding shapeOk_def by auto
qed

text \<open>A commit that gives up goes on to its deferred unlock, under the write lock that it holds.\<close>

lemma shape_giveUp:
  assumes "shapeOk hist s" "sh_program s = a # p" "a \<noteq> NotifySend" "LockWait \<notin> set p" "a \<noteq> LockWait" "sh_program s' = [Unlock]"
    "sh_writer s' = sh_writer s" "sh_notifierLock s' = sh_notifierLock s"
  shows "shapeOk hist s'"
  using assms program_short(2) unfolding shapeOk_def by auto

lemma shape_step:
  assumes "cstep hist s e s'" and ok: "shapeOk hist s"
  shows "shapeOk hist s'"
  using assms(1)
proof cases
  case (start ahead b)
  then show ?thesis using ok unfolding shapeOk_def by (auto simp: commitProgram_def)
next
  case (store op p)
  then obtain ahead b where "suffix (Store op # p) (commitProgram ahead hist b)" using shape_suffix [OF ok] by blast
  from program_heads(3) [OF this] show ?thesis using ok store shape_sound [OF ok store(3)]
    by (intro shape_advance [OF ok store(3)]) (auto simp: applyOp_clients shapeOk_def)
next
  case (invalid p)
  then obtain ahead b where "suffix (Store OpValidate # p) (commitProgram ahead hist b)" using shape_suffix [OF ok] by blast
  from program_heads(3) [OF this] show ?thesis using ok invalid program_short(1) unfolding shapeOk_def by auto
next
  case (fails op p n b)
  then obtain ahead b where "suffix (Store op # p) (commitProgram ahead hist b)" using shape_suffix [OF ok] by blast
  from program_heads(3) [OF this] show ?thesis using fails by (intro shape_giveUp [OF ok fails(3)]) auto
next
  case (fetch p)
  then obtain ahead b where "suffix (FetchKeys # p) (commitProgram ahead hist b)" using shape_suffix [OF ok] by blast
  from program_heads(4) [OF this] show ?thesis using ok fetch shape_sound [OF ok fetch(3)]
    by (intro shape_advance [OF ok fetch(3)]) (auto simp: shapeOk_def)
next
  case (fetchFails p)
  then obtain ahead b where "suffix (FetchKeys # p) (commitProgram ahead hist b)" using shape_suffix [OF ok] by blast
  from program_heads(4) [OF this] show ?thesis using fetchFails by (intro shape_giveUp [OF ok fetchFails(3)]) auto
next
  case (panics op p b)
  then obtain ahead b where "suffix (Store op # p) (commitProgram ahead hist b)" using shape_suffix [OF ok] by blast
  from program_heads(3) [OF this] show ?thesis using panics by (intro shape_giveUp [OF ok panics(3)]) auto
next
  case (panicsLate op p b)
  then obtain ahead b where "suffix (Store op # p) (commitProgram ahead hist b)" using shape_suffix [OF ok] by blast
  from program_heads(3) [OF this] show ?thesis using panicsLate
    by (intro shape_giveUp [OF ok panicsLate(3)]) (auto simp: applyOp_clients)
next
  case (lockCall p)
  then obtain ahead b where "suffix (LockCall # p) (commitProgram ahead hist b)" using shape_suffix [OF ok] by blast
  from program_heads(1) [OF this] show ?thesis using ok lockCall shape_sound [OF ok lockCall(3)]
    by (intro shape_advance [OF ok lockCall(3)]) (auto simp: shapeOk_def)
next
  case (lockWait p)
  then obtain ahead b where "suffix (LockWait # p) (commitProgram ahead hist b)" using shape_suffix [OF ok] by blast
  from program_heads(2) [OF this] show ?thesis using lockWait shape_sound [OF ok lockWait(3)]
    by (intro shape_advance [OF ok lockWait(3)]) auto
next
  case (select p)
  then obtain ahead b where "suffix (NotifySelect # p) (commitProgram ahead hist b)" using shape_suffix [OF ok] by blast
  from program_heads(5) [OF this] show ?thesis using ok select program_short(2,3) unfolding shapeOk_def
    by (auto simp: notifySelect_def split: option.splits if_splits)
next
  case (send p)
  then obtain ahead b where "suffix (NotifySend # p) (commitProgram ahead hist b)" using shape_suffix [OF ok] by blast
  from program_heads(6) [OF this] show ?thesis using ok send program_short(2) unfolding shapeOk_def by (auto simp: notifySend_def)
next
  case (unlock p)
  then obtain ahead b where "suffix (Unlock # p) (commitProgram ahead hist b)" using shape_suffix [OF ok] by blast
  from program_heads(7) [OF this] show ?thesis using ok unlock program_short(1) unfolding shapeOk_def by auto
qed (use ok in \<open>auto simp: shapeOk_def\<close>)

text \<open>Before the block is stored the databases are level; afterwards each lacks what is still to be written.\<close>

lemma heights_due:
  assumes "committerOk hist s" "sh_program s = a # p" "a = FetchKeys \<or> a = Store OpValidate \<or> a = Store (OpPvtData n) \<or> a = Store (OpAddBlock c)"
  shows "level hist s"
proof -
  obtain ahead b where suf: "suffix (a # p) (commitProgram ahead hist b)" using shape_suffix assms by blast
  have "LockWait \<in> set p" if "a = Store OpValidate" using program_heads(3) suf that by blast
  then show ?thesis using program_counts [OF suf] assms shape_sound [of hist s a p] unfolding heightsOk_def level_def
    by (auto split: if_splits)
qed

lemma heights_half:
  assumes "committerOk hist s" "sh_program s = Store op # p" "op = OpState \<or> op = OpHistory c"
  shows "(hist \<longrightarrow> sh_blocks s = sh_history s + 1) \<and> sh_blocks s = (if op = OpState then sh_state s + 1 else sh_state s)"
proof -
  obtain ahead b where suf: "suffix (Store op # p) (commitProgram ahead hist b)" using shape_suffix assms by blast
  show ?thesis using program_dbs [where p = p and ahead = ahead and hist = hist and b = b] suf assms shape_sound [of hist s "Store op" p] unfolding heightsOk_def
    by (auto split: if_splits)
qed

lemma heights_step:
  assumes "cstep hist s e s'" and ok: "committerOk hist s"
  shows "heightsOk hist s'"
  using assms(1)
proof cases
  case (start ahead b)
  moreover have "level hist s" using ok start by (intro unlocked_level) (auto simp: shapeOk_def)
  moreover have "LockWait \<in> set (commitProgram ahead hist b)" by (simp add: commitProgram_def)
  ultimately show ?thesis using program_counts [of "commitProgram ahead hist b" ahead hist b]
    unfolding heightsOk_def level_def by (cases hist) simp_all
next
  case (store op p)
  then show ?thesis using ok shape_sound [of hist s "Store op" p] unfolding heightsOk_def by (cases op) auto
next
  case (invalid p)
  then show ?thesis using heights_due [OF ok, of "Store OpValidate"] shape_sound [of hist s] ok unfolding heightsOk_def level_def by auto
next
  case (fails op p n b)
  then show ?thesis using heights_due [OF ok fails(3), of n b] shape_sound [of hist s] ok unfolding heightsOk_def level_def by auto
next
  case (fetchFails p)
  then show ?thesis using heights_due [OF ok fetchFails(3)] shape_sound [of hist s] ok unfolding heightsOk_def level_def by auto
next
  case (panics op p b)
  then show ?thesis using heights_half [OF ok panics(3,4)] unfolding heightsOk_def by (auto split: if_splits)
next
  case (panicsLate op p b)
  then show ?thesis using heights_half [OF ok panicsLate(3,4)] unfolding heightsOk_def by (cases op) (auto split: if_splits)
next
  case (select p)
  then obtain ahead b where "suffix (NotifySelect # p) (commitProgram ahead hist b)" using shape_suffix ok by blast
  from program_heads(5) [OF this] select show ?thesis using ok unfolding heightsOk_def
    by (auto simp: notifySelect_def split: option.splits if_splits)
next
  case (send p)
  then obtain ahead b where "suffix (NotifySend # p) (commitProgram ahead hist b)" using shape_suffix ok by blast
  from program_heads(6) [OF this] send show ?thesis using ok unfolding heightsOk_def by (auto simp: notifySend_def split: if_splits)
qed (use ok in \<open>auto simp: heightsOk_def split: if_splits\<close>)

lemma committer_step: "cstep hist s e s' \<Longrightarrow> committerOk hist s \<Longrightarrow> committerOk hist s'"
  using shape_step heights_step by blast

text \<open>Clients that did not move are as good as before when no height has gone down and the lock allows their reads.\<close>

lemma clientsOk_mono:
  assumes ok: "clientsOk hist s" and "sh_clients s' = sh_clients s" "sh_readers s' = sh_readers s" "sh_writer s' \<longrightarrow> sh_readers s = {}"
    and le: "sh_blocks s \<le> sh_blocks s'" "sh_state s \<le> sh_state s'" "sh_history s \<le> sh_history s'" and "sh_panicked s \<longrightarrow> sh_panicked s'"
  shows "clientsOk hist s'"
proof -
  have "n < sh_blocks s'" if "sh_clients s' i = NextGot n \<or> sh_clients s' i = NextSync n" for i n
    using that ok assms(2) le(1) unfolding clientsOk_def by fastforce
  moreover have "n < sh_blocks s' \<and> (sh_panicked s' \<or> n < sh_state s' \<and> (hist \<longrightarrow> n < sh_history s'))"
    if "sh_clients s' i = NextReturned n" for i n
    using that ok assms(2,8) le unfolding clientsOk_def by fastforce
  moreover have "finite (sh_readers s)" "sh_readers s = {i. holdsRLock (sh_clients s i)}" using ok unfolding clientsOk_def by blast+
  ultimately show ?thesis unfolding clientsOk_def assms(2,3) using assms(4) by blast
qed

lemma clientsOk_upd:
  assumes ok: "clientsOk hist s" and s': "s' = s\<lparr>sh_clients := (sh_clients s)(i := c), sh_readers := R\<rparr>"
    and R: "R = (if holdsRLock c then insert i (sh_readers s) else sh_readers s - {i})" "holdsRLock c \<longrightarrow> \<not> sh_writer s"
    and c: "\<And>n. c = NextGot n \<or> c = NextSync n \<Longrightarrow> n < sh_blocks s" 
      "\<And>n. c = NextReturned n \<Longrightarrow> n < sh_blocks s \<and> (sh_panicked s \<or> n < sh_state s \<and> (hist \<longrightarrow> n < sh_history s))"
  shows "clientsOk hist s'"
proof -
  have "sh_readers s' = {j. holdsRLock (sh_clients s' j)}" "finite (sh_readers s')" "sh_writer s' \<longrightarrow> sh_readers s' = {}"
    using ok R unfolding clientsOk_def s' by (auto split: if_splits)
  moreover have "n < sh_blocks s'" if "sh_clients s' j = NextGot n \<or> sh_clients s' j = NextSync n" for j n
    using that ok c(1) unfolding clientsOk_def s' by (cases "j = i") auto
  moreover have "n < sh_blocks s' \<and> (sh_panicked s' \<or> n < sh_state s' \<and> (hist \<longrightarrow> n < sh_history s'))"
    if "sh_clients s' j = NextReturned n" for j n
    using that ok c(2) unfolding clientsOk_def s' by (cases "j = i") auto
  ultimately show ?thesis unfolding clientsOk_def by blast
qed

lemma clients_step:
  assumes "cstep hist s e s'" and ok: "clientsOk hist s" and com: "committerOk hist s"
  shows "clientsOk hist s'"
proof -
  have ex: "sh_readers s = {i. holdsRLock (sh_clients s i)}" "sh_writer s \<longrightarrow> sh_readers s = {}" using ok unfolding clientsOk_def by blast+
  have idle: "R = sh_readers s \<Longrightarrow> R = sh_readers s - {i}" if "\<not> holdsRLock (sh_clients s i)" for i R using ex that by auto
  have free: "clientsOk hist (s\<lparr>sh_clients := (sh_clients s)(i := c)\<rparr>)"
    if "\<not> holdsRLock (sh_clients s i)" "\<not> holdsRLock c" "\<forall>n. c = NextGot n \<longrightarrow> n < sh_blocks s" "\<forall>n. c \<noteq> NextReturned n" for i c
    by (rule clientsOk_upd [OF ok, where i = i and c = c and R = "sh_readers s"]) (use that idle in auto)
  from assms(1) show ?thesis
  proof cases
    case (store op p)
    show ?thesis unfolding store(2)
      by (rule clientsOk_mono [OF ok])
        (use ex(2) applyOp_clients(8-10) [of "s\<lparr>sh_program := p\<rparr>" op] in \<open>simp_all add: applyOp_clients(1-7)\<close>)
  next
    case (panicsLate op p b)
    show ?thesis unfolding panicsLate(2)
      by (rule clientsOk_mono [OF ok])
        (use ex(2) applyOp_clients(8-10) [of "s\<lparr>sh_program := [Unlock], sh_panicked := True\<rparr>" op] in \<open>simp_all add: applyOp_clients(1-7)\<close>)
  next
    case (select p)
    show ?thesis by (rule clientsOk_mono [OF ok]) (use ex(2) in \<open>simp_all add: select notifySelect_def split: option.splits\<close>)
  next
    case (send p)
    show ?thesis by (rule clientsOk_mono [OF ok]) (use ex(2) in \<open>simp_all add: send notifySend_def\<close>)
  next
    case (nextCall i m n)
    show ?thesis unfolding nextCall(2) by (rule free) (use nextCall in auto)
  next
    case (nextGot i n)
    show ?thesis unfolding nextGot(2) by (rule free) (use nextGot in auto)
  next
    case (nextRLock i n)
    show ?thesis unfolding nextRLock(2) by (rule clientsOk_upd [OF ok refl]) (use nextRLock ok in \<open>auto simp: clientsOk_def\<close>)
  next
    case (nextRUnlock i n)
    then have "i \<in> sh_readers s" "n < sh_blocks s" using ok ex unfolding clientsOk_def by auto
    with ex unlocked_level [OF com] have "n < sh_blocks s \<and> (sh_panicked s \<or> n < sh_state s \<and> (hist \<longrightarrow> n < sh_history s))"
      unfolding level_def by auto
    then show ?thesis unfolding nextRUnlock(2) by (intro clientsOk_upd [OF ok refl]) auto
  next
    case (queryCall i m)
    show ?thesis unfolding queryCall(2) by (rule free) (use queryCall in auto)
  next
    case (queryRLock i)
    show ?thesis unfolding queryRLock(2) by (rule clientsOk_upd [OF ok refl]) (use queryRLock in auto)
  next
    case (queryRUnlock i)
    show ?thesis unfolding queryRUnlock(2) by (rule clientsOk_upd [OF ok refl]) auto
  qed (rule clientsOk_mono [OF ok], use ex(2) in simp_all)+
qed

lemma opened_ok: "committerOk hist (opened h)" "clientsOk hist (opened h)"
  by (simp_all add: shapeOk_def heightsOk_def clientsOk_def opened_def program_short)

lemma run_ok: "crun hist s es s' \<Longrightarrow> committerOk hist s \<Longrightarrow> clientsOk hist s \<Longrightarrow> committerOk hist s' \<and> clientsOk hist s'"
  by (induction rule: crun.induct) (use committer_step clients_step in blast)+

section \<open>What a reader sees\<close>

text \<open>
  C12 (no reader sees half a commit). Whatever the interleaving, and as long as no database has made a
  commit panic, a goroutine that holds the read lock sees a block store, a state database and a
  history database of the same height, and a block that an iterator has returned is in the databases
  already, although the iterator of the block store hands it out before they are written. After a panic
  the lock is free while the process ends: then a reader may find each database behind the
  block store, by the one block of the failed commit, and never ahead of it.
\<close>

theorem readers_see_whole_commits:
  assumes "crun hist (opened h) es s"
  shows "(\<not> sh_panicked s \<longrightarrow>
      (\<forall>i \<in> sh_readers s. sh_state s = sh_blocks s \<and> (hist \<longrightarrow> sh_history s = sh_blocks s)) \<and>
      (\<forall>i n. sh_clients s i = NextReturned n \<longrightarrow> n < sh_state s \<and> (hist \<longrightarrow> n < sh_history s))) \<and>
    (\<forall>i \<in> sh_readers s. (sh_blocks s = sh_state s \<or> sh_blocks s = sh_state s + 1) \<and>
      (hist \<longrightarrow> sh_blocks s = sh_history s \<or> sh_blocks s = sh_history s + 1)) \<and>
    (\<forall>i n. sh_clients s i = NextReturned n \<longrightarrow> n < sh_blocks s)"
proof -
  have com: "committerOk hist s" and cl: "clientsOk hist s" using run_ok [OF assms] opened_ok by blast+
  have "level hist s" if "i \<in> sh_readers s" "\<not> sh_panicked s" for i
    using that cl unlocked_level [OF com] unfolding clientsOk_def by blast
  moreover have "(sh_blocks s = sh_state s \<or> sh_blocks s = sh_state s + 1) \<and>
      (hist \<longrightarrow> sh_blocks s = sh_history s \<or> sh_blocks s = sh_history s + 1)" if "sh_panicked s"
    using com that unfolding heightsOk_def by simp
  ultimately show ?thesis using cl unfolding clientsOk_def level_def by (cases "sh_panicked s") auto
qed

text \<open>
  A scheduler that runs chosen goroutines: the committer commits block \<open>b\<close>, iterators are positioned
  at block \<open>n\<close>, and an idle client that is not an iterator queries. It only takes steps of the relation.
\<close>

fun exec :: "bool \<Rightarrow> Block \<Rightarrow> nat \<Rightarrow> ledgerEvent \<Rightarrow> shared \<Rightarrow> shared option" where
  "exec hist b n Commit s =
     (case sh_program s of
        [] \<Rightarrow> if sh_panicked s then None else Some (s\<lparr>sh_program := commitProgram False hist b\<rparr>)
      | FetchKeys # p \<Rightarrow> Some (s\<lparr>sh_program := p\<rparr>)
      | Store op # p \<Rightarrow> Some (applyOp op (s\<lparr>sh_program := p\<rparr>))
      | LockCall # p \<Rightarrow> Some (s\<lparr>sh_program := p\<rparr>)
      | LockWait # p \<Rightarrow> if sh_readers s = {} then Some (s\<lparr>sh_program := p, sh_writer := True\<rparr>) else None
      | NotifySelect # p \<Rightarrow> if \<not> sh_notifierLock s then Some (notifySelect s) else None
      | NotifySend # p \<Rightarrow> if canSend s then Some (notifySend s) else None
      | Unlock # p \<Rightarrow> Some (s\<lparr>sh_program := p, sh_writer := False\<rparr>))"
| "exec hist b n StoreFails s = None"
| "exec hist b n StorePanics s =
     (case sh_program s of
        Store OpState # p \<Rightarrow> Some (s\<lparr>sh_program := [Unlock], sh_panicked := True\<rparr>)
      | _ \<Rightarrow> None)"
| "exec hist b n (Client i) s =
     (case sh_clients s i of
        NextCalled m \<Rightarrow> if m < sh_blocks s then Some (s\<lparr>sh_clients := (sh_clients s)(i := NextGot m)\<rparr>) else None
      | NextGot m \<Rightarrow> if \<not> sh_writer s \<and> (case sh_program s of LockWait # _ \<Rightarrow> False | _ \<Rightarrow> True)
          then Some (s\<lparr>sh_clients := (sh_clients s)(i := NextSync m), sh_readers := insert i (sh_readers s)\<rparr>) else None
      | NextSync m \<Rightarrow> Some (s\<lparr>sh_clients := (sh_clients s)(i := NextReturned m), sh_readers := sh_readers s - {i}\<rparr>)
      | QueryCalled \<Rightarrow> if \<not> sh_writer s \<and> (case sh_program s of LockWait # _ \<Rightarrow> False | _ \<Rightarrow> True)
          then Some (s\<lparr>sh_clients := (sh_clients s)(i := QueryReads), sh_readers := insert i (sh_readers s)\<rparr>) else None
      | QueryReads \<Rightarrow> Some (s\<lparr>sh_clients := (sh_clients s)(i := Idle), sh_readers := sh_readers s - {i}\<rparr>)
      | _ \<Rightarrow> Some (s\<lparr>sh_clients := (sh_clients s)(i := if i = 0 then QueryCalled else NextCalled n)\<rparr>))"
| "exec hist b n Receive s =
     (case sh_notifier s of
        Some m \<Rightarrow> if 0 < nt_buffered m then Some (s\<lparr>sh_notifier := Some (m\<lparr>nt_buffered := nt_buffered m - 1\<rparr>)\<rparr>) else None
      | None \<Rightarrow> None)"
| "exec hist b n CloseDone s = map_option (\<lambda>m. s\<lparr>sh_notifier := Some (m\<lparr>nt_done := True\<rparr>)\<rparr>) (sh_notifier s)"
| "exec hist b n Register s =
     (if sh_notifier s = None \<and> \<not> sh_notifierLock s then Some (s\<lparr>sh_notifier := Some \<lparr>nt_buffered = 0, nt_done = False\<rparr>\<rparr>) else None)"

fun execs :: "bool \<Rightarrow> Block \<Rightarrow> nat \<Rightarrow> ledgerEvent list \<Rightarrow> shared \<Rightarrow> shared option" where
  "execs hist b n [] s = Some s"
| "execs hist b n (e # es) s = Option.bind (exec hist b n e s) (execs hist b n es)"

lemma exec_step:
  assumes "exec hist b n e s = Some s'"
  shows "cstep hist s e s'"
  using assms
  by (cases e) (auto intro: cstep.intros cstep.receive [unfolded One_nat_def] split: list.splits commitAction.splits store_op.splits client.splits if_splits option.splits)

lemma execs_run: "execs hist b n es s = Some s' \<Longrightarrow> crun hist s es s'"
  by (induction es arbitrary: s) (auto intro: crun.intros exec_step split: bind_splits)

text \<open>An iterator obtains block 0 in the middle of its commit, and returns it only after the commit.\<close>

theorem readers_see_whole_commits_witness:
  "\<exists>s. crun True (opened 0) ([Client 7] @ replicate 7 Commit @ [Client 7] @ replicate 5 Commit @ [Client 7, Client 7]) s \<and>
     sh_clients s 7 = NextReturned 0 \<and> 0 < sh_history s"
proof -
  let ?b = "\<lparr>blk_Number = 0, blk_Data = [], blk_Metadata = None\<rparr>"
  let ?es = "[Client 7] @ replicate 7 Commit @ [Client 7] @ replicate 5 Commit @ [Client 7, Client 7]"
  have "\<exists>s. execs True ?b 0 ?es (opened 0) = Some s \<and> sh_clients s 7 = NextReturned 0 \<and> \<not> sh_panicked s"
    by (simp add: numeral_eq_Suc opened_def commitProgram_def commitOps_def storeOps_def notifySelect_def)
  then obtain s where s: "execs True ?b 0 ?es (opened 0) = Some s" and r: "sh_clients s 7 = NextReturned 0" "\<not> sh_panicked s"
    by blast
  with execs_run [OF s] readers_see_whole_commits [OF execs_run [OF s]] show ?thesis by blast
qed

text \<open>The window after a panic: a query reads the stored block's chain while the state database lacks the block.\<close>

lemma panic_exposes_half_commit:
  "\<exists>s. crun True (opened 0) (replicate 7 Commit @ [StorePanics, Commit, Client 0, Client 0]) s \<and>
     0 \<in> sh_readers s \<and> sh_blocks s = 1 \<and> sh_state s = 0 \<and> sh_history s = 0"
proof -
  let ?b = "\<lparr>blk_Number = 0, blk_Data = [], blk_Metadata = None\<rparr>"
  have "\<exists>s. execs True ?b 0 (replicate 7 Commit @ [StorePanics, Commit, Client 0, Client 0]) (opened 0) = Some s \<and>
     0 \<in> sh_readers s \<and> sh_blocks s = 1 \<and> sh_state s = 0 \<and> sh_history s = 0"
    by (simp add: numeral_eq_Suc opened_def commitProgram_def commitOps_def storeOps_def notifySelect_def)
  then show ?thesis using execs_run by blast
qed

section \<open>Whether a commit ends\<close>

text \<open>The notification can be dealt with: it has been sent, there is room for it, or the consumer is known to have left.\<close>

definition sendable :: "shared \<Rightarrow> bool" where
  "sendable s =
     (case sh_notifier s of
        None \<Rightarrow> True
      | Some n \<Rightarrow> NotifySend \<notin> set (sh_program s) \<or> nt_buffered n < dataChannelCap \<or> nt_done n \<and> sh_program s \<noteq> [NotifySend, Unlock])"

abbreviation work :: "shared \<Rightarrow> nat" where
  "work s \<equiv> length (sh_program s) + card (sh_readers s)"

text \<open>A step of the committer, or of a reader that holds the lock, is always possible and leaves less to do.\<close>

lemma reader_releases:
  assumes "clientsOk hist s" "i \<in> sh_readers s"
  shows "\<exists>c. cstep hist s (Client i) (s\<lparr>sh_clients := (sh_clients s)(i := c), sh_readers := sh_readers s - {i}\<rparr>)"
proof -
  have "holdsRLock (sh_clients s i)" using assms unfolding clientsOk_def by blast
  then show ?thesis by (cases "sh_clients s i") (auto intro: cstep.intros)
qed

lemma commit_advances:
  assumes com: "committerOk hist s" and ok: "clientsOk hist s" and snd: "sendable s" and busy: "sh_program s \<noteq> []"
  shows "\<exists>e s'. cstep hist s e s' \<and> e \<in> insert Commit (Client ` sh_readers s) \<and> work s' < work s \<and> sendable s' \<and>
    sh_readers s' \<subseteq> sh_readers s \<and> sh_panicked s' = sh_panicked s \<and> sh_blocks s' + times isAdd (sh_program s') = sh_blocks s + times isAdd (sh_program s)"
proof -
  obtain ahead b a p where p: "sh_program s = a # p" and suf: "suffix (a # p) (commitProgram ahead hist b)"
    using com busy unfolding shapeOk_def by (metis neq_Nil_conv)
  note heads = program_heads [where ahead = ahead and hist = hist and b = b]
  show ?thesis
  proof (cases a)
    case (Store op)
    have "sendable (applyOp op (s\<lparr>sh_program := p\<rparr>))" using snd heads(3) [of op p] suf Store p
      by (auto simp: sendable_def applyOp_clients split: option.splits)
    moreover have "sh_blocks (applyOp op (s\<lparr>sh_program := p\<rparr>)) = sh_blocks s + times isAdd [a]" using Store by (cases op) auto
    ultimately show ?thesis using p Store
      by (intro exI [of _ Commit] exI [of _ "applyOp op (s\<lparr>sh_program := p\<rparr>)"]) (auto simp: applyOp_clients intro: store)
  next
    case LockCall
    have "p \<noteq> [NotifySend, Unlock]" using heads(1) [of p] suf LockCall by auto
    then show ?thesis using p LockCall snd
      by (intro exI [of _ Commit] exI [of _ "s\<lparr>sh_program := p\<rparr>"]) (auto simp: sendable_def intro: lockCall split: option.splits)
  next
    case FetchKeys
    have "p \<noteq> [NotifySend, Unlock]" using heads(4) [of p] suf FetchKeys by auto
    then show ?thesis using p FetchKeys snd
      by (intro exI [of _ Commit] exI [of _ "s\<lparr>sh_program := p\<rparr>"]) (auto simp: sendable_def intro: fetch split: option.splits)
  next
    case LockWait
    show ?thesis
    proof (cases "sh_readers s = {}")
      case True
      have "p \<noteq> [NotifySend, Unlock]" using heads(2) [of p] suf LockWait by auto
      then show ?thesis using p LockWait True snd
        by (intro exI [of _ Commit] exI [of _ "s\<lparr>sh_program := p, sh_writer := True\<rparr>"]) (auto simp: sendable_def intro: lockWait split: option.splits)
    next
      case False
      then obtain i where i: "i \<in> sh_readers s" by blast
      then have "card (sh_readers s - {i}) < card (sh_readers s)" using ok unfolding clientsOk_def by (meson card_Diff1_less)
      with reader_releases [OF ok i] i snd show ?thesis
        by (elim exE, intro exI [of _ "Client i"] exI) (auto simp: sendable_def split: option.splits)
    qed
  next
    case NotifySelect
    then have q: "sh_program s = [NotifySelect, NotifySend, Unlock]" "\<not> sh_notifierLock s"
      using com p suf heads(5) [of p] unfolding shapeOk_def by auto
    from select [OF this] show ?thesis using q snd
      by (intro exI [of _ Commit] exI [of _ "notifySelect s"])
        (auto simp: sendable_def notifySelect_def split: option.splits)
  next
    case NotifySend
    then have q: "sh_program s = [NotifySend, Unlock]" using p suf heads(6) [of p] by auto
    then have "sh_notifier s \<noteq> None" using com unfolding shapeOk_def by auto
    then have "canSend s" using snd q by (auto simp: sendable_def canSend_def)
    from send [OF q this] this q show ?thesis
      by (intro exI [of _ Commit] exI [of _ "notifySend s"]) (auto simp: sendable_def notifySend_def canSend_def split: option.splits)
  next
    case Unlock
    then show ?thesis using p suf heads(7) [of p] snd
      by (intro exI [of _ Commit] exI [of _ "s\<lparr>sh_program := p, sh_writer := False\<rparr>"]) (auto simp: sendable_def intro: unlock split: option.splits)
  qed
qed

text \<open>
  C33 (a commit ends). In every reachable state in which the notification can be dealt with, the committer
  and the readers that hold the lock can bring the commit to its end without any other goroutine: in
  the end the lock is free and the block, if it was still to be stored, is stored; the databases are level
  unless one of them has made the commit panic, in which case only the unlock was left.
\<close>

theorem commit_ends:
  assumes "crun hist (opened h) es0 s" and "sendable s"
  shows "\<exists>es s'. crun hist s es s' \<and> set es \<subseteq> insert Commit (Client ` sh_readers s) \<and> sh_program s' = [] \<and> \<not> sh_writer s' \<and>
    (\<not> sh_panicked s \<longrightarrow> level hist s') \<and>
    sh_blocks s' = sh_blocks s + times isAdd (sh_program s)"
proof -
  have "committerOk hist s" "clientsOk hist s" using run_ok [OF assms(1)] opened_ok by blast+
  then show ?thesis using assms(2)
  proof (induction "work s" arbitrary: s rule: less_induct)
    case less
    show ?case
    proof (cases "sh_program s = []")
      case True
      then have "\<not> sh_writer s" using less.prems(1) unfolding shapeOk_def by simp
      then show ?thesis using True unlocked_level [OF less.prems(1)] by (intro exI [of _ "[]"] exI [of _ s]) (simp add: run_simps)
    next
      case False
      obtain e s1 where e: "cstep hist s e s1" "e \<in> insert Commit (Client ` sh_readers s)" "work s1 < work s" "sendable s1"
        "sh_readers s1 \<subseteq> sh_readers s" "sh_panicked s1 = sh_panicked s"
        "sh_blocks s1 + times isAdd (sh_program s1) = sh_blocks s + times isAdd (sh_program s)"
        using commit_advances [OF less.prems False] by blast
      from less.hyps [OF e(3) committer_step [OF e(1) less.prems(1)] clients_step [OF e(1) less.prems(2,1)] e(4)]
      obtain es s' where es: "crun hist s1 es s'" "set es \<subseteq> insert Commit (Client ` sh_readers s1)" "sh_program s' = []" "\<not> sh_writer s'"
        "\<not> sh_panicked s1 \<longrightarrow> level hist s'" "sh_blocks s' = sh_blocks s1 + times isAdd (sh_program s1)" by blast
      with e show ?thesis by (intro exI [of _ "e # es"] exI [of _ s']) (auto simp: run_simps)
    qed
  qed
qed

lemma blocked_step:
  assumes "cstep hist s e s'" "sh_program s = [NotifySend, Unlock]" "sh_notifier s = Some n" "\<not> nt_buffered n < dataChannelCap" "e \<noteq> Receive"
  shows "sh_program s' = [NotifySend, Unlock] \<and> (\<exists>n'. sh_notifier s' = Some n' \<and> nt_buffered n' = nt_buffered n)"
  using assms by (cases rule: cstep.cases) (auto simp: canSend_def)

lemma blocked_run:
  assumes "crun hist s es s'" "sh_program s = [NotifySend, Unlock]" "sh_notifier s = Some n" "\<not> nt_buffered n < dataChannelCap" "Receive \<notin> set es"
  shows "sh_program s' = [NotifySend, Unlock] \<and> (\<exists>n'. sh_notifier s' = Some n' \<and> nt_buffered n' = nt_buffered n)"
  using assms
proof (induction arbitrary: n rule: crun.induct)
  case (run_cons s e s1 es s')
  then obtain n' where "sh_program s1 = [NotifySend, Unlock]" "sh_notifier s1 = Some n'" "nt_buffered n' = nt_buffered n"
    using blocked_step [OF run_cons.hyps(1)] by (metis list.set_intros(1))
  with run_cons.IH [of n'] run_cons.prems show ?case by simp
qed simp

text \<open>
  C40 (a full notification channel stops the ledger). A committer that has to send on a full channel waits for
  the consumer to receive: until then, whatever else happens, and also when the consumer closes the done
  channel, the commit does not end, nobody obtains the read lock and the channel is not closed.
\<close>

theorem full_channel_stops_ledger:
  assumes "crun hist (opened h) es0 s" and "sh_program s = [NotifySend, Unlock]" and "sh_notifier s = Some n" and "nt_buffered n = dataChannelCap"
    and "crun hist s es s'" and "Receive \<notin> set es"
  shows "sh_program s' = [NotifySend, Unlock] \<and> sh_readers s' = {} \<and> (\<exists>n'. sh_notifier s' = Some n' \<and> nt_buffered n' = dataChannelCap)"
proof -
  have "sh_program s' = [NotifySend, Unlock] \<and> (\<exists>n'. sh_notifier s' = Some n' \<and> nt_buffered n' = nt_buffered n)"
    by (rule blocked_run [OF assms(5,2,3) _ assms(6)]) (simp add: assms(4))
  moreover have "committerOk hist s'" "clientsOk hist s'"
    using run_ok [OF assms(5)] run_ok [OF assms(1)] opened_ok by blast+
  ultimately show ?thesis using assms(4) unfolding shapeOk_def clientsOk_def by auto
qed

text \<open>Ten commits fill the channel of a consumer that does not receive; at the eleventh it closes the done channel and queries the ledger.\<close>

definition filled :: "nat \<Rightarrow> shared" where
  "filled k = (opened 0)\<lparr>sh_blocks := k, sh_state := k, sh_notifier := Some \<lparr>nt_buffered = k, nt_done = False\<rparr>\<rparr>"

definition exBlk :: Block where
  "exBlk = \<lparr>blk_Number = 0, blk_Data = [], blk_Metadata = None\<rparr>"

lemmas exec_evals = numeral_eq_Suc filled_def opened_def commitProgram_def commitOps_def storeOps_def notifySelect_def
  notifySend_def canSend_def dataChannelCap_def

lemma crun_append: "crun hist s es s1 \<Longrightarrow> crun hist s1 es' s' \<Longrightarrow> crun hist s (es @ es') s'"
  by (induction rule: crun.induct) (auto simp: run_simps)

lemma filled_commit: "k < dataChannelCap \<Longrightarrow> crun False (filled k) (replicate 11 Commit) (filled (Suc k))"
  by (rule execs_run [of False exBlk 0]) (simp add: exec_evals)

lemma filled_reached: "k \<le> dataChannelCap \<Longrightarrow> \<exists>es. crun False (opened 0) es (filled k)"
proof (induction k)
  case 0
  have "crun False (opened 0) [Register] (filled 0)" by (rule execs_run [of False exBlk 0]) (simp add: exec_evals)
  then show ?case by blast
next
  case (Suc k)
  then show ?case using filled_commit [of k] crun_append by (metis Suc_leD Suc_le_lessD)
qed

theorem commit_ends_witness:
  "\<exists>es s'. crun False ((filled 3)\<lparr>sh_program := commitProgram False False exBlk\<rparr>) es s' \<and> set es \<subseteq> {Commit} \<and> sh_program s' = [] \<and> sh_state s' = 4"
proof -
  let ?s = "(filled 3)\<lparr>sh_program := commitProgram False False exBlk\<rparr>"
  obtain es where "crun False (opened 0) es (filled 3)" using filled_reached [of 3] by (auto simp: dataChannelCap_def)
  moreover have "crun False (filled 3) [Commit] ?s" by (rule execs_run [of False exBlk 0]) (simp add: exec_evals)
  ultimately have "crun False (opened 0) (es @ [Commit]) ?s" by (rule crun_append)
  from commit_ends [OF this] show ?thesis by (simp add: sendable_def level_def exec_evals) (metis (no_types))
qed

theorem full_channel_stops_ledger_witness:
  "\<exists>es s s'. crun False (opened 0) es s \<and> crun False s [CloseDone, Client 0] s' \<and> sh_clients s' 0 = QueryCalled \<and>
     sh_program s' = [NotifySend, Unlock] \<and> sh_readers s' = {}"
proof -
  obtain es where es: "crun False (opened 0) es (filled 10)" using filled_reached [of 10] by (auto simp: dataChannelCap_def)
  have "\<exists>s. execs False exBlk 0 (replicate 9 Commit) (filled 10) = Some s \<and> sh_program s = [NotifySend, Unlock] \<and>
      sh_notifier s = Some \<lparr>nt_buffered = 10, nt_done = False\<rparr> \<and> sh_clients s 0 = Idle"
    by (simp add: exec_evals)
  then obtain s where s: "execs False exBlk 0 (replicate 9 Commit) (filled 10) = Some s" "sh_program s = [NotifySend, Unlock]"
      "sh_notifier s = Some \<lparr>nt_buffered = 10, nt_done = False\<rparr>" "sh_clients s 0 = Idle" by blast
  note r = crun_append [OF es execs_run [OF s(1)]]
  obtain s' where s': "execs False exBlk 0 [CloseDone, Client 0] s = Some s'" "sh_clients s' 0 = QueryCalled"
    using s by simp
  from full_channel_stops_ledger [OF r s(2,3) _ execs_run [OF s'(1)]] r execs_run [OF s'(1)] s'(2) show ?thesis
    by (auto simp: dataChannelCap_def)
qed

end
