(* ===== verification/Driver.thy ===== *)
theory Driver
  imports Go_Std "HOL-Library.Signed_Division"
begin

text \<open>
  \<open>driver/loaddriver.go\<close>: the checks on the measurement parameters, the hot keys, the seeding
  phases, the schedule of the load, the concurrent load loop and the summary.

  Go's \<open>int\<close> is an integer, with the wrap of a product written out. The gateway is what it answers
  to each submission; \<open>math/rand\<close> is a generator passed as an argument. Latencies are kept in
  microseconds; the floating-point roundings of the printed figures are not part of the model; the
  credentials, the connections and the files that are written are in \<open>Driver_Main\<close>.
\<close>

section \<open>Parameters\<close>

record flags =
  fl_cc :: string
  fl_count :: int
  fl_conc :: int
  fl_key :: string
  fl_nkeys :: int
  fl_amount :: int64
  fl_revealRatio :: int
  fl_initBal :: int64
  fl_seed :: int64
  fl_amountMax :: int64
  fl_creditRatio :: int

text \<open>Indexing a map literal: the zero value for a key that is not there.\<close>

definition mapLookup :: "(string \<times> string) list \<Rightarrow> string \<Rightarrow> string" where
  "mapLookup m k = (case map_of m k of None \<Rightarrow> '''' | Some v \<Rightarrow> v)"

definition ccName :: "flags \<Rightarrow> string" where
  "ccName f = mapLookup [(''ours'', ''typeddelta''), (''nocheck'', ''typeddelta''), (''vanilla'', ''vanilla''),
     (''ht'', ''highthroughput'')] (fl_cc f)"

text \<open>The message of \<open>usageExit\<close> (exit status 2), or \<open>None\<close> when the run goes on.\<close>

definition checkFlags :: "flags \<Rightarrow> string option" where
  "checkFlags f =
     (if ccName f = '''' then Some ''cc must be ours|nocheck|vanilla|ht''
      else if fl_count f \<le> 0 then Some ''-count must be > 0''
      else if fl_conc f \<le> 0 then Some ''-concurrency must be > 0''
      else if fl_nkeys f \<le> 0 then Some ''-keys must be > 0''
      else if fl_revealRatio f < 0 \<or> fl_revealRatio f > 100 then Some ''-revealRatio must be in [0,100]''
      else if sint (fl_amount f) < 0 then Some ''-amount must be >= 0''
      else if sint (fl_amountMax f) < 0 then Some ''-amountMax must be >= 0''
      else if fl_creditRatio f < 0 \<or> fl_creditRatio f > 100 then Some ''-creditRatio must be in [0,100]''
      else None)"

definition itoa :: "int64 \<Rightarrow> string" where
  "itoa n = FormatInt n"

section \<open>Keys and seeding\<close>

definition hotKeys :: "flags \<Rightarrow> string list" where
  "hotKeys f = map (\<lambda>j. if fl_nkeys f = 1 then fl_key f else fl_key f @ ''-k'' @ natString j) [0..<nat (fl_nkeys f)]"

text \<open>
  One seeding phase: the goroutines submit in the order \<open>ks\<close>, a permutation of the keys that the argument \<open>order\<close> gives, and the
  failures are counted; a phase with failures ends the program (exit status 1) with a message.
\<close>

fun seed_each :: "(string \<Rightarrow> string list \<Rightarrow> 'w \<Rightarrow> (string + unit) \<times> 'w) \<Rightarrow> flags \<Rightarrow> string \<Rightarrow> bool \<Rightarrow> string list \<Rightarrow> 'w \<Rightarrow> nat \<times> 'w" where
  "seed_each submit f fn withVal [] w = (0, w)"
| "seed_each submit f fn withVal (k # ks) w =
     (case submit fn (if withVal then [k, itoa (fl_initBal f)] else [k]) w of
        (e, w') \<Rightarrow>
          (case seed_each submit f fn withVal ks w' of
             (n, w'') \<Rightarrow> ((case e of Inl _ \<Rightarrow> n + 1 | Inr _ \<Rightarrow> n), w'')))"

definition seedAll ::
  "(string \<Rightarrow> string list \<Rightarrow> 'w \<Rightarrow> (string + unit) \<times> 'w) \<Rightarrow> (string \<Rightarrow> string list \<Rightarrow> string list) \<Rightarrow> flags \<Rightarrow> string \<Rightarrow> bool \<Rightarrow> 'w \<Rightarrow> (string + unit) \<times> 'w" where
  "seedAll submit order f fn withVal w =
     (case seed_each submit f fn withVal (order fn (hotKeys f)) w of
        (serr, w') \<Rightarrow>
          (if serr > 0
           then Inl (''FATAL seed: '' @ natString serr @ ''/'' @ natString (length (hotKeys f)) @ '' seed submits failed for '' @ fn)
           else Inr (), w'))"

definition seedRun ::
  "(string \<Rightarrow> string list \<Rightarrow> 'w \<Rightarrow> (string + unit) \<times> 'w) \<Rightarrow> (string \<Rightarrow> string list \<Rightarrow> string list) \<Rightarrow> flags \<Rightarrow> 'w \<Rightarrow> (string + unit) \<times> 'w" where
  "seedRun submit order f w =
     (if fl_cc f = ''ours'' \<or> fl_cc f = ''nocheck'' then
        (case seedAll submit order f (if fl_cc f = ''nocheck'' then ''SeedRangeSchema'' else ''SeedSchema'') False w of
           (Inl err, w') \<Rightarrow> (Inl err, w')
         | (Inr _, w') \<Rightarrow> seedAll submit order f ''PutPlain'' True w')
      else if fl_cc f = ''vanilla'' \<or> fl_cc f = ''ht'' then seedAll submit order f ''Set'' True w
      else (Inr (), w))"

section \<open>The schedule\<close>

definition debitFn :: "flags \<Rightarrow> string" where
  "debitFn f = mapLookup [(''ours'', ''Sub''), (''nocheck'', ''Sub''), (''vanilla'', ''Debit''), (''ht'', ''Debit'')] (fl_cc f)"

definition creditFn :: "flags \<Rightarrow> string" where
  "creditFn f = mapLookup [(''ours'', ''Add''), (''nocheck'', ''Add''), (''ht'', ''Credit'')] (fl_cc f)"

record 'r rng =
  rng_New :: "int64 \<Rightarrow> 'r"
  rng_Int63n :: "int64 \<Rightarrow> 'r \<Rightarrow> int64 \<times> 'r"
  rng_Intn :: "int \<Rightarrow> 'r \<Rightarrow> int \<times> 'r"

fun schedule_loop :: "'r rng \<Rightarrow> flags \<Rightarrow> nat \<Rightarrow> 'r \<Rightarrow> (int64 \<times> bool) list" where
  "schedule_loop g f 0 r = []"
| "schedule_loop g f (Suc n) r =
     (let (amount, r1) = (if sint (fl_amountMax f) > 0
            then (case rng_Int63n g (fl_amountMax f) r of (x, r1) \<Rightarrow> (x + 1, r1)) else (fl_amount f, r));
          (credit, r2) = (if fl_creditRatio f > 0
            then (case rng_Intn g 100 r1 of (x, r2) \<Rightarrow> (x < fl_creditRatio f, r2)) else (False, r1))
      in (amount, credit) # schedule_loop g f n r2)"

text \<open>\<open>txAmounts\<close> and \<open>txCredit\<close> as one list.\<close>

definition schedule :: "'r rng \<Rightarrow> flags \<Rightarrow> (int64 \<times> bool) list" where
  "schedule g f =
     (if sint (fl_seed f) > 0 then schedule_loop g f (nat (fl_count f)) (rng_New g (fl_seed f))
      else replicate (nat (fl_count f)) (fl_amount f, False))"

definition effectiveReveal :: "flags \<Rightarrow> int" where
  "effectiveReveal f = (if fl_cc f \<noteq> ''ours'' then 0 else fl_revealRatio f)"

definition isReveal :: "flags \<Rightarrow> int \<Rightarrow> bool" where
  "isReveal f i \<longleftrightarrow>
     (let rr = effectiveReveal f in rr > 0 \<and> sint (word_of_int (i * rr) :: int64) smod 100 < rr)"

text \<open>What transaction \<open>i\<close> submits: the function, the key and the amount.\<close>

definition txFn :: "flags \<Rightarrow> (int64 \<times> bool) list \<Rightarrow> nat \<Rightarrow> string" where
  "txFn f sch i =
     (let fn = (if isReveal f (int i) then ''RevealDebit'' else debitFn f)
      in if snd (sch ! i) then creditFn f else fn)"

definition txKey :: "flags \<Rightarrow> nat \<Rightarrow> string" where
  "txKey f i = hotKeys f ! (i mod length (hotKeys f))"

definition txArgs :: "flags \<Rightarrow> (int64 \<times> bool) list \<Rightarrow> nat \<Rightarrow> string list" where
  "txArgs f sch i = [txKey f i, itoa (fst (sch ! i))]"

section \<open>The load phase\<close>

text \<open>
  The answer to a submission: a failed submit, a commit whose status could not be read, or the
  validation code and success flag of a committed transaction.
\<close>

datatype answer = SubmitFailed | StatusFailed string | Committed string string bool

record tx_rec =
  r_idx :: nat
  r_txid :: string
  r_key :: string
  r_code :: string
  r_ok :: bool
  r_submitErr :: bool
  r_reveal :: bool
  r_credit :: bool
  r_lat :: int

definition zeroRec :: tx_rec where
  "zeroRec = \<lparr>r_idx = 0, r_txid = '''', r_key = '''', r_code = '''', r_ok = False, r_submitErr = False, r_reveal = False,
     r_credit = False, r_lat = 0\<rparr>"

definition recOf :: "flags \<Rightarrow> (int64 \<times> bool) list \<Rightarrow> (nat \<Rightarrow> answer \<times> int) \<Rightarrow> nat \<Rightarrow> tx_rec" where
  "recOf f sch ans i =
     (let base = zeroRec\<lparr>r_idx := i, r_key := txKey f i, r_reveal := isReveal f (int i), r_credit := snd (sch ! i),
                         r_lat := snd (ans i)\<rparr>
      in case fst (ans i) of
           SubmitFailed \<Rightarrow> base\<lparr>r_submitErr := True\<rparr>
         | StatusFailed txid \<Rightarrow> base\<lparr>r_txid := txid, r_submitErr := True\<rparr>
         | Committed txid code ok \<Rightarrow> base\<lparr>r_txid := txid, r_code := code, r_ok := ok\<rparr>)"

text \<open>
  The loop and its goroutines. The loop starts transaction \<open>next\<close> when the semaphore, a channel of
  capacity \<open>concurrency\<close>, has room; a goroutine that has its answer writes its own record, counts a
  failed submit and leaves the semaphore.
\<close>

record load =
  ld_next :: nat
  ld_inflight :: "nat set"
  ld_recs :: "tx_rec list"
  ld_submitErrs :: nat

definition load0 :: "flags \<Rightarrow> load" where
  "load0 f = \<lparr>ld_next = 0, ld_inflight = {}, ld_recs = replicate (nat (fl_count f)) zeroRec, ld_submitErrs = 0\<rparr>"

inductive load_step :: "flags \<Rightarrow> (int64 \<times> bool) list \<Rightarrow> (nat \<Rightarrow> answer \<times> int) \<Rightarrow> load \<Rightarrow> load \<Rightarrow> bool"
  for f sch ans where
  start: "int (ld_next s) < fl_count f \<Longrightarrow> int (card (ld_inflight s)) < fl_conc f \<Longrightarrow>
     load_step f sch ans s (s\<lparr>ld_inflight := insert (ld_next s) (ld_inflight s), ld_next := ld_next s + 1\<rparr>)"
| finish: "i \<in> ld_inflight s \<Longrightarrow>
     load_step f sch ans s
       (s\<lparr>ld_recs := (ld_recs s)[i := recOf f sch ans i],
         ld_submitErrs := ld_submitErrs s + (if fst (ans i) = SubmitFailed then 1 else 0),
         ld_inflight := ld_inflight s - {i}\<rparr>)"

text \<open>After \<open>wg.Wait()\<close>.\<close>

definition load_done :: "flags \<Rightarrow> load \<Rightarrow> bool" where
  "load_done f s \<longleftrightarrow> int (ld_next s) = fl_count f \<and> ld_inflight s = {}"

section \<open>The summary\<close>

record agg =
  ag_byCode :: "string \<rightharpoonup> nat"
  ag_valid :: nat
  ag_mvccInvalid :: nat
  ag_revealTotal :: nat
  ag_revealValid :: nat
  ag_creditTotal :: nat
  ag_lats :: "int list"

definition agg0 :: agg where
  "agg0 = \<lparr>ag_byCode = Map.empty, ag_valid = 0, ag_mvccInvalid = 0, ag_revealTotal = 0, ag_revealValid = 0,
     ag_creditTotal = 0, ag_lats = []\<rparr>"

definition codeCount :: "(string \<rightharpoonup> nat) \<Rightarrow> string \<Rightarrow> nat" where
  "codeCount m c = (case m c of None \<Rightarrow> 0 | Some n \<Rightarrow> n)"

definition countUp :: "string \<Rightarrow> (string \<rightharpoonup> nat) \<Rightarrow> (string \<rightharpoonup> nat)" where
  "countUp c m = m(c \<mapsto> codeCount m c + 1)"

definition aggStep :: "tx_rec \<Rightarrow> agg \<Rightarrow> agg" where
  "aggStep r a =
     (let a1 = a\<lparr>ag_revealTotal := ag_revealTotal a + (if r_reveal r then 1 else 0),
                 ag_creditTotal := ag_creditTotal a + (if r_credit r then 1 else 0)\<rparr>
      in if r_submitErr r then a1\<lparr>ag_byCode := countUp ''SUBMIT_ERROR'' (ag_byCode a1)\<rparr>
         else
           (let a2 = a1\<lparr>ag_byCode := countUp (r_code r) (ag_byCode a1)\<rparr>;
                a3 = (if r_ok r then a2\<lparr>ag_valid := ag_valid a2 + 1,
                        ag_revealValid := ag_revealValid a2 + (if r_reveal r then 1 else 0)\<rparr>
                      else if r_code r = ''MVCC_READ_CONFLICT'' \<or> r_code r = ''PHANTOM_READ_CONFLICT''
                      then a2\<lparr>ag_mvccInvalid := ag_mvccInvalid a2 + 1\<rparr> else a2)
            in a3\<lparr>ag_lats := ag_lats a3 @ [r_lat r]\<rparr>))"

definition aggregate :: "tx_rec list \<Rightarrow> agg" where
  "aggregate recs = (let a = fold aggStep recs agg0 in a\<lparr>ag_lats := sort (ag_lats a)\<rparr>)"

record summary =
  su_submitted :: int
  su_submit_errors :: int
  su_valid :: int
  su_invalid :: int
  su_mvcc_invalid :: int
  su_reveal_ratio :: int
  su_reveal_total :: int
  su_reveal_valid :: int
  su_credit_total :: int
  su_by_code :: "string \<rightharpoonup> nat"

definition summaryOf :: "flags \<Rightarrow> load \<Rightarrow> summary" where
  "summaryOf f s =
     (let a = aggregate (ld_recs s)
      in \<lparr>su_submitted = fl_count f, su_submit_errors = int (ld_submitErrs s), su_valid = int (ag_valid a),
          su_invalid = fl_count f - int (ag_valid a) - int (ld_submitErrs s), su_mvcc_invalid = int (ag_mvccInvalid a),
          su_reveal_ratio = effectiveReveal f, su_reveal_total = int (ag_revealTotal a), su_reveal_valid = int (ag_revealValid a),
          su_credit_total = int (ag_creditTotal a), su_by_code = ag_byCode a\<rparr>)"

text \<open>The percentile of the sorted latencies, before rounding for print.\<close>

definition pct :: "int list \<Rightarrow> nat \<Rightarrow> int" where
  "pct lats p =
     (if lats = [] then 0
      else (let i = p * length lats div 100
            in lats ! (if i \<ge> length lats then length lats - 1 else i)))"

text \<open>The first entry of a directory that is not a directory is read.\<close>

fun readFirst_loop :: "(string \<Rightarrow> string + bytes) \<Rightarrow> string \<Rightarrow> (string \<times> bool) list \<Rightarrow> string + bytes" where
  "readFirst_loop readFile dir [] = Inl (''no file in '' @ dir)"
| "readFirst_loop readFile dir ((name, isDir) # es) =
     (if \<not> isDir then readFile name else readFirst_loop readFile dir es)"

end
