(* ===== verification/Driver_Props.thy ===== *)
theory Driver_Props
  imports Driver
begin

text \<open>
  Properties of the load driver: the share of transactions on the reveal path, the concurrent load
  loop, and what the figures of the summary count.
\<close>

section \<open>The reveal schedule\<close>

lemma mod_below_step:
  fixes x R :: int
  assumes "0 < R" "R \<le> 100"
  shows "(if x mod 100 < R then 1 else 0) = x div 100 - (x - R) div 100"
proof -
  define m where "m = x mod 100"
  have m: "0 \<le> m" "m < 100" by (simp_all add: m_def)
  have x: "x = m + x div 100 * 100" by (simp add: m_def)
  have shift: "(x - R) div 100 = (x div 100 - c) + (m - R + c * 100) div 100" for c
  proof -
    have "x - R = (m - R + c * 100) + (x div 100 - c) * 100" by (subst x) (simp add: algebra_simps)
    then show ?thesis by (simp only: div_mult_self1 [of 100] zero_neq_numeral [symmetric] not_False_eq_True)
  qed
  show ?thesis
  proof (cases "m < R")
    case True
    then have "(m - R + 1 * 100) div 100 = 0" using assms m by (intro div_pos_pos_trivial) auto
    with shift [of 1] True show ?thesis unfolding m_def [symmetric] by simp
  next
    case False
    then have "(m - R + 0 * 100) div 100 = 0" using assms m by (intro div_pos_pos_trivial) auto
    with shift [of 0] False show ?thesis unfolding m_def [symmetric] by simp
  qed
qed

lemma isReveal_exact:
  assumes "fl_cc f = ''ours''" "0 < fl_revealRatio f" "fl_revealRatio f \<le> 100" "0 \<le> i" "i * 100 < 2 ^ 63"
  shows "isReveal f i \<longleftrightarrow> i * fl_revealRatio f mod 100 < fl_revealRatio f"
proof -
  let ?x = "i * fl_revealRatio f"
  have "?x \<le> i * 100" using assms by (intro mult_left_mono) auto
  moreover have "0 \<le> ?x" using assms by simp
  ultimately have "sint (word_of_int ?x :: int64) = ?x" using assms(5) by (intro sint_of_int64) (simp add: in_int64_def)
  then show ?thesis
    using assms \<open>0 \<le> ?x\<close> by (simp add: isReveal_def effectiveReveal_def Let_def signed_modulo_int_def sgn_if)
qed

text \<open>
  The reveal share is exact: With a reveal ratio of \<open>R\<close> percent, every window of 100
  consecutive transactions of the typed-delta run has exactly \<open>R\<close> on the read-modify-write path,
  wherever it starts, as long as the product of index and ratio fits an int64.
\<close>

theorem reveal_share_exact:
  assumes "fl_cc f = ''ours''" and "0 \<le> fl_revealRatio f" and "fl_revealRatio f \<le> 100" and "(int a + 100) * 100 < 2 ^ 63"
  shows "length (filter (\<lambda>i. isReveal f (int i)) [a..<a + 100]) = nat (fl_revealRatio f)"
proof (cases "fl_revealRatio f = 0")
  case False
  let ?R = "fl_revealRatio f"
  have R: "0 < ?R" using assms(2) False by simp
  have "int (length (filter (\<lambda>i. isReveal f (int i)) [a..<a + n])) = (int a + int n - 1) * ?R div 100 - (int a - 1) * ?R div 100"
    if "n \<le> 100" for n
    using that
  proof (induction n)
    case (Suc n)
    have "isReveal f (int a + int n) \<longleftrightarrow> (int a + int n) * ?R mod 100 < ?R"
      using isReveal_exact [OF assms(1) R assms(3), of "int a + int n"] assms(4) Suc.prems by simp
    then have "(if isReveal f (int a + int n) then 1 else 0) = (int a + int n) * ?R div 100 - (int a + int n - 1) * ?R div 100"
      using mod_below_step [OF R assms(3), of "(int a + int n) * ?R"] by (simp add: left_diff_distrib)
    with Suc show ?case by (simp split: if_splits)
  qed simp
  from this [of 100] have "int (length (filter (\<lambda>i. isReveal f (int i)) [a..<a + 100])) =
    ((int a - 1) * ?R + ?R * 100) div 100 - (int a - 1) * ?R div 100"
    by (simp add: algebra_simps)
  also have "\<dots> = ?R" by simp
  finally show ?thesis by simp
qed (simp add: isReveal_def effectiveReveal_def)

section \<open>The load loop\<close>

abbreviation load_reachable :: "flags \<Rightarrow> (int64 \<times> bool) list \<Rightarrow> (nat \<Rightarrow> answer \<times> int) \<Rightarrow> load \<Rightarrow> bool" where
  "load_reachable f sch ans \<equiv> (load_step f sch ans)\<^sup>*\<^sup>* (load0 f)"

text \<open>Transactions that have an answer: started and no longer in flight.\<close>

definition answered :: "load \<Rightarrow> nat set" where
  "answered s = {..<ld_next s} - ld_inflight s"

definition load_inv :: "flags \<Rightarrow> (int64 \<times> bool) list \<Rightarrow> (nat \<Rightarrow> answer \<times> int) \<Rightarrow> load \<Rightarrow> bool" where
  "load_inv f sch ans s \<longleftrightarrow>
     int (ld_next s) \<le> fl_count f \<and> ld_inflight s \<subseteq> {..<ld_next s} \<and> int (card (ld_inflight s)) \<le> fl_conc f \<and>
     ld_recs s = map (\<lambda>i. if i \<in> answered s then recOf f sch ans i else zeroRec) [0..<nat (fl_count f)] \<and>
     ld_submitErrs s = card {i \<in> answered s. fst (ans i) = SubmitFailed}"

lemma load_inv_finite: "load_inv f sch ans s \<Longrightarrow> finite (ld_inflight s)"
  unfolding load_inv_def using finite_subset by blast

lemma load_inv_init: "0 \<le> fl_count f \<Longrightarrow> 0 \<le> fl_conc f \<Longrightarrow> load_inv f sch ans (load0 f)"
  by (simp add: load_inv_def load0_def answered_def map_replicate_const)

lemma load_inv_step: "load_step f sch ans s s' \<Longrightarrow> load_inv f sch ans s \<Longrightarrow> load_inv f sch ans s'"
proof (induction rule: load_step.induct)
  case (start s)
  let ?s = "s\<lparr>ld_inflight := insert (ld_next s) (ld_inflight s), ld_next := ld_next s + 1\<rparr>"
  have "answered ?s = answered s" using start(3) by (auto simp: answered_def load_inv_def)
  moreover have "card (insert (ld_next s) (ld_inflight s)) \<le> card (ld_inflight s) + 1" by (rule card_insert_le_m1) auto
  ultimately show ?case using start by (auto simp: load_inv_def)
next
  case (finish i s)
  let ?s = "s\<lparr>ld_recs := (ld_recs s)[i := recOf f sch ans i],
         ld_submitErrs := ld_submitErrs s + (if fst (ans i) = SubmitFailed then 1 else 0),
         ld_inflight := ld_inflight s - {i}\<rparr>"
  have i: "i < ld_next s" "i \<notin> answered s" "i < nat (fl_count f)" using finish by (auto simp: load_inv_def answered_def)
  have a: "answered ?s = insert i (answered s)" using i(1) by (auto simp: answered_def)
  have "(ld_recs s)[i := recOf f sch ans i] =
      map (\<lambda>j. if j \<in> insert i (answered s) then recOf f sch ans j else zeroRec) [0..<nat (fl_count f)]"
    using finish(2) i by (intro nth_equalityI) (auto simp: load_inv_def nth_list_update)
  moreover have "{j \<in> insert i (answered s). fst (ans j) = SubmitFailed} =
      (if fst (ans i) = SubmitFailed then insert i {j \<in> answered s. fst (ans j) = SubmitFailed} else {j \<in> answered s. fst (ans j) = SubmitFailed})"
    by auto
  then have "card {j \<in> insert i (answered s). fst (ans j) = SubmitFailed} =
      card {j \<in> answered s. fst (ans j) = SubmitFailed} + (if fst (ans i) = SubmitFailed then 1 else 0)"
    using i(2) by (simp add: answered_def)
  moreover have "card (ld_inflight s - {i}) \<le> card (ld_inflight s)"
    using load_inv_finite [OF finish(2)] by (intro card_mono) auto
  ultimately show ?case using finish(2) a by (auto simp: load_inv_def)
qed

lemma load_inv_reachable:
  assumes "load_reachable f sch ans s" "0 \<le> fl_count f" "0 \<le> fl_conc f"
  shows "load_inv f sch ans s"
  using assms(1)
proof (induction rule: rtranclp_induct)
  case base
  show ?case using assms(2,3) by (rule load_inv_init)
next
  case (step s s')
  then show ?case using load_inv_step by blast
qed

text \<open>A measure that every step lowers, so that a run has at most twice as many steps as transactions.\<close>

definition load_left :: "flags \<Rightarrow> load \<Rightarrow> nat" where
  "load_left f s = 2 * (nat (fl_count f) - ld_next s) + card (ld_inflight s)"

lemma load_step_left:
  "load_step f sch ans s s' \<Longrightarrow> load_inv f sch ans s \<Longrightarrow> load_left f s' < load_left f s"
proof (induction rule: load_step.induct)
  case (start s)
  have "ld_next s \<notin> ld_inflight s" using start(3) by (auto simp: load_inv_def)
  with start load_inv_finite [OF start(3)] show ?case by (simp add: load_left_def card_insert_if)
next
  case (finish i s)
  then show ?case using card_Diff1_less [OF load_inv_finite [OF finish(2)] finish(1)] by (simp add: load_left_def)
qed

lemma load_progress:
  assumes "load_inv f sch ans s" "0 < fl_conc f" "\<not> load_done f s"
  shows "\<exists>s'. load_step f sch ans s s'"
proof (cases "ld_inflight s = {}")
  case True
  then have "int (ld_next s) < fl_count f" using assms(1,3) by (auto simp: load_inv_def load_done_def)
  then show ?thesis using load_step.start [of s f] True assms(2) by auto
next
  case False
  then obtain i where "i \<in> ld_inflight s" by blast
  from load_step.finish [of i s f sch ans, OF this] show ?thesis by blast
qed

lemma load_done_recs:
  assumes "load_inv f sch ans s" "load_done f s"
  shows "ld_recs s = map (recOf f sch ans) [0..<nat (fl_count f)]"
    "ld_submitErrs s = length (filter (\<lambda>i. fst (ans i) = SubmitFailed) [0..<nat (fl_count f)])"
proof -
  have a: "answered s = {..<nat (fl_count f)}" using assms(2) by (auto simp: answered_def load_done_def)
  then show "ld_recs s = map (recOf f sch ans) [0..<nat (fl_count f)]" using assms(1) by (auto simp: load_inv_def)
  have "{i. i < nat (fl_count f) \<and> fst (ans i) = SubmitFailed} = set (filter (\<lambda>i. fst (ans i) = SubmitFailed) [0..<nat (fl_count f)])"
    by auto
  then have "card {i. i < nat (fl_count f) \<and> fst (ans i) = SubmitFailed} = length (filter (\<lambda>i. fst (ans i) = SubmitFailed) [0..<nat (fl_count f)])"
    by (metis distinct_card distinct_filter distinct_upt)
  then show "ld_submitErrs s = length (filter (\<lambda>i. fst (ans i) = SubmitFailed) [0..<nat (fl_count f)])"
    using assms(1) a by (simp add: load_inv_def lessThan_def)
qed

lemma checkFlags_bounds: "checkFlags f = None \<Longrightarrow> 0 < fl_count f \<and> 0 < fl_conc f \<and> 0 < fl_nkeys f"
  by (auto simp: checkFlags_def split: if_splits)

text \<open>
  C34 (the load phase ends with every answer recorded). In every interleaving of the loop with its
  goroutines at most \<open>concurrency\<close> transactions are in flight; until the end some step is possible
  and every step lowers a measure, so the phase ends; then the record of each transaction is the one
  of its own answer.
\<close>

theorem load_phase_completes:
  assumes "checkFlags f = None" and "load_reachable f sch ans s"
  shows "int (card (ld_inflight s)) \<le> fl_conc f \<and>
    (load_done f s \<or> (\<exists>s'. load_step f sch ans s s')) \<and>
    (\<forall>s'. load_step f sch ans s s' \<longrightarrow> load_left f s' < load_left f s) \<and>
    (load_done f s \<longrightarrow> ld_recs s = map (recOf f sch ans) [0..<nat (fl_count f)])"
proof -
  note b = checkFlags_bounds [OF assms(1)]
  then have inv: "load_inv f sch ans s" using load_inv_reachable [OF assms(2)] by simp
  then have "int (card (ld_inflight s)) \<le> fl_conc f" by (simp add: load_inv_def)
  then show ?thesis using inv b load_progress load_step_left load_done_recs(1) by blast
qed

section \<open>The summary\<close>

fun answerCode :: "answer \<Rightarrow> string" where
  "answerCode (Committed txid code ok) = code"
| "answerCode _ = ''SUBMIT_ERROR''"

fun isValid :: "answer \<Rightarrow> bool" where
  "isValid (Committed txid code ok) = ok"
| "isValid _ = False"

fun isRejected :: "answer \<Rightarrow> bool" where
  "isRejected (Committed txid code ok) = (\<not> ok)"
| "isRejected _ = False"

fun isStatusFailed :: "answer \<Rightarrow> bool" where
  "isStatusFailed (StatusFailed txid) = True"
| "isStatusFailed _ = False"

abbreviation howMany :: "(answer \<Rightarrow> bool) \<Rightarrow> flags \<Rightarrow> (nat \<Rightarrow> answer \<times> int) \<Rightarrow> nat" where
  "howMany P f ans \<equiv> length (filter (\<lambda>i. P (fst (ans i))) [0..<nat (fl_count f)])"

lemma codeCount_countUp: "codeCount (countUp c m) d = codeCount m d + (if d = c then 1 else 0)"
  by (simp add: codeCount_def countUp_def)

lemmas aggStep_simps = aggStep_def Let_def recOf_def zeroRec_def codeCount_countUp

lemma aggStep_recOf:
  "ag_valid (aggStep (recOf f sch ans i) a) = ag_valid a + (if isValid (fst (ans i)) then 1 else 0)"
  "codeCount (ag_byCode (aggStep (recOf f sch ans i) a)) c = codeCount (ag_byCode a) c + (if answerCode (fst (ans i)) = c then 1 else 0)"
  "ag_revealTotal (aggStep (recOf f sch ans i) a) = ag_revealTotal a + (if isReveal f (int i) then 1 else 0)"
  "length (ag_lats (aggStep (recOf f sch ans i) a)) =
     length (ag_lats a) + (if fst (ans i) = SubmitFailed \<or> isStatusFailed (fst (ans i)) then 0 else 1)"
  by (cases "fst (ans i)"; simp add: aggStep_simps)+

lemma fold_aggStep:
  "ag_valid (fold aggStep (map (recOf f sch ans) is) a) = ag_valid a + length (filter (\<lambda>i. isValid (fst (ans i))) is)"
  "codeCount (ag_byCode (fold aggStep (map (recOf f sch ans) is) a)) c =
     codeCount (ag_byCode a) c + length (filter (\<lambda>i. answerCode (fst (ans i)) = c) is)"
  "ag_revealTotal (fold aggStep (map (recOf f sch ans) is) a) = ag_revealTotal a + length (filter (\<lambda>i. isReveal f (int i)) is)"
  by (induction "is" arbitrary: a) (simp_all add: aggStep_recOf)

lemma answers_partition:
  "howMany isValid f ans + howMany isRejected f ans + howMany isStatusFailed f ans + howMany (\<lambda>x. x = SubmitFailed) f ans = nat (fl_count f)"
proof -
  have "length (filter (\<lambda>i. isValid (fst (ans i))) is) + length (filter (\<lambda>i. isRejected (fst (ans i))) is) +
    length (filter (\<lambda>i. isStatusFailed (fst (ans i))) is) + length (filter (\<lambda>i. fst (ans i) = SubmitFailed) is) = length is" for "is"
  proof (induction "is")
    case (Cons i "is")
    then show ?case by (cases "fst (ans i)") auto
  qed simp
  from this [of "[0..<nat (fl_count f)]"] show ?thesis by simp
qed

text \<open>
  C35 (what the summary counts). At the end of every run \<open>valid\<close> is the number of transactions
  committed as valid, \<open>by_code\<close> counts each validation code and lists both kinds of gateway failure
  under \<open>SUBMIT_ERROR\<close>, while \<open>submit_errors\<close> counts failed submits only: transactions whose commit
  status could not be read are part of \<open>invalid\<close>, together with the rejected ones.
\<close>

theorem summary_counts:
  assumes "checkFlags f = None" and "load_reachable f sch ans s" and "load_done f s"
  shows "su_valid (summaryOf f s) = int (howMany isValid f ans) \<and>
    su_submit_errors (summaryOf f s) = int (howMany (\<lambda>x. x = SubmitFailed) f ans) \<and>
    su_invalid (summaryOf f s) = int (howMany isRejected f ans) + int (howMany isStatusFailed f ans) \<and>
    su_reveal_total (summaryOf f s) = int (length (filter (\<lambda>i. isReveal f (int i)) [0..<nat (fl_count f)])) \<and>
    (\<forall>c. codeCount (su_by_code (summaryOf f s)) c = howMany (\<lambda>x. answerCode x = c) f ans)"
proof -
  note b = checkFlags_bounds [OF assms(1)]
  then have inv: "load_inv f sch ans s" using load_inv_reachable [OF assms(2)] by simp
  note recs = load_done_recs [OF inv assms(3)]
  have f: "fl_count f = int (nat (fl_count f))" using b by simp
  have invalid: "fl_count f - int (howMany isValid f ans) - int (howMany (\<lambda>x. x = SubmitFailed) f ans) =
      int (howMany isRejected f ans) + int (howMany isStatusFailed f ans)"
    by (subst f, subst answers_partition [of ans f, symmetric]) (simp only: of_nat_add)
  let ?a = "aggregate (ld_recs s)"
  have "ag_valid ?a = howMany isValid f ans" "ag_revealTotal ?a = length (filter (\<lambda>i. isReveal f (int i)) [0..<nat (fl_count f)])"
    by (simp_all add: aggregate_def Let_def recs(1) fold_aggStep agg0_def)
  moreover have "codeCount (ag_byCode ?a) c = howMany (\<lambda>x. answerCode x = c) f ans" for c
    by (simp add: aggregate_def Let_def recs(1) fold_aggStep agg0_def codeCount_def [of Map.empty])
  ultimately show ?thesis using recs(2) invalid by (simp add: summaryOf_def Let_def)
qed

section \<open>An example run\<close>

definition exFlags :: flags where
  "exFlags = \<lparr>fl_cc = ''ours'', fl_count = 2, fl_conc = 1, fl_key = ''hot'', fl_nkeys = 2, fl_amount = 1, fl_revealRatio = 40,
     fl_initBal = 100, fl_seed = 0, fl_amountMax = 0, fl_creditRatio = 0\<rparr>"

definition exSchedule :: "(int64 \<times> bool) list" where
  "exSchedule = [(1, False), (1, False)]"

definition exAnswers :: "nat \<Rightarrow> answer \<times> int" where
  "exAnswers i = (if i = 0 then (Committed ''t0'' ''VALID'' True, 5) else (StatusFailed ''t1'', 7))"

definition exEnd :: load where
  "exEnd = \<lparr>ld_next = 2, ld_inflight = {},
     ld_recs = [recOf exFlags exSchedule exAnswers 0, recOf exFlags exSchedule exAnswers 1], ld_submitErrs = 0\<rparr>"

lemma exFlags_ok: "checkFlags exFlags = None"
  by (simp add: checkFlags_def exFlags_def ccName_def mapLookup_def)

lemma exRun: "load_reachable exFlags exSchedule exAnswers exEnd"
proof -
  let ?step = "load_step exFlags exSchedule exAnswers"
  let ?r = "recOf exFlags exSchedule exAnswers"
  let ?s1 = "\<lparr>ld_next = 1, ld_inflight = {0}, ld_recs = [zeroRec, zeroRec], ld_submitErrs = 0\<rparr>"
  let ?s2 = "\<lparr>ld_next = 1, ld_inflight = {}, ld_recs = [?r 0, zeroRec], ld_submitErrs = 0\<rparr>"
  let ?s3 = "\<lparr>ld_next = 2, ld_inflight = {1}, ld_recs = [?r 0, zeroRec], ld_submitErrs = 0\<rparr>"
  have "?step (load0 exFlags) ?s1"
    using load_step.start [of "load0 exFlags" exFlags] by (simp add: load0_def exFlags_def numeral_2_eq_2)
  moreover have "?step ?s1 ?s2"
    using load_step.finish [of 0 ?s1 exFlags exSchedule exAnswers] by (simp add: exAnswers_def)
  moreover have "?step ?s2 ?s3"
    using load_step.start [of ?s2 exFlags] by (simp add: exFlags_def numeral_2_eq_2)
  moreover have "?step ?s3 exEnd"
    using load_step.finish [of 1 ?s3 exFlags exSchedule exAnswers] by (simp add: exEnd_def exAnswers_def)
  ultimately show ?thesis by (meson rtranclp.rtrancl_into_rtrancl rtranclp.rtrancl_refl)
qed

lemma exEnd_done: "load_done exFlags exEnd"
  by (simp add: load_done_def exEnd_def exFlags_def)

theorem load_phase_completes_witness:
  "ld_recs exEnd = [recOf exFlags exSchedule exAnswers 0, recOf exFlags exSchedule exAnswers 1]"
proof -
  have "ld_recs exEnd = map (recOf exFlags exSchedule exAnswers) [0..<nat (fl_count exFlags)]"
    using load_phase_completes [OF exFlags_ok exRun] exEnd_done by blast
  then show ?thesis by (simp add: exFlags_def numeral_2_eq_2)
qed

theorem summary_counts_witness:
  "su_submit_errors (summaryOf exFlags exEnd) = 0 \<and> su_invalid (summaryOf exFlags exEnd) = 1 \<and>
   codeCount (su_by_code (summaryOf exFlags exEnd)) ''SUBMIT_ERROR'' = 1"
  using summary_counts [OF exFlags_ok exRun exEnd_done] by (simp add: exFlags_def exAnswers_def numeral_2_eq_2)

theorem reveal_share_exact_witness:
  "length (filter (\<lambda>i. isReveal exFlags (int i)) [7..<7 + 100]) = 40"
  using reveal_share_exact [of exFlags 7] by (simp add: exFlags_def)

section \<open>Keys, amounts and percentiles\<close>

lemma natString_eq: "natString m = natString n \<longleftrightarrow> m = n"
  by (metis option.inject parseDigits_natString)

text \<open>The hot keys are distinct and used in turn.\<close>

lemma hotKeys_distinct: "distinct (hotKeys f)" "length (hotKeys f) = nat (fl_nkeys f)"
  by (auto simp: hotKeys_def distinct_map inj_on_def natString_eq)

text \<open>
  Random amounts lie between 1 and the maximum when the generator keeps its documented range; a
  credit ratio of 0 gives no credits and one of 100 only credits.
\<close>

lemma schedule_length: "0 \<le> fl_count f \<Longrightarrow> length (schedule g f) = nat (fl_count f)"
proof -
  have "length (schedule_loop g f n r) = n" for n r
    by (induction n arbitrary: r) (simp_all add: Let_def split: prod.splits)
  then show ?thesis by (simp add: schedule_def)
qed

lemma schedule_amounts:
  assumes range: "\<And>n r. 0 < sint n \<Longrightarrow> 0 \<le> sint (fst (rng_Int63n g n r)) \<and> sint (fst (rng_Int63n g n r)) < sint n"
    and "0 < sint (fl_amountMax f)" "0 < sint (fl_seed f)" "(a, c) \<in> set (schedule g f)"
  shows "1 \<le> sint a \<and> sint a \<le> sint (fl_amountMax f)"
proof -
  have succ: "sint (x + 1) = sint x + 1" if "sint x < sint (fl_amountMax f)" for x :: int64
    using that sint_bounds64 [of x] sint_bounds64 [of "fl_amountMax f"] by (subst sint_add64_cases) simp
  have "1 \<le> sint a \<and> sint a \<le> sint (fl_amountMax f)" if "(a, c) \<in> set (schedule_loop g f n r)" for n r
    using that
  proof (induction n arbitrary: r)
    case (Suc n)
    obtain x r1 where x: "rng_Int63n g (fl_amountMax f) r = (x, r1)" by fastforce
    have "0 \<le> sint x" "sint x < sint (fl_amountMax f)" using range [OF assms(2), of r] x by simp_all
    with Suc x succ assms(2) show ?case by (auto simp: Let_def split: prod.splits if_splits)
  qed simp
  with assms(3,4) show ?thesis by (auto simp: schedule_def)
qed

text \<open>The read-modify-write contract has no entry in the table of credit functions.\<close>

lemma vanilla_has_no_credit: "fl_cc f = ''vanilla'' \<Longrightarrow> creditFn f = ''''"
  by (simp add: creditFn_def mapLookup_def)

text \<open>At least \<open>p\<close> percent of the latencies, and one more, do not exceed the \<open>p\<close>-th percentile below 100.\<close>

lemma pct_rank:
  assumes "sorted lats" "lats \<noteq> []" "p < 100"
  shows "length (filter (\<lambda>x. x \<le> pct lats p) lats) > p * length lats div 100" "pct lats p \<in> set lats"
proof -
  let ?i = "p * length lats div 100"
  have "p * length lats < 100 * length lats" using assms(2,3) by simp
  then have i: "?i < length lats" by (simp add: div_less_iff_less_mult mult.commute)
  then have v: "pct lats p = lats ! ?i" using assms(2) by (simp add: pct_def Let_def)
  then show "pct lats p \<in> set lats" using i by simp
  have "\<forall>x \<in> set (take (Suc ?i) lats). x \<le> lats ! ?i"
    using assms(1) i by (auto simp: in_set_conv_nth sorted_iff_nth_mono)
  then have "length (take (Suc ?i) lats) \<le> length (filter (\<lambda>x. x \<le> lats ! ?i) lats)"
    by (metis append_take_drop_id filter_append filter_True le_add1 length_append)
  then show "length (filter (\<lambda>x. x \<le> pct lats p) lats) > ?i" using i v by simp
qed

text \<open>A transaction drawn as a credit calls the credit function, but a reveal index is still counted as a reveal.\<close>

lemma credit_counted_as_reveal:
  assumes "isReveal f (int i)" "snd (sch ! i)"
  shows "txFn f sch i = creditFn f \<and> r_reveal (recOf f sch ans i)"
  using assms by (cases "fst (ans i)") (simp_all add: txFn_def recOf_def Let_def)

end
