(* ===== verification/Driver_Main.thy ===== *)
theory Driver_Main
  imports Driver_Props Go_Strings Go_Monad "HOL-Library.Multiset"
begin

text \<open>
  The rest of \<open>driver/loaddriver.go\<close>: the credentials on disk, the connection with its two
  identities, the start of \<open>main\<close> up to the load phase, and the files written at its end. The
  gateway, gRPC and certificate libraries are arguments (\<open>driver_env\<close>), with their values as
  handles; so are the files, the encoding of the summary as JSON and the two decimals of a latency,
  which are a matter of floating-point numbers.
\<close>

section \<open>Paths\<close>

text \<open>\<open>filepath.Clean\<close> on Unix works on the elements between the slashes.\<close>

fun cleanStep :: "bool \<Rightarrow> string \<Rightarrow> string list \<Rightarrow> string list" where
  "cleanStep rooted e done =
     (if e = '''' \<or> e = ''.'' then done
      else if e = ''..'' then
        (if done \<noteq> [] \<and> last done \<noteq> ''..'' then butlast done else if rooted then done else done @ [e])
      else done @ [e])"

fun joinWith :: "string \<Rightarrow> string list \<Rightarrow> string" where
  "joinWith sep [] = ''''"
| "joinWith sep [e] = e"
| "joinWith sep (e # es) = e @ sep @ joinWith sep es"

definition Clean :: "string \<Rightarrow> string" where
  "Clean p =
     (let rooted = HasPrefix p ''/'';
          out = joinWith ''/'' (fold (cleanStep rooted) (Split (CHR ''/'') p) [])
      in if rooted then ''/'' @ out else if out = '''' then ''.'' else out)"

definition Join :: "string list \<Rightarrow> string" where
  "Join elems = (case dropWhile (\<lambda>e. e = '''') elems of [] \<Rightarrow> '''' | es \<Rightarrow> Clean (joinWith ''/'' es))"

section \<open>Credentials\<close>

type_synonym handle = nat

record 'w driver_env =
  os_ReadFile :: "string \<Rightarrow> string + bytes"
  os_ReadDir :: "string \<Rightarrow> string + (string \<times> bool) list"
  os_WriteFile :: "string \<Rightarrow> bytes \<Rightarrow> 'w \<Rightarrow> string option \<times> 'w"
  x5_CertPoolFromPEM :: "bytes \<Rightarrow> handle option"
  gr_NewClient :: "string \<Rightarrow> handle \<Rightarrow> string \<Rightarrow> string + handle"
  id_CertificateFromPEM :: "bytes \<Rightarrow> string + handle"
  id_NewX509Identity :: "string \<Rightarrow> handle \<Rightarrow> string + handle"
  id_PrivateKeyFromPEM :: "bytes \<Rightarrow> string + handle"
  id_NewPrivateKeySign :: "handle \<Rightarrow> string + handle"
  cl_Connect :: "handle \<Rightarrow> handle \<Rightarrow> handle \<Rightarrow> 'w \<Rightarrow> (string + handle) \<times> 'w"
  cl_Submit :: "handle \<Rightarrow> string \<Rightarrow> string \<Rightarrow> string \<Rightarrow> string list \<Rightarrow> 'w \<Rightarrow> (string + unit) \<times> 'w"
  js_MarshalIndent :: "flags \<Rightarrow> load \<Rightarrow> bytes"
  fm_ms2 :: "int \<Rightarrow> string"

record cmdline =
  cm_out :: string
  cm_cryptoPath :: string
  cm_peerEndpoint :: string
  cm_peerHost :: string
  cm_mspID :: string
  cm_channel :: string
  cm_adminUser :: string
  cm_loadUser :: string

definition readFirstFile :: "'w driver_env \<Rightarrow> string \<Rightarrow> string + bytes" where
  "readFirstFile env dir =
     (case os_ReadDir env dir of
        Inl err \<Rightarrow> Inl err
      | Inr entries \<Rightarrow> readFirst_loop (\<lambda>name. os_ReadFile env (Join [dir, name])) dir entries)"

definition newGrpcConn :: "'w driver_env \<Rightarrow> string \<Rightarrow> string \<Rightarrow> string \<Rightarrow> string + handle" where
  "newGrpcConn env cryptoPath endpoint host =
     (case os_ReadFile env (Join [cryptoPath, ''peers'', ''peer0.org1.example.com'', ''tls'', ''ca.crt'']) of
        Inl err \<Rightarrow> Inl err
      | Inr pem \<Rightarrow>
          (case x5_CertPoolFromPEM env pem of
             None \<Rightarrow> Inl ''failed to add TLS CA cert''
           | Some pool \<Rightarrow> gr_NewClient env endpoint pool host))"

definition newIdentity :: "'w driver_env \<Rightarrow> string \<Rightarrow> string \<Rightarrow> string \<Rightarrow> string + handle" where
  "newIdentity env cryptoPath mspID user =
     (case readFirstFile env (Join [cryptoPath, ''users'', user, ''msp'', ''signcerts'']) of
        Inl err \<Rightarrow> Inl err
      | Inr pem \<Rightarrow>
          (case id_CertificateFromPEM env pem of
             Inl err \<Rightarrow> Inl err
           | Inr cert \<Rightarrow> id_NewX509Identity env mspID cert))"

definition newSign :: "'w driver_env \<Rightarrow> string \<Rightarrow> string \<Rightarrow> string + handle" where
  "newSign env cryptoPath user =
     (case readFirstFile env (Join [cryptoPath, ''users'', user, ''msp'', ''keystore'']) of
        Inl err \<Rightarrow> Inl err
      | Inr pem \<Rightarrow>
          (case id_PrivateKeyFromPEM env pem of
             Inl err \<Rightarrow> Inl err
           | Inr pk \<Rightarrow> id_NewPrivateKeySign env pk))"

section \<open>The start of a run\<close>

text \<open>The end of the program: its exit status and the message on the error output.\<close>

datatype exit = ExitStatus nat string

definition mustMsg :: "string \<Rightarrow> string \<Rightarrow> exit" where
  "mustMsg what err = ExitStatus 1 (''FATAL '' @ what @ '': '' @ err)"

definition usageMsg :: "string \<Rightarrow> exit" where
  "usageMsg msg = ExitStatus 2 (''usage error: '' @ msg)"

definition connectAs :: "'w driver_env \<Rightarrow> cmdline \<Rightarrow> handle \<Rightarrow> string \<Rightarrow> 'w \<Rightarrow> (exit + handle) \<times> 'w" where
  "connectAs env c conn user w =
     (case newIdentity env (cm_cryptoPath c) (cm_mspID c) user of
        Inl err \<Rightarrow> (Inl (mustMsg (''identity '' @ user) err), w)
      | Inr idn \<Rightarrow>
          (case newSign env (cm_cryptoPath c) user of
             Inl err \<Rightarrow> (Inl (mustMsg (''sign '' @ user) err), w)
           | Inr sign \<Rightarrow>
               (case cl_Connect env idn sign conn w of
                  (Inl err, w') \<Rightarrow> (Inl (mustMsg (''gateway connect '' @ user) err), w')
                | (Inr gw, w') \<Rightarrow> (Inr gw, w'))))"

text \<open>
  \<open>main\<close> up to the load phase: the result is the gateway of the load and its schedule. The hot keys
  are seeded through the gateway of the administrator.
\<close>

definition driverSetup ::
  "'w driver_env \<Rightarrow> 'r rng \<Rightarrow> (string \<Rightarrow> string list \<Rightarrow> string list) \<Rightarrow> cmdline \<Rightarrow> flags \<Rightarrow> 'w \<Rightarrow> (exit + handle \<times> (int64 \<times> bool) list) \<times> 'w" where
  "driverSetup env g order c f w =
     (case checkFlags f of
        Some msg \<Rightarrow> (Inl (usageMsg msg), w)
      | None \<Rightarrow>
          (case newGrpcConn env (cm_cryptoPath c) (cm_peerEndpoint c) (cm_peerHost c) of
             Inl err \<Rightarrow> (Inl (mustMsg ''grpc'' err), w)
           | Inr conn \<Rightarrow>
               (case connectAs env c conn (cm_adminUser c) w of
                  (Inl e, w1) \<Rightarrow> (Inl e, w1)
                | (Inr adminGw, w1) \<Rightarrow>
                    (case connectAs env c conn (cm_loadUser c) w1 of
                       (Inl e, w2) \<Rightarrow> (Inl e, w2)
                     | (Inr userGw, w2) \<Rightarrow>
                         (case seedRun (cl_Submit env adminGw (cm_channel c) (ccName f)) order f w2 of
                            (Inl msg, w3) \<Rightarrow> (Inl (ExitStatus 1 msg), w3)
                          | (Inr _, w3) \<Rightarrow> (Inr (userGw, schedule g f), w3))))))"

section \<open>The end of a run\<close>

definition showBool :: "bool \<Rightarrow> string" where
  "showBool b = (if b then ''true'' else ''false'')"

definition csvRow :: "'w driver_env \<Rightarrow> tx_rec \<Rightarrow> string" where
  "csvRow env r =
     natString (r_idx r) @ '','' @ r_txid r @ '','' @ r_code r @ '','' @ showBool (r_ok r) @ '','' @ showBool (r_submitErr r) @ '','' @
     showBool (r_reveal r) @ '','' @ fm_ms2 env (r_lat r) @ '','' @ r_key r @ '','' @ showBool (r_credit r)"

definition csvFile :: "'w driver_env \<Rightarrow> tx_rec list \<Rightarrow> string" where
  "csvFile env recs =
     ''idx,txid,code,ok,submitErr,reveal,latMs,key,credit'' @ [CHR 0x0A] @ concat (map (\<lambda>r. csvRow env r @ [CHR 0x0A]) recs)"

definition driverFinish :: "'w driver_env \<Rightarrow> cmdline \<Rightarrow> flags \<Rightarrow> load \<Rightarrow> 'w \<Rightarrow> (exit + unit) \<times> 'w" where
  "driverFinish env c f s w =
     (case os_WriteFile env (cm_out c) (js_MarshalIndent env f s) w of
        (Some err, w1) \<Rightarrow> (Inl (ExitStatus 1 (''FATAL: write summary '' @ cm_out c @ '': '' @ err)), w1)
      | (None, w1) \<Rightarrow>
          (case os_WriteFile env (cm_out c @ ''.csv'') (bytes_of_string (csvFile env (ld_recs s))) w1 of
             (Some err, w2) \<Rightarrow> (Inl (ExitStatus 1 (''FATAL: write per-tx CSV '' @ cm_out c @ ''.csv: '' @ err)), w2)
           | (None, w2) \<Rightarrow> (Inr (), w2)))"

section \<open>Failing fast\<close>

lemma connectAs_status: "connectAs env c conn user w = (Inl (ExitStatus n m), w') \<Longrightarrow> n = 1"
  by (auto simp: connectAs_def mustMsg_def split: sum.splits prod.splits)

text \<open>
  A bad parameter fails fast. The start of a run ends with status 2 exactly when a measurement parameter is
  bad, and then nothing outside the program has been touched; every other failure has status 1.
\<close>

theorem setup_exit_status:
  assumes "driverSetup env g order c f w = (Inl (ExitStatus n m), w')"
  shows "if checkFlags f = None then n = 1 else n = 2 \<and> w' = w"
  using assms connectAs_status
  by (fastforce simp: driverSetup_def usageMsg_def mustMsg_def split: option.splits sum.splits prod.splits)

section \<open>Seeding\<close>

text \<open>What the seeding phases submit, in order: every schema before every balance.\<close>

definition seedCalls :: "(string \<Rightarrow> string list \<Rightarrow> string list) \<Rightarrow> flags \<Rightarrow> (string \<times> string list) list" where
  "seedCalls order f =
     (let phase = (\<lambda>fn withVal. map (\<lambda>k. (fn, if withVal then [k, itoa (fl_initBal f)] else [k])) (order fn (hotKeys f)))
      in if fl_cc f = ''ours'' then phase ''SeedSchema'' False @ phase ''PutPlain'' True
         else if fl_cc f = ''nocheck'' then phase ''SeedRangeSchema'' False @ phase ''PutPlain'' True
         else phase ''Set'' True)"

lemma seedCalls_perm:
  assumes "\<forall>fn. mset (order fn (hotKeys f)) = mset (hotKeys f)"
  shows "mset (seedCalls order f) = mset (seedCalls (\<lambda>_ ks. ks) f)"
  using assms by (simp add: seedCalls_def Let_def)

lemma seed_each_log:
  assumes "\<And>fn args w. log (snd (submit fn args w)) = log w @ [h fn args]"
  shows "log (snd (seed_each submit f fn withVal ks w)) = log w @ map (\<lambda>k. h fn (if withVal then [k, itoa (fl_initBal f)] else [k])) ks"
proof (induction ks arbitrary: w)
  case (Cons k ks)
  obtain e w1 where s: "submit fn (if withVal then [k, itoa (fl_initBal f)] else [k]) w = (e, w1)" by fastforce
  obtain n w2 where r: "seed_each submit f fn withVal ks w1 = (n, w2)" by fastforce
  have "log w1 = log w @ [h fn (if withVal then [k, itoa (fl_initBal f)] else [k])]"
    using assms [of fn "if withVal then [k, itoa (fl_initBal f)] else [k]" w] s by simp
  then show ?case using Cons [of w1] s r by simp
qed simp

lemma seedAll_log:
  assumes "\<And>fn args w. log (snd (submit fn args w)) = log w @ [h fn args]"
  shows "log (snd (seedAll submit order f fn withVal w)) = log w @ map (\<lambda>k. h fn (if withVal then [k, itoa (fl_initBal f)] else [k])) (order fn (hotKeys f))"
  using seed_each_log [of log submit h f fn withVal "order fn (hotKeys f)" w, OF assms] by (simp add: seedAll_def case_prod_unfold)

lemma seedRun_log:
  assumes log: "\<And>fn args w. log (snd (submit fn args w)) = log w @ [h fn args]" and ok: "seedRun submit order f w = (Inr u, w')"
    and flags: "checkFlags f = None"
  shows "log w' = log w @ map (\<lambda>(fn, args). h fn args) (seedCalls order f)"
proof -
  have cc: "fl_cc f \<in> {''ours'', ''nocheck'', ''vanilla'', ''ht''}"
    using flags by (auto simp: checkFlags_def ccName_def mapLookup_def split: if_splits)
  have phase: "log w2 = log w1 @ map (\<lambda>k. h fn (if withVal then [k, itoa (fl_initBal f)] else [k])) (order fn (hotKeys f))"
    if "seedAll submit order f fn withVal w1 = (r, w2)" for fn withVal w1 r w2
    using seedAll_log [of log submit h order f fn withVal w1, OF log] that by simp
  show ?thesis
  proof (cases "fl_cc f = ''ours'' \<or> fl_cc f = ''nocheck''")
    case True
    let ?fn = "if fl_cc f = ''nocheck'' then ''SeedRangeSchema'' else ''SeedSchema''"
    obtain w1 where w1: "seedAll submit order f ?fn False w = (Inr (), w1)" "seedAll submit order f ''PutPlain'' True w1 = (Inr u, w')"
      using ok True by (auto simp: seedRun_def split: prod.splits sum.splits)
    show ?thesis using phase [OF w1(1)] phase [OF w1(2)] True by (auto simp: seedCalls_def comp_def)
  next
    case False
    then have "seedAll submit order f ''Set'' True w = (Inr u, w')" using ok cc by (auto simp: seedRun_def)
    from phase [OF this] False show ?thesis by (simp add: seedCalls_def comp_def)
  qed
qed

text \<open>
  C36 (the administrator seeds, the user loads). When the start of a run succeeds, the transactions it
  has submitted are exactly the seeding calls, to the chaincode of the baseline, every one of them by the gateway connected as the
  administrator, with all the schemas before the first balance; when the order in which the goroutines submit rearranges the keys,
  each phase seeds every hot key exactly once; and the load gets the gateway connected as the ordinary user.
\<close>

theorem setup_seeds_as_admin:
  assumes "\<forall>gw ch cc fn args w. log (snd (cl_Submit env gw ch cc fn args w)) = log w @ [(gw, cc, fn, args)]"
    and "\<forall>i s cn w. log (snd (cl_Connect env i s cn w)) = log w"
    and "driverSetup env g order c f w = (Inr (userGw, sch), w')"
  shows "\<exists>conn adminGw w1 w2. connectAs env c conn (cm_adminUser c) w = (Inr adminGw, w1) \<and>
    connectAs env c conn (cm_loadUser c) w1 = (Inr userGw, w2) \<and> sch = schedule g f \<and>
    log w' = log w @ map (\<lambda>(fn, args). (adminGw, ccName f, fn, args)) (seedCalls order f) \<and>
    ((\<forall>fn. mset (order fn (hotKeys f)) = mset (hotKeys f)) \<longrightarrow> mset (seedCalls order f) = mset (seedCalls (\<lambda>_ ks. ks) f))"
proof -
  have keep: "log w2 = log w1" if "connectAs env c conn user w1 = (Inr gw, w2)" for conn user w1 gw w2
    using that assms(2) [rule_format, of _ _ conn w1] by (auto simp: connectAs_def split: sum.splits prod.splits) (metis snd_conv)
  obtain conn adminGw w1 w2 where s: "checkFlags f = None" "connectAs env c conn (cm_adminUser c) w = (Inr adminGw, w1)"
    "connectAs env c conn (cm_loadUser c) w1 = (Inr userGw, w2)" "sch = schedule g f"
    "seedRun (cl_Submit env adminGw (cm_channel c) (ccName f)) order f w2 = (Inr (), w')"
    using assms(3) by (auto simp: driverSetup_def split: option.splits sum.splits prod.splits)
  have "log w' = log w2 @ map (\<lambda>(fn, args). (adminGw, ccName f, fn, args)) (seedCalls order f)"
    by (rule seedRun_log [OF _ s(5,1)]) (simp add: assms(1))
  then show ?thesis using s keep [OF s(2)] keep [OF s(3)] seedCalls_perm [of order f] by auto
qed

section \<open>The file of transactions\<close>

text \<open>The columns of a row by their position.\<close>

definition csvColumns :: "'w driver_env \<Rightarrow> tx_rec \<Rightarrow> string list" where
  "csvColumns env r =
     [natString (r_idx r), r_txid r, r_code r, showBool (r_ok r), showBool (r_submitErr r), showBool (r_reveal r),
      fm_ms2 env (r_lat r), r_key r, showBool (r_credit r)]"

definition plain :: "string \<Rightarrow> bool" where
  "plain s \<longleftrightarrow> CHR '','' \<notin> set s \<and> CHR 0x0A \<notin> set s"

lemma natString_plain: "plain (natString n)"
proof (induction n rule: natString.induct)
  case (1 n)
  have "plain [digitChar d]" if "d < 10" for d
  proof -
    have "of_char (digitChar d) = 48 + d" using that by (simp add: digitChar_def)
    moreover have "of_char (CHR '','') = (44 :: nat)" "of_char (CHR 0x0A) = (10 :: nat)" by simp_all
    ultimately have "digitChar d \<noteq> CHR '',''" "digitChar d \<noteq> CHR 0x0A" by (intro notI; simp)+
    then show ?thesis by (simp add: plain_def)
  qed
  then show ?case using 1 by (subst natString.simps) (auto simp: plain_def)
qed

lemma showBool_plain: "plain (showBool b)"
  by (simp add: plain_def showBool_def)

lemma Split_last: "sep \<notin> set s \<Longrightarrow> Split sep s = [s]"
  by (induction s) auto

lemma csvRow_split:
  assumes "list_all plain [r_txid r, r_code r, r_key r, fm_ms2 env (r_lat r)]"
  shows "Split (CHR '','') (csvRow env r) = csvColumns env r \<and> CHR 0x0A \<notin> set (csvRow env r)"
  using assms natString_plain [of "r_idx r"] showBool_plain
  by (simp add: csvRow_def csvColumns_def Split_line Split_last plain_def)

text \<open>
  The file of transactions can be read by position. When the ids, the codes, the keys and the printed
  latencies hold no comma and no line end, the file splits into the header, one row per transaction
  in the order of submission, and nothing after the last line end; and each row splits at its commas
  into the nine columns of its transaction, the credit column last.
\<close>

theorem csv_by_position:
  assumes "\<forall>r \<in> set recs. list_all plain [r_txid r, r_code r, r_key r, fm_ms2 env (r_lat r)]"
  shows "\<exists>rows. Split (CHR 0x0A) (csvFile env recs) = ''idx,txid,code,ok,submitErr,reveal,latMs,key,credit'' # rows @ [''''] \<and>
    map (Split (CHR '','')) rows = map (csvColumns env) recs"
proof -
  have "Split (CHR 0x0A) (csvFile env recs) = ''idx,txid,code,ok,submitErr,reveal,latMs,key,credit'' # map (csvRow env) recs @ ['''']"
  proof -
    have "csvFile env recs = concat (map (\<lambda>s. s @ [CHR 0x0A]) (''idx,txid,code,ok,submitErr,reveal,latMs,key,credit'' # map (csvRow env) recs))"
      by (simp add: csvFile_def comp_def)
    then show ?thesis using csvRow_split assms by (simp only:) (subst Split_lines, auto)
  qed
  then show ?thesis using csvRow_split assms by (intro exI [of _ "map (csvRow env) recs"]) auto
qed

section \<open>An example run\<close>

text \<open>
  A file system in which every file holds its own name and every directory one file, identities that are
  the length of that name, and a gateway that notes what is submitted and by whom.
\<close>

definition exDriver :: "(handle \<times> string \<times> string \<times> string list) list driver_env" where
  "exDriver = \<lparr>os_ReadFile = (\<lambda>p. Inr (bytes_of_string p)), os_ReadDir = (\<lambda>_. Inr [(''cert.pem'', False)]), os_WriteFile = (\<lambda>_ _ w. (None, w)),
     x5_CertPoolFromPEM = (\<lambda>_. Some 0), gr_NewClient = (\<lambda>_ _ _. Inr 0), id_CertificateFromPEM = (\<lambda>pem. Inr (length pem)),
     id_NewX509Identity = (\<lambda>_ cert. Inr cert), id_PrivateKeyFromPEM = (\<lambda>_. Inr 0), id_NewPrivateKeySign = (\<lambda>_. Inr 0),
     cl_Connect = (\<lambda>idn _ _ w. (Inr idn, w)), cl_Submit = (\<lambda>gw _ cc fn args w. (Inr (), w @ [(gw, cc, fn, args)])),
     js_MarshalIndent = (\<lambda>_ _. []), fm_ms2 = (\<lambda>_. ''1.25'')\<rparr>"

definition exCmdline :: cmdline where
  "exCmdline = \<lparr>cm_out = ''run.json'', cm_cryptoPath = ''/org1'', cm_peerEndpoint = ''localhost:7051'', cm_peerHost = ''peer0'',
     cm_mspID = ''Org1MSP'', cm_channel = ''mychannel'', cm_adminUser = ''Admin'', cm_loadUser = ''User12''\<rparr>"

definition exRng :: "unit rng" where
  "exRng = \<lparr>rng_New = (\<lambda>_. ()), rng_Int63n = (\<lambda>_ _. (0, ())), rng_Intn = (\<lambda>_ _. (0, ()))\<rparr>"

theorem setup_exit_status_witness:
  "driverSetup exDriver exRng (\<lambda>_ ks. ks) exCmdline (exFlags\<lparr>fl_count := 0\<rparr>) [] = (Inl (ExitStatus 2 ''usage error: -count must be > 0''), [])"
proof -
  have run: "\<exists>w'. driverSetup exDriver exRng (\<lambda>_ ks. ks) exCmdline (exFlags\<lparr>fl_count := 0\<rparr>) [] = (Inl (ExitStatus 2 ''usage error: -count must be > 0''), w')"
    by (simp add: driverSetup_def usageMsg_def checkFlags_def ccName_def mapLookup_def exFlags_def)
  then obtain w' where w': "driverSetup exDriver exRng (\<lambda>_ ks. ks) exCmdline (exFlags\<lparr>fl_count := 0\<rparr>) [] = (Inl (ExitStatus 2 ''usage error: -count must be > 0''), w')"
    by blast
  with setup_exit_status [OF w'] show ?thesis by (auto split: if_splits)
qed

lemma exDriver_connects:
  "connectAs exDriver exCmdline cn ''Admin'' w = (Inr 40, w)" "connectAs exDriver exCmdline cn ''User12'' w = (Inr 41, w)"
  by (simp_all add: connectAs_def newIdentity_def newSign_def readFirstFile_def exDriver_def exCmdline_def Join_def Clean_def HasPrefix_def Let_def)

theorem setup_seeds_as_admin_witness:
  "snd (driverSetup exDriver exRng (\<lambda>_. rev) exCmdline (exFlags\<lparr>fl_cc := ''ours'', fl_nkeys := 2, fl_initBal := 5\<rparr>) []) =
     [(40, ''typeddelta'', ''SeedSchema'', [''hot-k1'']), (40, ''typeddelta'', ''SeedSchema'', [''hot-k0'']),
      (40, ''typeddelta'', ''PutPlain'', [''hot-k1'', itoa 5]), (40, ''typeddelta'', ''PutPlain'', [''hot-k0'', itoa 5])] \<and>
   mset (seedCalls (\<lambda>_. rev) (exFlags\<lparr>fl_cc := ''ours'', fl_nkeys := 2, fl_initBal := 5\<rparr>)) =
     mset (seedCalls (\<lambda>_ ks. ks) (exFlags\<lparr>fl_cc := ''ours'', fl_nkeys := 2, fl_initBal := 5\<rparr>))"
proof -
  let ?f = "exFlags\<lparr>fl_cc := ''ours'', fl_nkeys := 2, fl_initBal := 5\<rparr>" and ?order = "\<lambda>_ :: string. rev :: string list \<Rightarrow> string list"
  have hot: "hotKeys ?f = [''hot-k0'', ''hot-k1'']"
    by (simp add: hotKeys_def exFlags_def natString.simps digitChar_def char_of_eq_iff take_bit_eq_mod upt_rec)
  note con = exDriver_connects
  have users: "cm_adminUser exCmdline = ''Admin''" "cm_loadUser exCmdline = ''User12''" by (simp_all add: exCmdline_def)
  have flags: "checkFlags ?f = None" by (simp add: checkFlags_def ccName_def mapLookup_def exFlags_def)
  have "newGrpcConn exDriver p e h = Inr 0" for p e h by (simp add: newGrpcConn_def exDriver_def)
  then have "\<exists>w'. driverSetup exDriver exRng ?order exCmdline ?f [] = (Inr (41, schedule exRng ?f), w')"
    by (simp add: driverSetup_def flags users con hot seedRun_def seedAll_def) (simp add: exDriver_def seedAll_def hot)
  then obtain w' where run: "driverSetup exDriver exRng ?order exCmdline ?f [] = (Inr (41, schedule exRng ?f), w')" by blast
  have "w' = map (\<lambda>(fn, args). (40, ccName ?f, fn, args)) (seedCalls ?order ?f) \<and> mset (seedCalls ?order ?f) = mset (seedCalls (\<lambda>_ ks. ks) ?f)"
    using setup_seeds_as_admin [where log = "\<lambda>w. w", OF _ _ run] con users by (auto simp: exDriver_def)
  then show ?thesis using run by (simp add: seedCalls_def hot ccName_def mapLookup_def)
qed

theorem csv_by_position_witness:
  "\<exists>row. Split (CHR 0x0A) (csvFile exDriver [zeroRec\<lparr>r_idx := 3, r_txid := ''ab12'', r_code := ''VALID'', r_ok := True, r_key := ''hot''\<rparr>]) =
       [''idx,txid,code,ok,submitErr,reveal,latMs,key,credit'', row, ''''] \<and>
     Split (CHR '','') row = [''3'', ''ab12'', ''VALID'', ''true'', ''false'', ''false'', ''1.25'', ''hot'', ''false'']"
proof -
  let ?r = "zeroRec\<lparr>r_idx := 3, r_txid := ''ab12'', r_code := ''VALID'', r_ok := True, r_key := ''hot''\<rparr>"
  have "\<forall>r \<in> set [?r]. list_all plain [r_txid r, r_code r, r_key r, fm_ms2 exDriver (r_lat r)]" by (simp add: plain_def exDriver_def)
  from csv_by_position [OF this] obtain row where
    "Split (CHR 0x0A) (csvFile exDriver [?r]) = [''idx,txid,code,ok,submitErr,reveal,latMs,key,credit'', row, '''']"
    "Split (CHR '','') row = csvColumns exDriver ?r"
    by (auto simp: map_eq_Cons_conv)
  moreover have "natString 3 = ''3''" by (simp add: natString.simps [of 3] digitChar_def char_of_eq_iff take_bit_eq_mod)
  ultimately show ?thesis by (auto simp: csvColumns_def showBool_def zeroRec_def exDriver_def)
qed

end
