(* ===== verification/Spec2Isabelle.thy ===== *)
theory Spec2Isabelle
  imports End_To_End Endorse Validation History Shim_Discipline Shim_Keys Shim_Race CC_TypedDelta CC_Vanilla CC_HighThroughput
    Analyzer_Soundness Analyzer_Main KV_Crash KV_Concurrent Driver_Main
begin

text \<open>
  \<^bold>\<open>Typed deltas in a Fabric-style ledger.\<close> The program lets a transaction write, instead of a value, a
  \<^emph>\<open>delta\<close> (add or subtract a magnitude) to an int64 balance, so that concurrent transactions on one key
  do not conflict. A delta must be built without reading the state, is checked at commit time
  against the schema of its key (allowed operations and an invariant such as non-negativity), and is
  then folded into the current value.

  \<^bold>\<open>Parts and how they interact.\<close> A chaincode (\<open>chaincode/*.go\<close>) calls a stub (\<open>shim/stub.go\<close>), whose
  handler (\<open>shim/handler.go\<close>) exchanges messages with the peer; the read-write set that results
  carries delta descriptors. When a block is committed, the ledger (\<open>fabric-core/kv_ledger.go\<close>)
  validates it, stores private data and block, and applies it to the state and history databases;
  inside the validation the hooks (\<open>fabric-core/typeddelta_hooks.go\<close>) decide on delta transactions
  and materialise them with the algebra of \<open>fabric-core/typeddelta.go\<close>. History queries
  (\<open>history/query_executer.go\<close>) and the offline analyzer (\<open>analyzer/main.go\<close>) replay the committed
  writes; \<open>driver/loaddriver.go\<close> produces load and counts outcomes.

  \<^bold>\<open>Theories and sources.\<close>
  \<^item> \<open>Prelude\<close>, \<open>Go_Std\<close>, \<open>Go_Utf8\<close>, \<open>Go_Strings\<close>, \<open>Go_Sha256\<close>, \<open>Go_Monad\<close>: Go's integers as words with their exact readings,
    the codecs and string functions of the standard library, UTF-8, \<open>strings.TrimSpace\<close> and its like, SHA-256, and computations with a
    state that may panic, with deferred functions.
  \<^item> \<open>Interfaces\<close>: the contracts \<open>checked_adder\<close> (interpreted on \<open>addChecked\<close> of \<open>typeddelta.go\<close> and of
    \<open>analyzer/main.go\<close>) and \<open>int64_codec\<close> (on \<open>MarshalInt64\<close>/\<open>UnmarshalInt64\<close> and on the encoders of two
    chaincodes). \<open>Stub_Contract\<close>: the contract \<open>delta_stub\<close> of a stub that offers deltas, interpreted on
    the endorsement-time stub and on the shim's stub.
  \<^item> \<open>TypedDelta\<close> (\<open>typeddelta.go\<close>): operations, invariants, \<open>FoldNet\<close>, \<open>ApplyNet\<close>, \<open>Apply\<close>. Folding returns the exact sum
    or reports overflow, in any order of the deltas.
  \<^item> \<open>Rwset\<close>, \<open>Protos\<close>: the messages the components exchange. \<open>Endorse\<close> (\<open>endorse.go\<close>): descriptors and the strict
    stub; no delta after a read, no key both plain and delta, only canonical descriptors.
  \<^item> \<open>Validation\<close> (\<open>typeddelta_hooks.go\<close>): schema lookup, structural checks, the verdict and the
    materialisation. The verdict is characterised exactly, and accepted transactions materialise
    without error, with exact values that satisfy the invariant.
  \<^item> \<open>History\<close> (\<open>query_executer.go\<close>): newest first, and the newest entry is the committed value.
  \<^item> \<open>Shim_Handler\<close>, \<open>Shim_Dispatch\<close> (\<open>handler.go\<close>): requests and their response channels; the message loop, its
    three states, and the reply to a request. \<open>Shim_Race\<close>: the interleaving of any number of requests with the
    receiving goroutine, over the mutex and the unbuffered channels; it ends when the peer answers each
    request once, and a second answer can deadlock it.
    \<open>Shim_Stub\<close>, \<open>Shim_Discipline\<close>, \<open>Shim_Keys\<close> (\<open>stub.go\<close>): the whole stub; the delta discipline of the messages the peer
    receives; composite keys, ranges, iterators and the agreement of the two descriptor builders.
  \<^item> \<open>CC_Common\<close>, \<open>CC_TypedDelta\<close>, \<open>CC_Vanilla\<close>, \<open>CC_HighThroughput\<close>: the three chaincodes. Transfers conserve the total,
    schema records need an administrator and govern validation where they are stored, balances
    are exact.
  \<^item> \<open>End_To_End\<close>: from a transfer of the chaincode through its messages, the simulated transaction and the
    verdict to the committed balances, whose total does not change.
  \<^item> \<open>Analyzer\<close>, \<open>Analyzer_Soundness\<close>: loading and replaying a chain; on a chain the validator accepted the
    analyzer counts no violation and its balances are the committed ones. \<open>Analyzer_Main\<close>: the whole run with
    the file of invalid transaction ids, which is read exactly.
  \<^item> \<open>KV_Ledger\<close> (\<open>kv_ledger.go\<close>): the ledger record (\<open>kvLedger\<close>) and its methods, as computations on the ledger and
    the contents of its stores. \<open>KV_Commit\<close>: the order of writes of a commit, its locks and the commit
    hash across a restart. \<open>KV_Recovery\<close>: recovery ends and brings the databases level with the block
    store; filters and notifications. \<open>KV_Crash\<close>: however a commit ends, the restart finds databases that
    are not ahead of the block store and levels them, and private data is written once. \<open>KV_Concurrent\<close>: the
    interleaving of the committer with readers, block iterators and the consumer of notifications: no reader sees half a
    commit unless a database has made it panic, when the deferred unlock lets readers in until the process has
    ended; commits end; and what a full notification channel does. A block store that reports an error is taken
    not to have changed its height there, and there is no commit after a panic.
  \<^item> \<open>Driver\<close>, \<open>Driver_Props\<close> (\<open>loaddriver.go\<close>): parameters, keys, schedule, the concurrent load loop as a step
    relation, and what the figures of the summary count. \<open>Driver_Main\<close>: credentials, the two
    connections, the start of a run up to the load and the files at its end; the administrator seeds and the user loads.

  \<^bold>\<open>Conventions.\<close> An operation that returns \<open>(value, error)\<close> has a value of a sum type; panics are outcomes
  of the computation; a deferred call runs on return and on panic. Iterating over a Go map visits the keys in
  an arbitrary order: the order is an argument, and theorems either hold for every order or show
  that the result depends on it. Concurrency is a step relation whose steps may interleave freely
  (\<open>race_step\<close>, \<open>load_step\<close>, \<open>cstep\<close>); in the functions of \<open>KV_Ledger\<close>, which run alone, locks are
  fields of the ledger's record.

  \<^bold>\<open>Code outside the repository\<close> (protobuf codecs, the peer and its stream, the stores and the transaction
  manager, PEM/X.509/JSON, the gateway, \<open>math/rand\<close>) is passed as arguments: \<open>shim_env\<close>, \<open>stub_env\<close>,
  \<open>cc_lib\<close>, \<open>ledger_env\<close>, \<open>analyzer_env\<close>, \<open>driver_env\<close>, \<open>rng\<close> and function parameters. What a theorem needs of it is a hypothesis
  (\<open>recordsOps\<close>, \<open>recoveryLaws\<close>, \<open>heightLaws\<close>, \<open>storesAnswer\<close>, round trips of a codec), shown to hold on an example in the witness.

  \<^bold>\<open>Loops and fuel.\<close> No fuel is used. Loops over lists are structural recursions; \<open>ht_sum_loop\<close> (an iterator
  that may never end) and \<open>recommitLostBlocks\<close> (a uint64 counter that may wrap) are partial functions whose
  value \<open>None\<close> means no end, and their ends are theorems (\<open>ht_get_sums\<close>, \<open>recovery_ends\<close>).

  \<^bold>\<open>Not modelled.\<close> Logging; the declaration and parsing of command-line flags, and the \<open>main\<close> functions of the
  chaincodes, which only start the shim; the snapshot manager beyond the events the ledger sends it (it is
  not in the repository); in the driver the floating-point rounding of printed figures and the
  JSON text of the summary; scripts, data and tests.
\<close>

end
